(* ===== verification/Prelude.thy ===== *)
theory Prelude
  imports Main
begin

text \<open>
  What every component shares: the collections of simplification rules the component
  theories fill, the list function \<open>lastn\<close> (the tail of a bounded log) with its laws,
  and a few generic facts about lists and maps that carry the component proofs.
\<close>

named_theorems go_string_simps \<open>evaluation of Go string and UTF-8 operations\<close>
named_theorems store_simps \<open>equations of the abstract store\<close>
named_theorems daemon_defs \<open>definitions the invariant proofs unfold\<close>

section \<open>The last elements of a list\<close>

definition lastn :: "nat \<Rightarrow> 'a list \<Rightarrow> 'a list" where
  "lastn n xs = drop (length xs - n) xs"

lemma length_lastn [simp]: "length (lastn n xs) = min n (length xs)"
  by (simp add: lastn_def)

lemma lastn_Nil [simp]: "lastn n [] = []"
  by (simp add: lastn_def)

lemma lastn_0 [simp]: "lastn 0 xs = []"
  by (simp add: lastn_def)

lemma lastn_all [simp]: "length xs \<le> n \<Longrightarrow> lastn n xs = xs"
  by (simp add: lastn_def)

lemma set_lastn_subset: "set (lastn n xs) \<subseteq> set xs"
  by (simp add: lastn_def set_drop_subset)

lemma in_set_lastn: "x \<in> set (lastn n xs) \<Longrightarrow> x \<in> set xs"
  by (rule subsetD [OF set_lastn_subset])

lemma lastn_snoc: "0 < n \<Longrightarrow> lastn n (xs @ [x]) = lastn (n - 1) xs @ [x]"
  by (cases n) (simp_all add: lastn_def)

lemma last_lastn [simp]:
  assumes "0 < n" and "xs \<noteq> []"
  shows "last (lastn n xs) = last xs"
proof -
  from assms have "length xs - n < length xs" by (intro diff_less) auto
  then show ?thesis unfolding lastn_def by (rule last_drop)
qed

lemma lastn_eq_Nil_iff [simp]: "lastn n xs = [] \<longleftrightarrow> n = 0 \<or> xs = []"
  by (cases xs) (auto simp: lastn_def)

lemma lastn_map: "lastn n (map f xs) = map f (lastn n xs)"
  by (simp add: lastn_def drop_map)

lemma distinct_lastn: "distinct xs \<Longrightarrow> distinct (lastn n xs)"
  by (simp add: lastn_def)

lemma lastn_rev: "lastn n xs = rev (take n (rev xs))"
  by (simp add: lastn_def take_rev)

lemma lastn_lastn_append: "lastn n (lastn n xs @ ys) = lastn n (xs @ ys)"
  by (simp add: lastn_rev min_def)

lemma lastn_suffix: "\<exists>ys. xs = ys @ lastn n xs"
  unfolding lastn_def by (metis append_take_drop_id)

lemma lastn_lastn [simp]: "lastn m (lastn n xs) = lastn (min m n) xs"
  by (simp add: lastn_rev min.commute)

section \<open>Splitting a list at its first match\<close>

text \<open>The part of a list after the first element that satisfies a predicate, if any.\<close>

fun after_first :: "('a \<Rightarrow> bool) \<Rightarrow> 'a list \<Rightarrow> 'a list option" where
  "after_first p [] = None"
| "after_first p (x # xs) = (if p x then Some xs else after_first p xs)"

lemma after_first_None_iff: "after_first p xs = None \<longleftrightarrow> (\<forall>x\<in>set xs. \<not> p x)"
  by (induction xs) auto

lemma after_first_Some_set: "after_first p xs = Some ys \<Longrightarrow> set ys \<subseteq> set xs"
  by (induction xs) (auto split: if_splits)

lemma after_first_length: "after_first p xs = Some ys \<Longrightarrow> length ys < length xs"
  by (induction xs) (auto split: if_splits)

lemma after_first_append:
  "after_first p (xs @ ys) =
     (case after_first p xs of None \<Rightarrow> after_first p ys | Some zs \<Rightarrow> Some (zs @ ys))"
  by (induction xs) auto

lemma after_first_SomeD:
  "after_first p xs = Some ys \<Longrightarrow> \<exists>us u. xs = us @ u # ys \<and> p u \<and> (\<forall>x\<in>set us. \<not> p x)"
proof (induction xs)
  case Nil
  then show ?case by simp
next
  case (Cons x xs)
  show ?case
  proof (cases "p x")
    case True
    with Cons.prems have "x # xs = [] @ x # ys" by simp
    with True show ?thesis by fastforce
  next
    case False
    with Cons.prems have "after_first p xs = Some ys" by simp
    with Cons.IH obtain us u where "xs = us @ u # ys" "p u" "\<forall>x\<in>set us. \<not> p x" by blast
    with False have "x # xs = (x # us) @ u # ys \<and> p u \<and> (\<forall>z\<in>set (x # us). \<not> p z)" by simp
    then show ?thesis by blast
  qed
qed

lemma after_first_SomeI:
  "p u \<Longrightarrow> \<forall>x\<in>set us. \<not> p x \<Longrightarrow> after_first p (us @ u # ys) = Some ys"
  by (induction us) auto

section \<open>Counting\<close>

lemma length_filter_le_append:
  "length (filter p ys) \<le> length (filter p (xs @ ys))"
  by simp

end
