(* ===== verification/GoStrings.thy ===== *)
theory GoStrings
  imports Prelude "HOL-Library.Char_ord"
begin

text \<open>
  The Go strings the program works on. A Go string is a sequence of bytes, so it is a
  \<open>string\<close> here (a list of 8-bit \<open>char\<close>s) and \<open>length\<close> is Go's \<open>len\<close>. Ranging over
  a Go string decodes UTF-8: \<open>runes\<close> is the sequence of code points the loop sees, an
  invalid byte giving U+FFFD with width one; \<open>encode_rune\<close> is what a
  \<open>strings.Builder\<close> appends for \<open>WriteRune\<close>. The lemmas show that the two are inverse
  on valid code points, which is what the sanitiser and the JSON encoder rest on.
\<close>

type_synonym gostring = string
type_synonym rune = nat

abbreviation bv :: "char \<Rightarrow> nat" where
  "bv c \<equiv> of_char c"

lemma bv_char_of: "n < 256 \<Longrightarrow> bv (char_of n) = n"
  by simp

section \<open>UTF-8\<close>

definition rune_error :: rune where
  "rune_error = 0xFFFD"

definition valid_rune :: "rune \<Rightarrow> bool" where
  "valid_rune r \<longleftrightarrow> r \<le> 0x10FFFF \<and> \<not> (0xD800 \<le> r \<and> r \<le> 0xDFFF)"

definition cont_byte :: "char \<Rightarrow> bool" where
  "cont_byte c \<longleftrightarrow> 0x80 \<le> bv c \<and> bv c \<le> 0xBF"

definition lo_byte :: "nat \<Rightarrow> nat" where
  "lo_byte b = (if b = 0xE0 then 0xA0 else if b = 0xF0 then 0x90 else 0x80)"

definition hi_byte :: "nat \<Rightarrow> nat" where
  "hi_byte b = (if b = 0xED then 0x9F else if b = 0xF4 then 0x8F else 0xBF)"

text \<open>
  \<open>decode_rune c cs\<close> decodes the rune at the start of \<open>c # cs\<close>: the code point and its
  width in bytes, or (U+FFFD, 1) where the bytes are not a shortest-form encoding of a
  scalar value.
\<close>

definition decode_rune :: "char \<Rightarrow> gostring \<Rightarrow> rune \<times> nat" where
  "decode_rune c cs =
     (let b = bv c in
      if b < 0x80 then (b, 1)
      else if b < 0xC2 \<or> 0xF4 < b then (rune_error, 1)
      else if b < 0xE0 then
        (case cs of
           c1 # _ \<Rightarrow> if cont_byte c1 then ((b - 0xC0) * 64 + (bv c1 - 0x80), 2)
                     else (rune_error, 1)
         | [] \<Rightarrow> (rune_error, 1))
      else if b < 0xF0 then
        (case cs of
           c1 # c2 # _ \<Rightarrow>
             if lo_byte b \<le> bv c1 \<and> bv c1 \<le> hi_byte b \<and> cont_byte c2
             then ((b - 0xE0) * 4096 + (bv c1 - 0x80) * 64 + (bv c2 - 0x80), 3)
             else (rune_error, 1)
         | _ \<Rightarrow> (rune_error, 1))
      else
        (case cs of
           c1 # c2 # c3 # _ \<Rightarrow>
             if lo_byte b \<le> bv c1 \<and> bv c1 \<le> hi_byte b \<and> cont_byte c2 \<and> cont_byte c3
             then ((b - 0xF0) * 262144 + (bv c1 - 0x80) * 4096 + (bv c2 - 0x80) * 64
                     + (bv c3 - 0x80), 4)
             else (rune_error, 1)
         | _ \<Rightarrow> (rune_error, 1)))"

function runes :: "gostring \<Rightarrow> rune list" where
  "runes [] = []"
| "runes (c # cs) =
     (let (r, w) = decode_rune c cs in r # runes (drop (w - 1) cs))"
  by pat_completeness auto
termination
  by (relation "measure length") auto

definition encode_rune :: "rune \<Rightarrow> gostring" where
  "encode_rune r =
     (if r \<le> 0x7F then [char_of r]
      else if r \<le> 0x7FF then [char_of (0xC0 + r div 64), char_of (0x80 + r mod 64)]
      else if \<not> valid_rune r then [char_of (0xEF::nat), char_of (0xBF::nat), char_of (0xBD::nat)]
      else if r \<le> 0xFFFF then
        [char_of (0xE0 + r div 4096), char_of (0x80 + r div 64 mod 64),
         char_of (0x80 + r mod 64)]
      else
        [char_of (0xF0 + r div 262144), char_of (0x80 + r div 4096 mod 64),
         char_of (0x80 + r div 64 mod 64), char_of (0x80 + r mod 64)])"

definition encode_runes :: "rune list \<Rightarrow> gostring" where
  "encode_runes rs = concat (map encode_rune rs)"

definition valid_utf8 :: "gostring \<Rightarrow> bool" where
  "valid_utf8 s \<longleftrightarrow> encode_runes (runes s) = s"

lemma encode_runes_simps [simp]:
  "encode_runes [] = []"
  "encode_runes (r # rs) = encode_rune r @ encode_runes rs"
  "encode_runes (rs @ qs) = encode_runes rs @ encode_runes qs"
  by (simp_all add: encode_runes_def)

lemma valid_rune_error [simp]: "valid_rune rune_error"
  by (simp add: valid_rune_def rune_error_def)

section \<open>Decoding inverts encoding\<close>

text \<open>Base-64 digits of a code point, as linear equations the arithmetic methods can use.\<close>

lemma split64: "(r::nat) = (r div 64) * 64 + r mod 64"
  by (simp only: div_mult_mod_eq)

lemma split4096: "(r::nat) = (r div 4096) * 4096 + (r div 64 mod 64) * 64 + r mod 64"
proof -
  have "r div 64 = (r div 64 div 64) * 64 + r div 64 mod 64" by (rule split64)
  moreover have "r div 64 div 64 = r div 4096" by (simp flip: div_mult2_eq)
  ultimately show ?thesis using split64 [of r] by linarith
qed

lemma split262144:
  "(r::nat) = (r div 262144) * 262144 + (r div 4096 mod 64) * 4096 + (r div 64 mod 64) * 64 + r mod 64"
proof -
  have "r div 4096 = (r div 4096 div 64) * 64 + r div 4096 mod 64" by (rule split64)
  moreover have "r div 4096 div 64 = r div 262144" by (simp flip: div_mult2_eq)
  ultimately show ?thesis using split4096 [of r] by linarith
qed

lemma decode_ascii: "r < 0x80 \<Longrightarrow> decode_rune (char_of r) cs = (r, 1)"
  by (simp add: decode_rune_def)

lemma decode_two:
  assumes "0x80 \<le> r" and "r \<le> 0x7FF"
  shows "decode_rune (char_of (0xC0 + r div 64)) (char_of (0x80 + r mod 64) # cs) = (r, 2)"
proof -
  have "r mod 64 < 64" by simp
  then have "r div 64 < 32" "2 \<le> r div 64" using assms split64 [of r] by linarith+
  then have "bv (char_of (0xC0 + r div 64)) = 0xC0 + r div 64"
    and "bv (char_of (0x80 + r mod 64)) = 0x80 + r mod 64"
    by simp_all
  with \<open>r div 64 < 32\<close> \<open>2 \<le> r div 64\<close> \<open>r mod 64 < 64\<close> show ?thesis
    by (simp add: decode_rune_def Let_def cont_byte_def del: of_char_of)
qed

lemma decode_three:
  assumes "0x7FF < r" and "r \<le> 0xFFFF" and v: "valid_rune r"
  shows "decode_rune (char_of (0xE0 + r div 4096))
           (char_of (0x80 + r div 64 mod 64) # char_of (0x80 + r mod 64) # cs) = (r, 3)"
proof -
  define a where "a = r div 4096"
  define b where "b = r div 64 mod 64"
  define d where "d = r mod 64"
  have r: "r = a * 4096 + b * 64 + d" unfolding a_def b_def d_def by (rule split4096)
  have "b < 64" "d < 64" by (simp_all add: b_def d_def)
  moreover from this have "a < 16" using assms r by linarith
  ultimately have bounds: "a < 16" "b < 64" "d < 64" by simp_all
  have lo: "a = 0 \<Longrightarrow> 32 \<le> b" using assms r bounds by linarith
  have hi: "a = 13 \<Longrightarrow> b < 32" using v r bounds unfolding valid_rune_def by linarith
  have "bv (char_of (0xE0 + a)) = 0xE0 + a" "bv (char_of (0x80 + b)) = 0x80 + b"
    "bv (char_of (0x80 + d)) = 0x80 + d"
    using bounds by simp_all
  with bounds lo hi have "decode_rune (char_of (0xE0 + a))
      (char_of (0x80 + b) # char_of (0x80 + d) # cs) = (r, 3)"
    by (auto simp add: decode_rune_def Let_def cont_byte_def lo_byte_def hi_byte_def r
        simp del: of_char_of)
  then show ?thesis unfolding a_def b_def d_def .
qed

lemma decode_four:
  assumes "0xFFFF < r" and "r \<le> 0x10FFFF"
  shows "decode_rune (char_of (0xF0 + r div 262144))
           (char_of (0x80 + r div 4096 mod 64) # char_of (0x80 + r div 64 mod 64)
            # char_of (0x80 + r mod 64) # cs) = (r, 4)"
proof -
  define a where "a = r div 262144"
  define b where "b = r div 4096 mod 64"
  define d where "d = r div 64 mod 64"
  define e where "e = r mod 64"
  have r: "r = a * 262144 + b * 4096 + d * 64 + e"
    unfolding a_def b_def d_def e_def by (rule split262144)
  have "b < 64" "d < 64" "e < 64" by (simp_all add: b_def d_def e_def)
  moreover from this have "a < 5" using assms r by linarith
  ultimately have bounds: "a < 5" "b < 64" "d < 64" "e < 64" by simp_all
  have lo: "a = 0 \<Longrightarrow> 16 \<le> b" using assms r bounds by linarith
  have hi: "a = 4 \<Longrightarrow> b < 16" using assms r bounds by linarith
  have "bv (char_of (0xF0 + a)) = 0xF0 + a" "bv (char_of (0x80 + b)) = 0x80 + b"
    "bv (char_of (0x80 + d)) = 0x80 + d" "bv (char_of (0x80 + e)) = 0x80 + e"
    using bounds by simp_all
  with bounds lo hi have "decode_rune (char_of (0xF0 + a))
      (char_of (0x80 + b) # char_of (0x80 + d) # char_of (0x80 + e) # cs) = (r, 4)"
    by (auto simp add: decode_rune_def Let_def cont_byte_def lo_byte_def hi_byte_def r
        simp del: of_char_of)
  then show ?thesis unfolding a_def b_def d_def e_def .
qed

lemma runes_encode_rune:
  assumes v: "valid_rune r"
  shows "runes (encode_rune r @ s) = r # runes s"
proof -
  consider "r \<le> 0x7F" | "0x80 \<le> r" "r \<le> 0x7FF" | "0x7FF < r" "r \<le> 0xFFFF" | "0xFFFF < r"
    by linarith
  then show ?thesis
  proof cases
    case 1
    then show ?thesis by (simp add: encode_rune_def decode_ascii del: of_char_of)
  next
    case 2
    then show ?thesis by (simp add: encode_rune_def decode_two)
  next
    case 3
    then show ?thesis using v
      by (simp add: encode_rune_def decode_three numeral_3_eq_3)
  next
    case 4
    have "r \<le> 0x10FFFF" using v by (simp add: valid_rune_def)
    have enc: "encode_rune r = [char_of (0xF0 + r div 262144), char_of (0x80 + r div 4096 mod 64),
        char_of (0x80 + r div 64 mod 64), char_of (0x80 + r mod 64)]"
      using 4 v by (simp only: encode_rune_def) simp
    show ?thesis
      unfolding enc append_Cons append_Nil runes.simps decode_four [OF 4 \<open>r \<le> 0x10FFFF\<close>]
      by simp
  qed
qed

lemma runes_encode_append:
  "list_all valid_rune rs \<Longrightarrow> runes (encode_runes rs @ s) = rs @ runes s"
  by (induction rs) (simp_all add: runes_encode_rune)

lemma runes_encode [simp]: "list_all valid_rune rs \<Longrightarrow> runes (encode_runes rs) = rs"
  using runes_encode_append [of rs "[]"] by simp

section \<open>What decoding yields\<close>

lemma valid_two: "0xC2 \<le> b \<Longrightarrow> b < 0xE0 \<Longrightarrow> y \<le> 0xBF \<Longrightarrow> valid_rune ((b - 0xC0) * 64 + (y - 0x80))"
  unfolding valid_rune_def by linarith

lemma valid_three:
  assumes "0xE0 \<le> b" and "b < 0xF0" and "lo_byte b \<le> y" and "y \<le> hi_byte b" and "z \<le> 0xBF"
  shows "valid_rune ((b - 0xE0) * 4096 + (y - 0x80) * 64 + (z - 0x80))"
proof (cases "b = 0xED")
  case True
  with assms have "b - 0xE0 = 13" "y - 0x80 \<le> 31" "z - 0x80 \<le> 63"
    by (simp_all add: hi_byte_def)
  then show ?thesis unfolding valid_rune_def by linarith
next
  case False
  then have "y \<le> 0xBF" using assms by (auto simp: hi_byte_def split: if_splits)
  moreover from False have "b - 0xE0 \<le> 12 \<or> 14 \<le> b - 0xE0" using assms by linarith
  moreover have "b - 0xE0 \<le> 15" "z - 0x80 \<le> 63" using assms by linarith+
  moreover from \<open>y \<le> 0xBF\<close> have "y - 0x80 \<le> 63" by linarith
  ultimately show ?thesis unfolding valid_rune_def by linarith
qed

lemma valid_four:
  assumes "0xF0 \<le> b" and "b \<le> 0xF4" and "lo_byte b \<le> y" and "y \<le> hi_byte b"
    and "z \<le> 0xBF" and "u \<le> 0xBF"
  shows "valid_rune ((b - 0xF0) * 262144 + (y - 0x80) * 4096 + (z - 0x80) * 64 + (u - 0x80))"
proof -
  have zu: "z - 0x80 \<le> 63" "u - 0x80 \<le> 63" using assms by linarith+
  consider "b = 0xF0" "0x90 \<le> y" "y \<le> 0xBF" | "0xF1 \<le> b" "b \<le> 0xF3" "y \<le> 0xBF"
    | "b = 0xF4" "y \<le> 0x8F"
    using assms by (fastforce simp: lo_byte_def hi_byte_def split: if_splits)
  then show ?thesis
    using zu by cases (simp_all add: valid_rune_def, linarith+)
qed

lemmas valid_cont =
  valid_two [of "bv c" "bv d" for c d]
  valid_three [of "bv c" "bv d" "bv e" for c d e]
  valid_four [of "bv c" "bv d" "bv e" "bv f" for c d e f]

lemma cont_byte_le: "cont_byte c \<Longrightarrow> bv c \<le> 0xBF"
  by (simp add: cont_byte_def)

lemma decode_rune_width:
  "decode_rune c cs = (r, w) \<Longrightarrow> 1 \<le> w \<and> w \<le> Suc (length cs)"
  by (auto simp: decode_rune_def Let_def split: if_splits list.splits)

lemma decode_rune_valid:
  assumes "decode_rune c cs = (r, w)"
  shows "valid_rune r"
proof -
  consider "bv c < 0x80" | "bv c < 0xC2 \<or> 0xF4 < bv c" | "0xC2 \<le> bv c" "bv c < 0xE0"
    | "0xE0 \<le> bv c" "bv c < 0xF0" | "0xF0 \<le> bv c" "bv c \<le> 0xF4"
    by linarith
  then show ?thesis
  proof cases
    case 1
    with assms show ?thesis by (auto simp: decode_rune_def valid_rune_def)
  next
    case 2
    with assms show ?thesis
      by (auto simp: decode_rune_def valid_rune_def rune_error_def Let_def split: if_splits)
  next
    case 3
    with assms show ?thesis
      by (auto simp: decode_rune_def Let_def intro!: valid_cont cont_byte_le
          split: list.splits if_splits)
  next
    case 4
    with assms show ?thesis
      by (auto simp: decode_rune_def Let_def intro!: valid_cont cont_byte_le
          split: list.splits if_splits)
  next
    case 5
    with assms show ?thesis
      by (auto simp: decode_rune_def Let_def intro!: valid_cont cont_byte_le
          split: list.splits if_splits)
  qed
qed

lemma runes_valid: "list_all valid_rune (runes s)"
  by (induction s rule: runes.induct)
    (auto simp: Let_def split: prod.splits dest: decode_rune_valid)

lemma valid_utf8_encode: "list_all valid_rune rs \<Longrightarrow> valid_utf8 (encode_runes rs)"
  by (simp add: valid_utf8_def)

section \<open>The shape of encoded runes\<close>

lemma encode_rune_Cons: "\<exists>c cs. encode_rune r = c # cs"
  by (simp add: encode_rune_def)

lemma encode_rune_not_Nil [simp]: "encode_rune r \<noteq> []"
  by (simp add: encode_rune_def)

lemma encode_runes_eq_Nil_iff [simp]: "encode_runes rs = [] \<longleftrightarrow> rs = []"
  by (cases rs) simp_all

lemma length_encode_rune: "1 \<le> length (encode_rune r) \<and> length (encode_rune r) \<le> 4"
  by (simp add: encode_rune_def)

lemma encode_rune_ascii: "r < 0x80 \<Longrightarrow> encode_rune r = [char_of r]"
  by (simp add: encode_rune_def)

text \<open>Every byte of an encoding after the first is a continuation byte, and the first is not.\<close>

lemma cont_byte_char_of: "(n::nat) < 64 \<Longrightarrow> cont_byte (char_of (0x80 + n))"
  by (simp add: cont_byte_def)

lemma encode_rune_tail_cont: "c \<in> set (tl (encode_rune r)) \<Longrightarrow> cont_byte c"
  by (auto simp: encode_rune_def cont_byte_char_of cont_byte_def split: if_splits)

lemma encode_rune_head_not_cont:
  assumes "valid_rune r"
  shows "\<not> cont_byte (hd (encode_rune r))"
proof -
  have r: "r \<le> 0x10FFFF" using assms by (simp add: valid_rune_def)
  consider "r \<le> 0x7F" | "0x80 \<le> r" "r \<le> 0x7FF" | "0x7FF < r" "r \<le> 0xFFFF" | "0xFFFF < r"
    by linarith
  then show ?thesis
  proof cases
    case 1
    then show ?thesis by (simp add: encode_rune_def cont_byte_def)
  next
    case 2
    then have "r div 64 < 32" using split64 [of r] by linarith
    with 2 show ?thesis by (simp add: encode_rune_def cont_byte_def)
  next
    case 3
    then have "r div 4096 < 16" using split4096 [of r] by linarith
    with 3 assms show ?thesis by (simp add: encode_rune_def cont_byte_def)
  next
    case 4
    then have "r div 262144 < 5" using split262144 [of r] r by linarith
    with 4 assms show ?thesis by (simp add: encode_rune_def cont_byte_def)
  qed
qed

lemma encode_rune_ascii_bytes:
  assumes "valid_rune r" and "c \<in> set (encode_rune r)" and "bv c < 0x80"
  shows "r = bv c"
proof (cases "r \<le> 0x7F")
  case True
  with assms(2) show ?thesis by (simp add: encode_rune_def)
next
  case False
  have "\<not> cont_byte c" using assms(3) by (simp add: cont_byte_def)
  with assms(2) have c: "c = hd (encode_rune r)"
    using encode_rune_tail_cont [of c r] by (cases "encode_rune r") auto
  have "0x80 \<le> bv c"
  proof (cases "0xF0 + r div 262144 < 256")
    case True
    have "r div 64 < 32" if "r \<le> 0x7FF" using that split64 [of r] by linarith
    moreover have "r div 4096 < 16" if "r \<le> 0xFFFF" using that split4096 [of r] by linarith
    ultimately show ?thesis using False True by (auto simp: c encode_rune_def)
  next
    case False
    then have "\<not> r \<le> 0x10FFFF" using split262144 [of r] by linarith
    with assms(1) show ?thesis by (simp add: valid_rune_def)
  qed
  with assms(3) show ?thesis by simp
qed

section \<open>The \<open>strings\<close> package, as far as the program uses it\<close>

definition HasPrefix :: "gostring \<Rightarrow> gostring \<Rightarrow> bool" where
  "HasPrefix s p \<longleftrightarrow> take (length p) s = p"

definition TrimPrefix :: "gostring \<Rightarrow> gostring \<Rightarrow> gostring" where
  "TrimPrefix s p = (if HasPrefix s p then drop (length p) s else s)"

text \<open>\<open>strings.IndexByte\<close>: the first index of the byte, -1 when it does not occur.\<close>

fun IndexByte :: "gostring \<Rightarrow> char \<Rightarrow> int" where
  "IndexByte [] c = - 1"
| "IndexByte (x # xs) c =
     (if x = c then 0 else let i = IndexByte xs c in if i < 0 then - 1 else i + 1)"

lemma IndexByte_ge: "- 1 \<le> IndexByte s c"
  by (induction s) (auto simp: Let_def)

lemma IndexByte_cut:
  "(if 0 \<le> IndexByte s c then take (nat (IndexByte s c)) s else s) = takeWhile (\<lambda>x. x \<noteq> c) s"
proof (induction s)
  case Nil
  then show ?case by simp
next
  case (Cons x xs)
  show ?case
  proof (cases "x = c \<or> IndexByte xs c < 0")
    case True
    with Cons show ?thesis by auto
  next
    case False
    then have "nat (IndexByte xs c + 1) = Suc (nat (IndexByte xs c))" by linarith
    with False Cons show ?thesis by (auto simp: Let_def)
  qed
qed

end
