(* ===== verification/Json.thy ===== *)
theory Json
  imports GoStrings
begin

text \<open>
  The part of \<open>encoding/json\<close> the wire protocol uses. \<open>marshal\<close> is \<open>json.Marshal\<close> on the
  values the events are made of: HTML-sensitive characters, control bytes, U+2028 and
  U+2029 are escaped, an invalid UTF-8 byte becomes an escaped U+FFFD. \<open>unmarshal\<close> reads a
  whole line: \<open>lex\<close> splits it into tokens, decoding string literals as \<open>unquote\<close> does, and
  \<open>parse\<close> runs the tokens through a pushdown machine whose stack is the scanner's parse
  state, nesting at most 10000 deep. Numbers are kept as literals: what they mean depends
  on the field they are decoded into.
\<close>

section \<open>Values and their text\<close>

datatype json =
    JNull
  | JBool bool
  | JNum gostring
  | JStr gostring
  | JArr "json list"
  | JObj "(gostring \<times> json) list"

abbreviation BS :: char where "BS \<equiv> CHR 0x5C"
abbreviation DQ :: char where "DQ \<equiv> CHR 0x22"

definition hex_digit :: "nat \<Rightarrow> char" where
  "hex_digit n = (if n < 10 then char_of (48 + n) else char_of (87 + n))"

definition esc_u :: "rune \<Rightarrow> gostring" where
  "esc_u r = [BS, CHR ''u'', hex_digit (r div 4096 mod 16), hex_digit (r div 256 mod 16),
              hex_digit (r div 16 mod 16), hex_digit (r mod 16)]"

definition json_escape :: "rune \<Rightarrow> gostring" where
  "json_escape r =
     (if r = 0x5C \<or> r = 0x22 then [BS, char_of r]
      else if r = 8 then [BS, CHR ''b'']
      else if r = 12 then [BS, CHR ''f'']
      else if r = 10 then [BS, CHR ''n'']
      else if r = 13 then [BS, CHR ''r'']
      else if r = 9 then [BS, CHR ''t'']
      else if r < 0x20 \<or> r = 0x3C \<or> r = 0x3E \<or> r = 0x26 then esc_u r
      else [char_of r])"

function jstr_body :: "gostring \<Rightarrow> gostring" where
  "jstr_body [] = []"
| "jstr_body (c # cs) =
     (let (r, w) = decode_rune c cs in
      (if bv c < 0x80 then json_escape (bv c)
       else if r = rune_error \<and> w = 1 then esc_u rune_error
       else if r = 0x2028 \<or> r = 0x2029 then esc_u r
       else take w (c # cs)) @ jstr_body (drop (w - 1) cs))"
  by pat_completeness auto
termination
  by (relation "measure length") auto

definition jstr :: "gostring \<Rightarrow> gostring" where
  "jstr s = DQ # jstr_body s @ [DQ]"

fun join_with :: "'a \<Rightarrow> 'a list list \<Rightarrow> 'a list" where
  "join_with sep [] = []"
| "join_with sep [x] = x"
| "join_with sep (x # y # xs) = x @ sep # join_with sep (y # xs)"

fun marshal :: "json \<Rightarrow> gostring" where
  "marshal JNull = ''null''"
| "marshal (JBool b) = (if b then ''true'' else ''false'')"
| "marshal (JNum lit) = lit"
| "marshal (JStr s) = jstr s"
| "marshal (JArr vs) = CHR ''['' # join_with (CHR '','') (map marshal vs) @ '']''"
| "marshal (JObj kvs) =
     CHR ''{'' # join_with (CHR '','') (map (\<lambda>(k, v). jstr k @ CHR '':'' # marshal v) kvs) @ ''}''"

text \<open>\<open>strconv\<close>: decimal text of integers, and \<open>ParseInt\<close> for 64 bits.\<close>

definition digit :: "nat \<Rightarrow> char" where
  "digit n = char_of (48 + n)"

fun utoa :: "nat \<Rightarrow> gostring" where
  "utoa n = (if n < 10 then [digit n] else utoa (n div 10) @ [digit (n mod 10)])"

declare utoa.simps [simp del]

definition itoa :: "int \<Rightarrow> gostring" where
  "itoa i = (if i < 0 then CHR ''-'' # utoa (nat (- i)) else utoa (nat i))"

definition is_digit :: "char \<Rightarrow> bool" where
  "is_digit c \<longleftrightarrow> 48 \<le> bv c \<and> bv c \<le> 57"

definition digits_value :: "gostring \<Rightarrow> nat" where
  "digits_value ds = foldl (\<lambda>n c. 10 * n + (bv c - 48)) 0 ds"

definition ParseInt64 :: "gostring \<Rightarrow> int option" where
  "ParseInt64 lit =
     (let (neg, ds) = (case lit of c # cs \<Rightarrow> if c = CHR ''-'' then (True, cs) else (False, lit)
                       | [] \<Rightarrow> (False, []));
          n = int (digits_value ds);
          i = (if neg then - n else n)
      in if ds = [] \<or> \<not> list_all is_digit ds \<or> i < - (2 ^ 63) \<or> 2 ^ 63 \<le> i then None else Some i)"

section \<open>Tokens\<close>

datatype token =
    TObjBegin | TObjEnd | TArrBegin | TArrEnd | TColon | TComma
  | TNull | TBool bool | TNum gostring | TStr gostring

definition hex_value :: "char \<Rightarrow> nat option" where
  "hex_value c =
     (let b = bv c in
      if 48 \<le> b \<and> b \<le> 57 then Some (b - 48)
      else if 97 \<le> b \<and> b \<le> 102 then Some (b - 87)
      else if 65 \<le> b \<and> b \<le> 70 then Some (b - 55) else None)"

fun hex4 :: "gostring \<Rightarrow> (rune \<times> gostring) option" where
  "hex4 (a # b # c # d # rest) =
     (case (hex_value a, hex_value b, hex_value c, hex_value d) of
        (Some a, Some b, Some c, Some d) \<Rightarrow> Some (a * 4096 + b * 256 + c * 16 + d, rest)
      | _ \<Rightarrow> None)"
| "hex4 _ = None"

definition surrogate :: "rune \<Rightarrow> bool" where
  "surrogate r \<longleftrightarrow> 0xD800 \<le> r \<and> r < 0xE000"

text \<open>\<open>utf16.DecodeRune\<close>.\<close>

definition decode_pair :: "rune \<Rightarrow> rune \<Rightarrow> rune" where
  "decode_pair a b =
     (if 0xD800 \<le> a \<and> a < 0xDC00 \<and> 0xDC00 \<le> b \<and> b < 0xE000
      then (a - 0xD800) * 1024 + (b - 0xDC00) + 0x10000 else rune_error)"

definition second_half :: "gostring \<Rightarrow> (rune \<times> gostring) option" where
  "second_half s = (case s of b # u # rest \<Rightarrow> if b = BS \<and> u = CHR ''u'' then hex4 rest else None
                    | _ \<Rightarrow> None)"

text \<open>An escape, after its backslash.\<close>

definition unescape :: "gostring \<Rightarrow> (rune \<times> gostring) option" where
  "unescape s =
     (case s of
        [] \<Rightarrow> None
      | e # rest \<Rightarrow>
          if e = BS \<or> e = CHR ''/'' \<or> e = DQ then Some (bv e, rest)
          else if e = CHR ''b'' then Some (8, rest)
          else if e = CHR ''f'' then Some (12, rest)
          else if e = CHR ''n'' then Some (10, rest)
          else if e = CHR ''r'' then Some (13, rest)
          else if e = CHR ''t'' then Some (9, rest)
          else if e = CHR ''u'' then
            (case hex4 rest of
               None \<Rightarrow> None
             | Some (r, rest) \<Rightarrow>
                 if \<not> surrogate r then Some (r, rest)
                 else (case second_half rest of
                         None \<Rightarrow> Some (rune_error, rest)
                       | Some (r2, rest2) \<Rightarrow>
                           if decode_pair r r2 \<noteq> rune_error then Some (decode_pair r r2, rest2)
                           else Some (rune_error, rest)))
          else None)"

lemma hex4_length: "hex4 s = Some (r, rest) \<Longrightarrow> length rest < length s"
  by (induction s rule: hex4.induct) (auto split: option.splits)

lemma second_half_length: "second_half s = Some (r, rest) \<Longrightarrow> length rest < length s"
  by (auto simp: second_half_def split: list.splits if_splits dest: hex4_length)

lemma unescape_length: "unescape s = Some (r, rest) \<Longrightarrow> length rest < length s"
  by (fastforce simp: unescape_def split: list.splits if_splits option.splits
      dest: hex4_length second_half_length)

definition push_text :: "gostring \<Rightarrow> (gostring \<times> gostring) option \<Rightarrow> (gostring \<times> gostring) option" where
  "push_text t x = (case x of None \<Rightarrow> None | Some (s, rest) \<Rightarrow> Some (t @ s, rest))"

text \<open>A string literal, after its opening quote: its value and what follows the closing one.\<close>

function lex_str :: "gostring \<Rightarrow> (gostring \<times> gostring) option" where
  "lex_str [] = None"
| "lex_str (c # cs) =
     (if c = DQ then Some ([], cs)
      else if c = BS then
        (case unescape cs of
           None \<Rightarrow> None
         | Some (r, rest) \<Rightarrow> push_text (encode_rune r) (lex_str rest))
      else if bv c < 0x20 then None
      else (let (r, w) = decode_rune c cs in
            push_text (encode_rune r) (lex_str (drop (w - 1) cs))))"
  by pat_completeness auto
termination
  by (relation "measure length") (auto dest: unescape_length)

text \<open>A number literal: sign, integer part without leading zeros, fraction, exponent.\<close>

definition lex_digits :: "gostring \<Rightarrow> (gostring \<times> gostring) option" where
  "lex_digits s = (let ds = takeWhile is_digit s in
     if ds = [] then None else Some (ds, dropWhile is_digit s))"

definition lex_intpart :: "gostring \<Rightarrow> (gostring \<times> gostring) option" where
  "lex_intpart s =
     (case s of c # cs \<Rightarrow> if c = CHR ''0'' then Some (''0'', cs) else lex_digits s | [] \<Rightarrow> None)"

definition lex_frac :: "gostring \<Rightarrow> (gostring \<times> gostring) option" where
  "lex_frac s =
     (case s of c # cs \<Rightarrow> if c = CHR ''.'' then push_text ''.'' (lex_digits cs) else Some ([], s)
      | [] \<Rightarrow> Some ([], []))"

definition lex_exp :: "gostring \<Rightarrow> (gostring \<times> gostring) option" where
  "lex_exp s =
     (case s of
        c # cs \<Rightarrow>
          if c = CHR ''e'' \<or> c = CHR ''E'' then
            (case cs of
               d # ds \<Rightarrow> if d = CHR ''+'' \<or> d = CHR ''-'' then push_text [c, d] (lex_digits ds)
                          else push_text [c] (lex_digits cs)
             | [] \<Rightarrow> None)
          else Some ([], s)
      | [] \<Rightarrow> Some ([], []))"

definition and_then ::
  "(gostring \<times> gostring) option \<Rightarrow> (gostring \<Rightarrow> (gostring \<times> gostring) option)
     \<Rightarrow> (gostring \<times> gostring) option" where
  "and_then x f = (case x of None \<Rightarrow> None | Some (s, rest) \<Rightarrow> push_text s (f rest))"

definition lex_num :: "gostring \<Rightarrow> (gostring \<times> gostring) option" where
  "lex_num s =
     and_then (and_then (and_then
       (case s of c # cs \<Rightarrow> if c = CHR ''-'' then Some (''-'', cs) else Some ([], s)
        | [] \<Rightarrow> None) lex_intpart) lex_frac) lex_exp"

definition is_space :: "char \<Rightarrow> bool" where
  "is_space c \<longleftrightarrow> bv c = 32 \<or> bv c = 9 \<or> bv c = 10 \<or> bv c = 13"

definition punctuation :: "char \<Rightarrow> token option" where
  "punctuation c =
     (if c = CHR ''{'' then Some TObjBegin else if c = CHR ''}'' then Some TObjEnd
      else if c = CHR ''['' then Some TArrBegin else if c = CHR '']'' then Some TArrEnd
      else if c = CHR '':'' then Some TColon else if c = CHR '','' then Some TComma else None)"

definition literal :: "gostring \<Rightarrow> (token \<times> gostring) option" where
  "literal s =
     (if HasPrefix s ''null'' then Some (TNull, drop 4 s)
      else if HasPrefix s ''true'' then Some (TBool True, drop 4 s)
      else if HasPrefix s ''false'' then Some (TBool False, drop 5 s)
      else None)"

definition token_of :: "(gostring \<Rightarrow> token) \<Rightarrow> (gostring \<times> gostring) option \<Rightarrow> (token \<times> gostring) option" where
  "token_of f x = (case x of None \<Rightarrow> None | Some (s, rest) \<Rightarrow> Some (f s, rest))"

text \<open>The token at the start of \<open>c # cs\<close>, which is not white space, and what follows it.\<close>

definition next_token :: "char \<Rightarrow> gostring \<Rightarrow> (token \<times> gostring) option" where
  "next_token c cs =
     (case punctuation c of
        Some t \<Rightarrow> Some (t, cs)
      | None \<Rightarrow>
          if c = DQ then token_of TStr (lex_str cs)
          else if c = CHR ''-'' \<or> is_digit c then token_of TNum (lex_num (c # cs))
          else literal (c # cs))"

lemma push_text_length:
  "push_text t x = Some (s, rest) \<Longrightarrow> \<exists>s'. x = Some (s', rest)"
  by (auto simp: push_text_def split: option.splits prod.splits)

lemma push_text_Some [simp]: "push_text t (Some (s, rest)) = Some (t @ s, rest)"
  by (simp add: push_text_def)

lemma lex_str_length: "lex_str s = Some (v, rest) \<Longrightarrow> length rest < length s"
proof (induction s arbitrary: v rule: lex_str.induct)
  case 1
  then show ?case by simp
next
  case (2 c cs)
  show ?case
  proof (cases "c = DQ")
    case True
    with 2(3) show ?thesis by simp
  next
    case dq: False
    show ?thesis
    proof (cases "c = BS")
      case True
      with 2(3) dq obtain r rest1 where u: "unescape cs = Some (r, rest1)"
        and p: "push_text (encode_rune r) (lex_str rest1) = Some (v, rest)"
        by (auto split: option.splits prod.splits)
      from push_text_length [OF p] obtain v' where "lex_str rest1 = Some (v', rest)" by blast
      with 2(1) [OF dq True u refl] unescape_length [OF u] show ?thesis by fastforce
    next
      case False
      obtain r w where d: "decode_rune c cs = (r, w)" by fastforce
      with 2(3) dq False have b: "\<not> bv c < 0x20"
        and p: "push_text (encode_rune r) (lex_str (drop (w - 1) cs)) = Some (v, rest)"
        by (auto split: if_splits)
      from push_text_length [OF p] obtain v' where "lex_str (drop (w - 1) cs) = Some (v', rest)" by blast
      with 2(2) [OF dq False b] d show ?thesis by fastforce
    qed
  qed
qed

lemma lex_digits_le: "lex_digits s = Some (v, rest) \<Longrightarrow> length rest < length s"
proof -
  assume a: "lex_digits s = Some (v, rest)"
  have "length s = length (takeWhile is_digit s) + length (dropWhile is_digit s)"
    by (metis length_append takeWhile_dropWhile_id)
  moreover have "takeWhile is_digit s \<noteq> [] \<and> rest = dropWhile is_digit s"
    using a by (auto simp: lex_digits_def Let_def split: if_splits)
  ultimately show ?thesis by (cases "takeWhile is_digit s") auto
qed

lemma lex_intpart_less: "lex_intpart s = Some (v, rest) \<Longrightarrow> length rest < length s"
  by (auto simp: lex_intpart_def split: list.splits if_splits dest: lex_digits_le)

lemma lex_frac_le: "lex_frac s = Some (v, rest) \<Longrightarrow> length rest \<le> length s"
  by (fastforce simp: lex_frac_def split: list.splits if_splits dest: push_text_length lex_digits_le)

lemma lex_exp_le: "lex_exp s = Some (v, rest) \<Longrightarrow> length rest \<le> length s"
  by (fastforce simp: lex_exp_def split: list.splits if_splits dest: push_text_length lex_digits_le)

lemma and_then_SomeD:
  "and_then x f = Some (v, rest) \<Longrightarrow> \<exists>s r v'. x = Some (s, r) \<and> f r = Some (v', rest)"
  by (auto simp: and_then_def split: option.splits dest: push_text_length)

lemma lex_num_length: "lex_num s = Some (v, rest) \<Longrightarrow> length rest < length s"
  unfolding lex_num_def
  by (fastforce dest!: and_then_SomeD dest: lex_intpart_less lex_frac_le lex_exp_le
      split: list.splits if_splits)

lemma literal_length: "literal s = Some (t, rest) \<Longrightarrow> s \<noteq> [] \<Longrightarrow> length rest < length s"
  by (auto simp: literal_def split: if_splits)

lemma next_token_length: "next_token c cs = Some (t, rest) \<Longrightarrow> length rest \<le> length cs"
  by (fastforce simp: next_token_def token_of_def split: option.splits if_splits prod.splits
      dest: lex_str_length lex_num_length literal_length)

function lex :: "gostring \<Rightarrow> token list option" where
  "lex [] = Some []"
| "lex (c # cs) =
     (if is_space c then lex cs
      else case next_token c cs of
             None \<Rightarrow> None
           | Some (t, rest) \<Rightarrow> map_option (\<lambda>ts. t # ts) (lex rest))"
  by pat_completeness auto
termination
  by (relation "measure length") (auto dest: next_token_length)

section \<open>The pushdown machine\<close>

text \<open>An enclosing array with the elements so far, or an enclosing object with the members
  so far and the key whose value is being read.\<close>

datatype frame =
    FArr "json list"
  | FObj "(gostring \<times> json) list" gostring

datatype pstate =
    PValue "frame list"
  | PFirstElem "frame list"
  | PFirstKey "frame list"
  | PKey "(gostring \<times> json) list" "frame list"
  | PColon "(gostring \<times> json) list" gostring "frame list"
  | PDone json "frame list"

definition maxNestingDepth :: nat where
  "maxNestingDepth = 10000"

fun value_step :: "frame list \<Rightarrow> token \<Rightarrow> pstate option" where
  "value_step st TNull = Some (PDone JNull st)"
| "value_step st (TBool b) = Some (PDone (JBool b) st)"
| "value_step st (TNum lit) = Some (PDone (JNum lit) st)"
| "value_step st (TStr s) = Some (PDone (JStr s) st)"
| "value_step st TArrBegin = (if length st < maxNestingDepth then Some (PFirstElem st) else None)"
| "value_step st TObjBegin = (if length st < maxNestingDepth then Some (PFirstKey st) else None)"
| "value_step st _ = None"

fun parse_step :: "pstate \<Rightarrow> token \<Rightarrow> pstate option" where
  "parse_step (PValue st) t = value_step st t"
| "parse_step (PFirstElem st) t =
     (if t = TArrEnd then Some (PDone (JArr []) st) else value_step (FArr [] # st) t)"
| "parse_step (PFirstKey st) t =
     (case t of TObjEnd \<Rightarrow> Some (PDone (JObj []) st) | TStr k \<Rightarrow> Some (PColon [] k st) | _ \<Rightarrow> None)"
| "parse_step (PKey kvs st) t = (case t of TStr k \<Rightarrow> Some (PColon kvs k st) | _ \<Rightarrow> None)"
| "parse_step (PColon kvs k st) t = (if t = TColon then Some (PValue (FObj kvs k # st)) else None)"
| "parse_step (PDone v []) t = None"
| "parse_step (PDone v (FArr vs # st)) t =
     (if t = TComma then Some (PValue (FArr (vs @ [v]) # st))
      else if t = TArrEnd then Some (PDone (JArr (vs @ [v])) st) else None)"
| "parse_step (PDone v (FObj kvs k # st)) t =
     (if t = TComma then Some (PKey (kvs @ [(k, v)]) st)
      else if t = TObjEnd then Some (PDone (JObj (kvs @ [(k, v)])) st) else None)"

fun parse_run :: "pstate \<Rightarrow> token list \<Rightarrow> pstate option" where
  "parse_run p [] = Some p"
| "parse_run p (t # ts) = (case parse_step p t of None \<Rightarrow> None | Some p \<Rightarrow> parse_run p ts)"

definition parse :: "token list \<Rightarrow> json option" where
  "parse ts = (case parse_run (PValue []) ts of Some (PDone v []) \<Rightarrow> Some v | _ \<Rightarrow> None)"

definition unmarshal :: "gostring \<Rightarrow> json option" where
  "unmarshal s = (case lex s of None \<Rightarrow> None | Some ts \<Rightarrow> parse ts)"

end
