(* ===== verification/JsonRoundTrip.thy ===== *)
theory JsonRoundTrip
  imports Json
begin

text \<open>
  Reading back what was written: \<open>unmarshal\<close> of \<open>marshal j\<close> is \<open>j\<close>, with invalid UTF-8
  bytes replaced by U+FFFD, for any value whose numbers are integers and whose nesting the
  scanner accepts. Also what the text of a value looks like: no control byte (so no
  newline inside a line of the protocol), and a string of \<open>n\<close> bytes takes between \<open>n + 2\<close>
  and \<open>6 n + 2\<close>.
\<close>

section \<open>Strings\<close>

text \<open>What survives of a string on the wire.\<close>

definition repair :: "gostring \<Rightarrow> gostring" where
  "repair s = encode_runes (runes s)"

lemma repair_valid [simp]: "valid_utf8 s \<Longrightarrow> repair s = s"
  by (simp add: repair_def valid_utf8_def)

lemma hex_value_digit: "n < 16 \<Longrightarrow> hex_value (hex_digit n) = Some n"
  by (simp add: hex_value_def hex_digit_def Let_def)

lemma four_digits:
  assumes "(r::nat) < 65536"
  shows "r div 4096 mod 16 * 4096 + r div 256 mod 16 * 256 + r div 16 mod 16 * 16 + r mod 16 = r"
proof -
  have "r div 256 = (r div 256 div 16) * 16 + r div 256 mod 16"
    "r div 16 = (r div 16 div 16) * 16 + r div 16 mod 16"
    "r = (r div 16) * 16 + r mod 16"
    by (simp_all only: div_mult_mod_eq)
  moreover have "r div 256 div 16 = r div 4096" "r div 16 div 16 = r div 256"
    by (simp_all flip: div_mult2_eq)
  moreover have "r div 4096 mod 16 = r div 4096" using assms by simp
  ultimately show ?thesis by linarith
qed

lemma hex4_esc: "r < 65536 \<Longrightarrow>
    hex4 (hex_digit (r div 4096 mod 16) # hex_digit (r div 256 mod 16) # hex_digit (r div 16 mod 16)
      # hex_digit (r mod 16) # rest) = Some (r, rest)"
  using four_digits [of r] by (simp add: hex_value_digit)

lemma unescape_esc_u:
  "r < 65536 \<Longrightarrow> \<not> surrogate r \<Longrightarrow> unescape (tl (esc_u r) @ rest) = Some (r, rest)"
  using hex4_esc [of r rest] by (simp add: esc_u_def unescape_def del: hex4.simps)

lemma lex_str_esc_u:
  "r < 65536 \<Longrightarrow> \<not> surrogate r \<Longrightarrow>
     lex_str (esc_u r @ rest) = push_text (encode_rune r) (lex_str rest)"
  using unescape_esc_u [of r rest] by (simp add: esc_u_def)

lemma char_of_chars: "char_of (92::nat) = BS" "char_of (34::nat) = DQ" "char_of (48::nat) = CHR ''0''"
proof -
  have "char_of (bv BS) = BS" "char_of (bv DQ) = DQ" "char_of (bv (CHR ''0'')) = CHR ''0''"
    by (rule char_of_char)+
  then show "char_of (92::nat) = BS" "char_of (34::nat) = DQ" "char_of (48::nat) = CHR ''0''" by simp_all
qed

lemma lex_str_escape:
  assumes "r < 0x80"
  shows "lex_str (json_escape r @ rest) = push_text (encode_rune r) (lex_str rest)"
proof -
  consider "r = 0x5C" | "r = 0x22" | "r = 8" | "r = 12" | "r = 10" | "r = 13" | "r = 9"
    | "r \<notin> {0x5C, 0x22, 8, 12, 10, 13, 9}" "r < 0x20 \<or> r = 0x3C \<or> r = 0x3E \<or> r = 0x26"
    | "r \<notin> {0x5C, 0x22}" "0x20 \<le> r" "r \<noteq> 0x3C" "r \<noteq> 0x3E" "r \<noteq> 0x26"
    by force
  then show ?thesis
  proof cases
    case 8
    then show ?thesis using lex_str_esc_u [of r rest] assms
      by (auto simp: json_escape_def surrogate_def)
  next
    case 9
    have "bv (char_of r) \<noteq> bv DQ" "bv (char_of r) \<noteq> bv BS" using 9 assms by simp_all
    then have "char_of r \<noteq> DQ" "char_of r \<noteq> BS" by metis+
    with 9 assms show ?thesis
      by (simp add: json_escape_def decode_ascii)
  qed (simp_all add: json_escape_def unescape_def encode_rune_def char_of_chars)
qed

lemma decode_rune_append:
  assumes "decode_rune c cs = (r, w)" and "\<not> (r = rune_error \<and> w = 1)"
  shows "decode_rune c (cs @ rest) = (r, w)"
  using assms by (auto simp: decode_rune_def Let_def split: if_splits list.splits)

lemma decode_rune_take:
  assumes "decode_rune c cs = (r, w)" and "\<not> (r = rune_error \<and> w = 1)"
  shows "decode_rune c (take (w - 1) cs @ rest) = (r, w)"
  using assms by (auto simp: decode_rune_def Let_def split: if_splits list.splits)

lemma not_special: "\<not> bv c < 0x80 \<Longrightarrow> c \<noteq> DQ \<and> c \<noteq> BS \<and> \<not> bv c < 0x20"
  by auto

lemma lex_str_body: "lex_str (jstr_body s @ DQ # rest) = Some (repair s, rest)"
proof (induction s rule: jstr_body.induct)
  case 1
  then show ?case by (simp add: repair_def)
next
  case (2 c cs)
  obtain r w where d: "decode_rune c cs = (r, w)" by fastforce
  then have IH: "lex_str (jstr_body (drop (w - 1) cs) @ DQ # rest) = Some (repair (drop (w - 1) cs), rest)"
    using 2 by simp
  have rep: "repair (c # cs) = encode_rune r @ repair (drop (w - 1) cs)"
    by (simp add: repair_def d)
  consider "bv c < 0x80" | "\<not> bv c < 0x80" "r = rune_error" "w = 1"
    | "\<not> bv c < 0x80" "\<not> (r = rune_error \<and> w = 1)" "r = 0x2028 \<or> r = 0x2029"
    | "\<not> bv c < 0x80" "\<not> (r = rune_error \<and> w = 1)" "r \<noteq> 0x2028" "r \<noteq> 0x2029" by blast
  then show ?case
  proof cases
    case 1
    then have "r = bv c" "w = 1" using d by (simp_all add: decode_rune_def)
    with 1 d IH rep show ?thesis
      using lex_str_escape [of "bv c" "jstr_body cs @ DQ # rest"] by simp
  next
    case 2
    with d IH rep show ?thesis
      using lex_str_esc_u [of rune_error "jstr_body cs @ DQ # rest"]
      by (simp add: surrogate_def rune_error_def)
  next
    case 3
    then have "r < 65536" "\<not> surrogate r" "r \<noteq> rune_error" by (auto simp: surrogate_def rune_error_def)
    with 3 d IH rep show ?thesis
      using lex_str_esc_u [of r "jstr_body (drop (w - 1) cs) @ DQ # rest"] by simp
  next
    case 4
    have w: "1 \<le> w" "w - 1 \<le> length cs" using decode_rune_width [OF d] by auto
    then have "take w (c # cs) = c # take (w - 1) cs" by (cases w) simp_all
    moreover have "decode_rune c (take (w - 1) cs @ jstr_body (drop (w - 1) cs) @ DQ # rest) = (r, w)"
      by (rule decode_rune_take [OF d 4(2)])
    ultimately show ?thesis using 4 d IH rep w not_special [OF 4(1)] by auto
  qed
qed

lemma lex_jstr: "next_token DQ (jstr_body s @ DQ # rest) = Some (TStr (repair s), rest)"
  by (simp add: next_token_def punctuation_def lex_str_body token_of_def)

section \<open>Integers\<close>

lemma is_digit_digit: "n < 10 \<Longrightarrow> is_digit (digit n)"
  by (simp add: is_digit_def digit_def)

lemma utoa_digits: "list_all is_digit (utoa n) \<and> utoa n \<noteq> []"
proof (induction n rule: utoa.induct)
  case (1 n)
  then show ?case by (subst utoa.simps) (simp add: is_digit_digit utoa.simps [of n])
qed

lemma digits_value_snoc: "digits_value (ds @ [c]) = 10 * digits_value ds + (bv c - 48)"
  by (simp add: digits_value_def)

lemma digits_value_utoa: "digits_value (utoa n) = n"
proof (induction n rule: utoa.induct)
  case (1 n)
  show ?case
  proof (cases "n < 10")
    case True
    then show ?thesis by (subst utoa.simps) (simp add: digits_value_def digit_def)
  next
    case False
    then have "digits_value (utoa n) = 10 * (n div 10) + n mod 10"
      using 1 by (subst utoa.simps) (simp add: digits_value_snoc digit_def)
    then show ?thesis by simp
  qed
qed

lemma utoa_head: "0 < n \<Longrightarrow> hd (utoa n) \<noteq> CHR ''0''"
proof (induction n rule: utoa.induct)
  case (1 n)
  show ?case
  proof (cases "n < 10")
    case True
    then have "bv (digit n) \<noteq> bv (CHR ''0'')" using 1(2) by (simp add: digit_def)
    with True show ?thesis by (subst utoa.simps) auto
  next
    case False
    with 1 have "hd (utoa (n div 10)) \<noteq> CHR ''0''" by simp
    with False utoa_digits [of "n div 10"] show ?thesis by (subst utoa.simps) simp
  qed
qed

lemma utoa_zero: "utoa 0 = ''0''"
  by (subst utoa.simps) (simp add: digit_def char_of_chars)

text \<open>What may follow a number: nothing that could be part of it.\<close>

definition stops_number :: "gostring \<Rightarrow> bool" where
  "stops_number s \<longleftrightarrow>
     (case s of [] \<Rightarrow> True | c # _ \<Rightarrow> \<not> is_digit c \<and> c \<notin> set ''.eE'')"

lemma lex_intpart_utoa:
  assumes "stops_number rest"
  shows "lex_intpart (utoa n @ rest) = Some (utoa n, rest)"
proof (cases "n = 0")
  case True
  then show ?thesis by (simp add: utoa_zero lex_intpart_def)
next
  case False
  obtain c cs where u: "utoa n = c # cs" using utoa_digits [of n] by (cases "utoa n") auto
  have "c \<noteq> CHR ''0''" using utoa_head [of n] False u by simp
  moreover have "\<forall>x\<in>set (utoa n). is_digit x" using utoa_digits [of n] by (simp add: list_all_iff)
  then have "takeWhile is_digit (utoa n @ rest) = utoa n" "dropWhile is_digit (utoa n @ rest) = rest"
    using assms by (auto simp: stops_number_def takeWhile_append dropWhile_append split: list.splits)
  ultimately show ?thesis using u by (simp add: lex_intpart_def lex_digits_def)
qed

lemma lex_frac_stop: "stops_number rest \<Longrightarrow> lex_frac rest = Some ([], rest)"
  by (auto simp: lex_frac_def stops_number_def split: list.splits)

lemma lex_exp_stop: "stops_number rest \<Longrightarrow> lex_exp rest = Some ([], rest)"
  by (auto simp: lex_exp_def stops_number_def split: list.splits)

lemma digit_not_minus: "is_digit c \<Longrightarrow> c \<noteq> CHR ''-''"
  by (auto simp: is_digit_def)

lemma lex_num_itoa:
  assumes "stops_number rest"
  shows "lex_num (itoa i @ rest) = Some (itoa i, rest)"
proof -
  note parts = lex_intpart_utoa [OF assms] lex_frac_stop [OF assms] lex_exp_stop [OF assms]
  show ?thesis
  proof (cases "i < 0")
    case True
    then show ?thesis by (simp add: itoa_def lex_num_def and_then_def parts)
  next
    case False
    obtain c cs where u: "utoa (nat i) = c # cs" "c \<noteq> CHR ''-''"
      using utoa_digits [of "nat i"] digit_not_minus by (cases "utoa (nat i)") auto
    then have "(case utoa (nat i) @ rest of c # cs \<Rightarrow> if c = CHR ''-'' then Some (''-'', cs)
          else Some ([], utoa (nat i) @ rest) | [] \<Rightarrow> None) = Some ([], utoa (nat i) @ rest)" by simp
    with False parts show ?thesis by (simp add: itoa_def lex_num_def and_then_def)
  qed
qed

lemma ParseInt64_itoa:
  assumes "- (2 ^ 63) \<le> i" and "i < 2 ^ 63"
  shows "ParseInt64 (itoa i) = Some i"
proof (cases "i < 0")
  case True
  with assms utoa_digits [of "nat (- i)"] show ?thesis
    by (simp add: ParseInt64_def itoa_def digits_value_utoa)
next
  case False
  obtain c cs where u: "utoa (nat i) = c # cs" "c \<noteq> CHR ''-''"
    using utoa_digits [of "nat i"] digit_not_minus by (cases "utoa (nat i)") auto
  moreover have "digits_value (c # cs) = nat i" "list_all is_digit (c # cs)"
    using digits_value_utoa [of "nat i"] utoa_digits [of "nat i"] u by simp_all
  ultimately show ?thesis using False assms by (simp add: ParseInt64_def itoa_def)
qed

section \<open>Values\<close>

fun jrepair :: "json \<Rightarrow> json" where
  "jrepair (JStr s) = JStr (repair s)"
| "jrepair (JArr vs) = JArr (map jrepair vs)"
| "jrepair (JObj kvs) = JObj (map (\<lambda>(k, v). (repair k, jrepair v)) kvs)"
| "jrepair j = j"

text \<open>Numbers are integers in decimal, as \<open>Marshal\<close> writes the integer fields.\<close>

fun int_numbers :: "json \<Rightarrow> bool" where
  "int_numbers (JNum lit) \<longleftrightarrow> (\<exists>i. lit = itoa i)"
| "int_numbers (JArr vs) \<longleftrightarrow> list_all int_numbers vs"
| "int_numbers (JObj kvs) \<longleftrightarrow> list_all (\<lambda>(k, v). int_numbers v) kvs"
| "int_numbers _ \<longleftrightarrow> True"

fun tokens :: "json \<Rightarrow> token list" where
  "tokens JNull = [TNull]"
| "tokens (JBool b) = [TBool b]"
| "tokens (JNum lit) = [TNum lit]"
| "tokens (JStr s) = [TStr s]"
| "tokens (JArr vs) = TArrBegin # join_with TComma (map tokens vs) @ [TArrEnd]"
| "tokens (JObj kvs) =
     TObjBegin # join_with TComma (map (\<lambda>(k, v). TStr k # TColon # tokens v) kvs) @ [TObjEnd]"

lemma lex_token:
  "\<not> is_space c \<Longrightarrow> next_token c cs = Some (t, rest) \<Longrightarrow> lex (c # cs) = map_option (\<lambda>ts. t # ts) (lex rest)"
  by simp

lemma map_option_twice: "map_option f (map_option g x) = map_option (\<lambda>y. f (g y)) x"
  by (cases x) simp_all

lemma lex_punctuation:
  "lex (CHR ''{'' # s) = map_option (\<lambda>ts. TObjBegin # ts) (lex s)"
  "lex (CHR ''}'' # s) = map_option (\<lambda>ts. TObjEnd # ts) (lex s)"
  "lex (CHR ''['' # s) = map_option (\<lambda>ts. TArrBegin # ts) (lex s)"
  "lex (CHR '']'' # s) = map_option (\<lambda>ts. TArrEnd # ts) (lex s)"
  "lex (CHR '':'' # s) = map_option (\<lambda>ts. TColon # ts) (lex s)"
  "lex (CHR '','' # s) = map_option (\<lambda>ts. TComma # ts) (lex s)"
  by (simp_all add: next_token_def punctuation_def is_space_def)

lemma lex_string: "lex (jstr s @ rest) = map_option (\<lambda>ts. TStr (repair s) # ts) (lex rest)"
  by (simp add: jstr_def lex_jstr is_space_def del: lex.simps add: lex_token)

lemma itoa_head: "\<exists>c cs. itoa i = c # cs \<and> (c = CHR ''-'' \<or> is_digit c)"
  using utoa_digits [of "nat i"] by (cases "utoa (nat i)") (auto simp: itoa_def)

lemma lex_integer:
  assumes "stops_number rest"
  shows "lex (itoa i @ rest) = map_option (\<lambda>ts. TNum (itoa i) # ts) (lex rest)"
proof -
  obtain c cs where c: "itoa i = c # cs" "c = CHR ''-'' \<or> is_digit c" using itoa_head by blast
  have "punctuation c = None" "c \<noteq> DQ" "\<not> is_space c"
    using c(2) by (auto simp: punctuation_def is_digit_def is_space_def)
  then have "next_token c (cs @ rest) = Some (TNum (itoa i), rest)"
    using c lex_num_itoa [OF assms, of i] by (simp add: next_token_def token_of_def)
  with \<open>\<not> is_space c\<close> c(1) show ?thesis by simp
qed

lemma lex_words:
  "lex (''null'' @ rest) = map_option (\<lambda>ts. TNull # ts) (lex rest)"
  "lex (''true'' @ rest) = map_option (\<lambda>ts. TBool True # ts) (lex rest)"
  "lex (''false'' @ rest) = map_option (\<lambda>ts. TBool False # ts) (lex rest)"
  by (simp_all add: next_token_def punctuation_def is_space_def is_digit_def literal_def HasPrefix_def)

lemma stops_number_cons: "c \<in> set '',]}'' \<Longrightarrow> stops_number (c # s)"
  by (auto simp: stops_number_def is_digit_def)

text \<open>Comma-separated parts, each of which lexes to its tokens when a comma or the closing
  bracket follows.\<close>

lemma lex_join:
  assumes "\<And>x rest. x \<in> set xs \<Longrightarrow> stops_number rest \<Longrightarrow>
      lex (f x @ rest) = map_option (\<lambda>ts. g x @ ts) (lex rest)"
    and "stops_number rest"
  shows "lex (join_with (CHR '','') (map f xs) @ rest) =
    map_option (\<lambda>ts. join_with TComma (map g xs) @ ts) (lex rest)"
  using assms
proof (induction xs rule: induct_list012)
  case 1
  then show ?case by (simp add: option.map_id0 [unfolded id_def, symmetric] option.map_ident)
next
  case (2 x)
  then show ?case by simp
next
  case (3 x y zs)
  have "lex (join_with (CHR '','') (map f (y # zs)) @ rest) =
      map_option (\<lambda>ts. join_with TComma (map g (y # zs)) @ ts) (lex rest)"
    by (rule 3(2)) (use 3 in auto)
  moreover have "lex (f x @ CHR '','' # s) = map_option (\<lambda>ts. g x @ ts) (lex (CHR '','' # s))" for s
    by (rule 3(3)) (simp_all add: stops_number_cons)
  ultimately show ?case
    by (simp del: lex.simps add: lex_punctuation map_option_twice)
qed

lemma lex_marshal:
  "int_numbers j \<Longrightarrow> stops_number rest \<Longrightarrow>
     lex (marshal j @ rest) = map_option (\<lambda>ts. tokens (jrepair j) @ ts) (lex rest)"
proof (induction j arbitrary: rest)
  case JNull
  then show ?case using lex_words by (simp del: lex.simps)
next
  case (JBool b)
  then show ?case using lex_words by (cases b) (simp_all del: lex.simps)
next
  case (JNum lit)
  then show ?case by (auto simp: lex_integer simp del: lex.simps)
next
  case (JStr s)
  then show ?case by (simp add: lex_string del: lex.simps)
next
  case (JArr vs)
  have "lex (join_with (CHR '','') (map marshal vs) @ CHR '']'' # rest) =
      map_option (\<lambda>ts. join_with TComma (map (\<lambda>v. tokens (jrepair v)) vs) @ ts) (lex (CHR '']'' # rest))"
    by (rule lex_join) (use JArr in \<open>auto simp: list_all_iff stops_number_cons simp del: lex.simps\<close>)
  then show ?case by (simp del: lex.simps add: lex_punctuation map_option_twice comp_def)
next
  case (JObj kvs)
  let ?f = "\<lambda>(k, v). jstr k @ CHR '':'' # marshal v"
  let ?g = "\<lambda>(k, v). TStr (repair k) # TColon # tokens (jrepair v)"
  have "lex (join_with (CHR '','') (map ?f kvs) @ CHR ''}'' # rest) =
      map_option (\<lambda>ts. join_with TComma (map ?g kvs) @ ts) (lex (CHR ''}'' # rest))"
  proof (rule lex_join)
    fix x rest assume x: "x \<in> set kvs" and rest: "stops_number rest"
    obtain k v where kv: "x = (k, v)" by fastforce
    with x JObj have "lex (marshal v @ rest) = map_option (\<lambda>ts. tokens (jrepair v) @ ts) (lex rest)"
      by (intro JObj.IH [OF x]) (auto simp: list_all_iff rest)
    with kv show "lex (?f x @ rest) = map_option (\<lambda>ts. ?g x @ ts) (lex rest)"
      by (simp del: lex.simps add: lex_string lex_punctuation map_option_twice)
  qed (simp add: stops_number_cons)
  moreover have "map (\<lambda>(k, v). TStr k # TColon # tokens v) (map (\<lambda>(k, v). (repair k, jrepair v)) kvs)
      = map ?g kvs" by auto
  ultimately show ?case
    by (simp del: lex.simps map_map add: lex_punctuation map_option_twice)
qed

fun nesting :: "json \<Rightarrow> nat" where
  "nesting (JArr vs) = Suc (foldr max (map nesting vs) 0)"
| "nesting (JObj kvs) = Suc (foldr max (map (\<lambda>(k, v). nesting v) kvs) 0)"
| "nesting _ = 0"

lemma foldr_max_ge: "x \<in> set xs \<Longrightarrow> x \<le> foldr max xs (0::nat)"
  by (induction xs) auto

lemma tokens_head: "\<exists>t ts. tokens j = t # ts \<and> t \<noteq> TArrEnd"
  by (cases j) simp_all

lemma run_first_elem:
  "parse_run (PFirstElem st) (tokens j @ ts) = parse_run (PValue (FArr [] # st)) (tokens j @ ts)"
  using tokens_head [of j] by auto

lemma run_elems:
  assumes "\<And>v acc ts. v \<in> set vs \<Longrightarrow>
      parse_run (PValue (FArr acc # st)) (tokens v @ ts) = parse_run (PDone v (FArr acc # st)) ts"
    and "vs \<noteq> []"
  shows "parse_run (PValue (FArr acc # st)) (join_with TComma (map tokens vs) @ TArrEnd # ts) =
    parse_run (PDone (JArr (acc @ vs)) st) ts"
  using assms
proof (induction vs arbitrary: acc rule: induct_list012)
  case (3 x y zs)
  have "parse_run (PValue (FArr (acc @ [x]) # st))
      (join_with TComma (map tokens (y # zs)) @ TArrEnd # ts) =
    parse_run (PDone (JArr ((acc @ [x]) @ y # zs)) st) ts"
    by (rule 3(2)) (use 3 in auto)
  with 3(3) [of x] show ?case by simp
qed auto

lemma run_members:
  assumes "\<And>k v acc ts. (k, v) \<in> set kvs \<Longrightarrow>
      parse_run (PValue (FObj acc k # st)) (tokens v @ ts) = parse_run (PDone v (FObj acc k # st)) ts"
    and "kvs \<noteq> []"
  shows "parse_run (PKey acc st)
      (join_with TComma (map (\<lambda>(k, v). TStr k # TColon # tokens v) kvs) @ TObjEnd # ts) =
    parse_run (PDone (JObj (acc @ kvs)) st) ts"
  using assms
proof (induction kvs arbitrary: acc rule: induct_list012)
  case (2 x)
  then show ?case by (cases x) simp
next
  case (3 x y zs)
  obtain k v where x: "x = (k, v)" by fastforce
  have "parse_run (PKey (acc @ [x]) st)
      (join_with TComma (map (\<lambda>(k, v). TStr k # TColon # tokens v) (y # zs)) @ TObjEnd # ts) =
    parse_run (PDone (JObj ((acc @ [x]) @ y # zs)) st) ts"
    by (rule 3(2)) (use 3 in auto)
  with 3(3) [of k v] show ?case by (simp add: x)
qed simp

lemma run_value:
  "length st + nesting j \<le> maxNestingDepth \<Longrightarrow>
     parse_run (PValue st) (tokens j @ ts) = parse_run (PDone j st) ts"
proof (induction j arbitrary: st ts)
  case (JArr vs)
  show ?case
  proof (cases "vs = []")
    case True
    with JArr show ?thesis by simp
  next
    case False
    then obtain w ws where w: "vs = w # ws" by (cases vs) auto
    then obtain us where head: "join_with TComma (map tokens vs) = tokens w @ us"
      by (cases ws) auto
    have deep: "length st + Suc (nesting v) \<le> maxNestingDepth" if "v \<in> set vs" for v
      using JArr.prems foldr_max_ge [of "nesting v" "map nesting vs"] that by simp
    have "length st < maxNestingDepth" using JArr.prems by simp
    then have "parse_run (PValue st) (tokens (JArr vs) @ ts) =
        parse_run (PValue (FArr [] # st)) (join_with TComma (map tokens vs) @ TArrEnd # ts)"
      using run_first_elem [of st w "us @ TArrEnd # ts"] by (simp add: head)
    also have "\<dots> = parse_run (PDone (JArr ([] @ vs)) st) ts"
      by (rule run_elems [OF _ False]) (use deep in \<open>auto intro!: JArr.IH\<close>)
    finally show ?thesis by simp
  qed
next
  case (JObj kvs)
  show ?case
  proof (cases "kvs = []")
    case True
    with JObj show ?thesis by simp
  next
    case False
    then obtain k v rest where w: "kvs = (k, v) # rest" by (cases kvs) auto
    then obtain us where head: "join_with TComma (map (\<lambda>(k, v). TStr k # TColon # tokens v) kvs)
        = TStr k # TColon # tokens v @ us" by (cases rest) auto
    have deep: "length st + Suc (nesting v) \<le> maxNestingDepth" if "(k, v) \<in> set kvs" for k v
      using JObj.prems foldr_max_ge [of "nesting v" "map (\<lambda>(k, v). nesting v) kvs"] that by force
    have "length st < maxNestingDepth" using JObj.prems by simp
    then have "parse_run (PValue st) (tokens (JObj kvs) @ ts) = parse_run (PKey [] st)
        (join_with TComma (map (\<lambda>(k, v). TStr k # TColon # tokens v) kvs) @ TObjEnd # ts)"
      by (simp add: head)
    also have "\<dots> = parse_run (PDone (JObj ([] @ kvs)) st) ts"
      by (rule run_members [OF _ False]) (use deep in \<open>auto intro!: JObj.IH\<close>)
    finally show ?thesis by simp
  qed
qed simp_all

lemma nesting_jrepair [simp]: "nesting (jrepair j) = nesting j"
proof (induction j)
  case (JArr vs)
  then have "map nesting (map jrepair vs) = map nesting vs" by simp
  then show ?case by (simp del: map_map)
next
  case (JObj kvs)
  then have "map (\<lambda>(k, v). nesting v) (map (\<lambda>(k, v). (repair k, jrepair v)) kvs)
      = map (\<lambda>(k, v). nesting v) kvs" by force
  then show ?case by (simp del: map_map)
qed simp_all

theorem unmarshal_marshal:
  assumes "int_numbers j" and "nesting j \<le> maxNestingDepth"
  shows "unmarshal (marshal j) = Some (jrepair j)"
proof -
  have "lex (marshal j) = Some (tokens (jrepair j))"
    using lex_marshal [OF assms(1), of "[]"] by (simp add: stops_number_def)
  moreover have "parse (tokens (jrepair j)) = Some (jrepair j)"
    using run_value [of "[]" "jrepair j" "[]"] assms(2) by (simp add: parse_def)
  ultimately show ?thesis by (simp add: unmarshal_def)
qed

section \<open>The shape of the text\<close>

lemma json_escape_bytes: "r < 0x80 \<Longrightarrow> c \<in> set (json_escape r) \<Longrightarrow> 0x20 \<le> bv c"
  by (auto simp: json_escape_def esc_u_def hex_digit_def split: if_splits)

lemma esc_u_bytes: "c \<in> set (esc_u r) \<Longrightarrow> 0x20 \<le> bv c"
proof -
  assume c: "c \<in> set (esc_u r)"
  have "0x20 \<le> bv (hex_digit (n mod 16))" for n
    by (simp add: hex_digit_def)
  with c show ?thesis by (auto simp: esc_u_def)
qed

lemma decode_bytes_high:
  "decode_rune c cs = (r, w) \<Longrightarrow> \<not> bv c < 0x80 \<Longrightarrow> \<not> (r = rune_error \<and> w = 1) \<Longrightarrow>
     d \<in> set (take w (c # cs)) \<Longrightarrow> 0x80 \<le> bv d"
  by (auto simp: decode_rune_def Let_def cont_byte_def lo_byte_def split: if_splits list.splits)

lemma jstr_body_bytes: "c \<in> set (jstr_body s) \<Longrightarrow> 0x20 \<le> bv c"
proof (induction s rule: jstr_body.induct)
  case 1
  then show ?case by simp
next
  case (2 d cs)
  obtain r w where dr: "decode_rune d cs = (r, w)" by fastforce
  with 2 show ?case
    using json_escape_bytes [of "bv d" c] esc_u_bytes [of c] decode_bytes_high [OF dr, of c]
    by (auto split: if_splits)
qed

lemma jstr_body_length: "length s \<le> length (jstr_body s) \<and> length (jstr_body s) \<le> 6 * length s"
proof (induction s rule: jstr_body.induct)
  case 1
  then show ?case by simp
next
  case (2 c cs)
  obtain r w where d: "decode_rune c cs = (r, w)" by fastforce
  note w = decode_rune_width [OF d]
  have one: "bv c < 0x80 \<Longrightarrow> w = 1" using d by (simp add: decode_rune_def)
  have esc: "1 \<le> length (json_escape x) \<and> length (json_escape x) \<le> 6" for x
    by (simp add: json_escape_def esc_u_def)
  have "w \<le> 3 \<or> r \<noteq> 0x2028 \<and> r \<noteq> 0x2029"
    using d by (auto simp: decode_rune_def Let_def lo_byte_def split: if_splits list.splits)
  with 2 [OF d [symmetric] refl] d w one esc [of "bv c"] show ?case
    by (auto simp: esc_u_def min_def)
qed

lemma length_jstr: "length s + 2 \<le> length (jstr s) \<and> length (jstr s) \<le> 6 * length s + 2"
  using jstr_body_length [of s] by (simp add: jstr_def)

end
