(* ===== verification/GoErrors.thy ===== *)
theory GoErrors
  imports GoStrings
begin

text \<open>
  Go error values. The sentinels the program compares against with \<open>errors.Is\<close> are
  constructors; \<open>Wrap p e s\<close> is what \<open>fmt.Errorf\<close> builds around a \<open>%w\<close> verb, with the
  text before and after it; \<open>Opaque\<close> is any other error (of the operating system, the
  SQL driver or the Matrix library), known only by its text.
\<close>

datatype goerr =
    ErrUnknownRoom
  | Canceled
  | DeadlineExceeded
  | MUnknownToken gostring
  | ErrNotExist gostring
  | Opaque gostring
  | Wrap gostring goerr gostring

text \<open>The error at the bottom of a chain of wraps: what \<open>errors.Is\<close> reaches by unwrapping.\<close>

fun err_root :: "goerr \<Rightarrow> goerr" where
  "err_root (Wrap p e s) = err_root e"
| "err_root e = e"

fun err_text :: "goerr \<Rightarrow> gostring" where
  "err_text ErrUnknownRoom = ''unknown room''"
| "err_text Canceled = ''context canceled''"
| "err_text DeadlineExceeded = ''context deadline exceeded''"
| "err_text (MUnknownToken t) = t"
| "err_text (ErrNotExist t) = t"
| "err_text (Opaque t) = t"
| "err_text (Wrap p e s) = p @ err_text e @ s"

definition is_not_exist :: "goerr \<Rightarrow> bool" where
  "is_not_exist e \<longleftrightarrow> (case e of ErrNotExist _ \<Rightarrow> True | _ \<Rightarrow> False)"

definition is_unknown_token :: "goerr \<Rightarrow> bool" where
  "is_unknown_token e \<longleftrightarrow> (case err_root e of MUnknownToken _ \<Rightarrow> True | _ \<Rightarrow> False)"

lemma err_root_idem [simp]: "err_root (err_root e) = err_root e"
  by (induction e) simp_all

end
