(* ===== verification/Model.thy ===== *)
theory Model
  imports GoErrors
begin

text \<open>
  The value types of \<open>internal/model/model.go\<close>, shared by every layer of the daemon. The
  fields keep the source's names behind an \<open>m\<close> (Message) or an \<open>r\<close> (Room), since a
  record field is a constant of the whole theory. \<open>TS\<close> is an \<open>int64\<close> the daemon only
  compares and copies, so it is an \<open>int\<close>.
\<close>

definition KindText :: gostring where "KindText = ''text''"
definition KindImage :: gostring where "KindImage = ''image''"
definition KindAudio :: gostring where "KindAudio = ''audio''"
definition KindSticker :: gostring where "KindSticker = ''sticker''"
definition KindOther :: gostring where "KindOther = ''other''"

lemmas kind_defs = KindText_def KindImage_def KindAudio_def KindSticker_def KindOther_def

record message =
  mRoom :: gostring
  mEvent :: gostring
  mSender :: gostring
  mDisplay :: gostring
  mBody :: gostring
  mTS :: int
  mOwn :: bool
  mKind :: gostring

record room =
  rRoom :: gostring
  rDisplay :: gostring
  rUnread :: int
  rLastTS :: int

end
