(* ===== verification/Proto.thy ===== *)
theory Proto
  imports JsonRoundTrip Model
begin

text \<open>
  \<open>internal/ipc/proto.go\<close>: the commands a frontend sends and the events the daemon sends,
  with the JSON the struct tags give them, and \<open>encode\<close> of \<open>server.go\<close>, which makes one
  line of an event. The structs of the events are the constructors of one datatype; the
  tag in their field \<open>T\<close> is fixed by the constructor, as the \<open>New\<close> functions fix it.
\<close>

section \<open>Definitions\<close>

definition ProtoVersion :: int where "ProtoVersion = 1"
definition MaxLine :: int where "MaxLine = 64 * 1024"
definition DefaultHistoryLimit :: int where "DefaultHistoryLimit = 20"
definition MaxHistoryLimit :: int where "MaxHistoryLimit = 200"

definition CmdHello :: gostring where "CmdHello = ''hello''"
definition CmdSend :: gostring where "CmdSend = ''send''"
definition CmdMarkRead :: gostring where "CmdMarkRead = ''mark_read''"
definition CmdHistory :: gostring where "CmdHistory = ''history''"
definition CmdRooms :: gostring where "CmdRooms = ''rooms''"

definition EvReady :: gostring where "EvReady = ''ready''"
definition EvMessage :: gostring where "EvMessage = ''message''"
definition EvRoom :: gostring where "EvRoom = ''room''"
definition EvRooms :: gostring where "EvRooms = ''rooms''"
definition EvHistory :: gostring where "EvHistory = ''history''"
definition EvAck :: gostring where "EvAck = ''ack''"
definition EvError :: gostring where "EvError = ''error''"

definition ErrBadProto :: gostring where "ErrBadProto = ''bad_proto''"
definition ErrBadRequest :: gostring where "ErrBadRequest = ''bad_request''"
definition CodeUnknownRoom :: gostring where "CodeUnknownRoom = ''unknown_room''"
definition ErrOffline :: gostring where "ErrOffline = ''offline''"
definition ErrInternal :: gostring where "ErrInternal = ''internal''"

lemmas cmd_defs = CmdHello_def CmdSend_def CmdMarkRead_def CmdHistory_def CmdRooms_def
lemmas ev_defs = EvReady_def EvMessage_def EvRoom_def EvRooms_def EvHistory_def EvAck_def EvError_def

lemma cmd_distinct [simp]:
  "CmdHello \<noteq> CmdSend" "CmdHello \<noteq> CmdMarkRead" "CmdHello \<noteq> CmdHistory"
  "CmdHello \<noteq> CmdRooms" "CmdSend \<noteq> CmdHello" "CmdSend \<noteq> CmdMarkRead"
  "CmdSend \<noteq> CmdHistory" "CmdSend \<noteq> CmdRooms" "CmdMarkRead \<noteq> CmdHello"
  "CmdMarkRead \<noteq> CmdSend" "CmdMarkRead \<noteq> CmdHistory" "CmdMarkRead \<noteq> CmdRooms"
  "CmdHistory \<noteq> CmdHello" "CmdHistory \<noteq> CmdSend" "CmdHistory \<noteq> CmdMarkRead"
  "CmdHistory \<noteq> CmdRooms" "CmdRooms \<noteq> CmdHello" "CmdRooms \<noteq> CmdSend"
  "CmdRooms \<noteq> CmdMarkRead" "CmdRooms \<noteq> CmdHistory"
  by (simp_all add: cmd_defs)

record Command =
  cT :: gostring
  cID :: gostring
  cProto :: int
  cClient :: gostring
  cRoom :: gostring
  cBody :: gostring
  cEvent :: gostring
  cLimit :: int

datatype event =
    Ready gostring int gostring bool
  | Message message
  | Room room
  | RoomsReply gostring "room list"
  | HistoryReply gostring gostring "message list"
  | Ack gostring gostring
  | Error gostring gostring gostring

definition NewReady :: "gostring \<Rightarrow> bool \<Rightarrow> gostring \<Rightarrow> event" where
  "NewReady i connected daemon = Ready i ProtoVersion daemon connected"

definition NewMessage :: "message \<Rightarrow> event" where "NewMessage m = Message m"
definition NewRoom :: "room \<Rightarrow> event" where "NewRoom r = Room r"
definition NewRooms :: "gostring \<Rightarrow> room list \<Rightarrow> event" where "NewRooms i rs = RoomsReply i rs"

definition NewHistory :: "gostring \<Rightarrow> gostring \<Rightarrow> message list \<Rightarrow> event" where
  "NewHistory i room msgs = HistoryReply i room msgs"

definition NewAck :: "gostring \<Rightarrow> gostring \<Rightarrow> event" where "NewAck i ev = Ack i ev"

definition NewError :: "gostring \<Rightarrow> gostring \<Rightarrow> gostring \<Rightarrow> event" where
  "NewError i code msg = Error i code msg"

lemmas new_defs = NewReady_def NewMessage_def NewRoom_def NewRooms_def NewHistory_def NewAck_def
  NewError_def

text \<open>The JSON of the structs: the fields in order, \<open>omitempty\<close> ones left out when empty; an
  embedded struct contributes its fields.\<close>

definition str_field :: "gostring \<Rightarrow> gostring \<Rightarrow> gostring \<times> json" where
  "str_field k s = (k, JStr s)"

definition int_field :: "gostring \<Rightarrow> int \<Rightarrow> gostring \<times> json" where
  "int_field k i = (k, JNum (itoa i))"

definition opt_str :: "gostring \<Rightarrow> gostring \<Rightarrow> (gostring \<times> json) list" where
  "opt_str k s = (if s = [] then [] else [str_field k s])"

definition opt_int :: "gostring \<Rightarrow> int \<Rightarrow> (gostring \<times> json) list" where
  "opt_int k i = (if i = 0 then [] else [int_field k i])"

lemmas field_defs = str_field_def int_field_def opt_str_def opt_int_def

definition message_fields :: "message \<Rightarrow> (gostring \<times> json) list" where
  "message_fields m =
     [str_field ''room'' (mRoom m), str_field ''event'' (mEvent m),
      str_field ''sender'' (mSender m), str_field ''display'' (mDisplay m),
      str_field ''body'' (mBody m), int_field ''ts'' (mTS m), (''own'', JBool (mOwn m)),
      str_field ''kind'' (mKind m)]"

definition room_fields :: "room \<Rightarrow> (gostring \<times> json) list" where
  "room_fields r =
     [str_field ''room'' (rRoom r), str_field ''display'' (rDisplay r),
      int_field ''unread'' (rUnread r), int_field ''last_ts'' (rLastTS r)]"

fun event_json :: "event \<Rightarrow> json" where
  "event_json (Ready i proto daemon connected) =
     JObj (str_field ''t'' EvReady # opt_str ''id'' i @
       [int_field ''proto'' proto, str_field ''daemon'' daemon, (''connected'', JBool connected)])"
| "event_json (Message m) = JObj (str_field ''t'' EvMessage # message_fields m)"
| "event_json (Room r) = JObj (str_field ''t'' EvRoom # room_fields r)"
| "event_json (RoomsReply i rs) =
     JObj (str_field ''t'' EvRooms # opt_str ''id'' i @
       [(''rooms'', JArr (map (\<lambda>r. JObj (room_fields r)) rs))])"
| "event_json (HistoryReply i room ms) =
     JObj (str_field ''t'' EvHistory # opt_str ''id'' i @
       [str_field ''room'' room, (''messages'', JArr (map (\<lambda>m. JObj (message_fields m)) ms))])"
| "event_json (Ack i ev) = JObj (str_field ''t'' EvAck # opt_str ''id'' i @ opt_str ''event'' ev)"
| "event_json (Error i code msg) =
     JObj (str_field ''t'' EvError # opt_str ''id'' i @
       [str_field ''code'' code, str_field ''msg'' msg])"

definition newline :: char where "newline = CHR 0x0A"

definition encode :: "event \<Rightarrow> goerr + gostring" where
  "encode v =
     (let b = marshal (event_json v) in
      if int (length b) + 1 > MaxLine
      then Inl (Opaque (''event exceeds '' @ itoa MaxLine @ '' bytes''))
      else Inr (b @ [newline]))"

text \<open>The other direction: a command as its struct tags marshal it, and the decoding of a
  line into a \<open>Command\<close>. Keys match without regard to ASCII case (no key has a letter
  with a case variant outside ASCII), unknown keys are skipped, null leaves a field as it
  is, later members win, and a value of the wrong type is an error.\<close>

definition command_json :: "Command \<Rightarrow> json" where
  "command_json c =
     JObj (str_field ''t'' (cT c) # opt_str ''id'' (cID c) @ opt_int ''proto'' (cProto c)
       @ opt_str ''client'' (cClient c) @ opt_str ''room'' (cRoom c) @ opt_str ''body'' (cBody c)
       @ opt_str ''event'' (cEvent c) @ opt_int ''limit'' (cLimit c))"

definition zero_command :: Command where
  "zero_command = \<lparr>cT = [], cID = [], cProto = 0, cClient = [], cRoom = [], cBody = [],
     cEvent = [], cLimit = 0\<rparr>"

definition lower :: "char \<Rightarrow> char" where
  "lower c = (if 65 \<le> bv c \<and> bv c \<le> 90 then char_of (bv c + 32) else c)"

definition set_str ::
  "(gostring \<Rightarrow> Command \<Rightarrow> Command) \<Rightarrow> json \<Rightarrow> Command \<Rightarrow> Command option" where
  "set_str f v c = (case v of JNull \<Rightarrow> Some c | JStr s \<Rightarrow> Some (f s c) | _ \<Rightarrow> None)"

definition set_int ::
  "(int \<Rightarrow> Command \<Rightarrow> Command) \<Rightarrow> json \<Rightarrow> Command \<Rightarrow> Command option" where
  "set_int f v c =
     (case v of JNull \<Rightarrow> Some c | JNum lit \<Rightarrow> map_option (\<lambda>i. f i c) (ParseInt64 lit) | _ \<Rightarrow> None)"

definition set_field :: "gostring \<Rightarrow> json \<Rightarrow> Command \<Rightarrow> Command option" where
  "set_field key v c =
     (let k = map lower key in
      if k = ''t'' then set_str (\<lambda>s c. c\<lparr>cT := s\<rparr>) v c
      else if k = ''id'' then set_str (\<lambda>s c. c\<lparr>cID := s\<rparr>) v c
      else if k = ''proto'' then set_int (\<lambda>i c. c\<lparr>cProto := i\<rparr>) v c
      else if k = ''client'' then set_str (\<lambda>s c. c\<lparr>cClient := s\<rparr>) v c
      else if k = ''room'' then set_str (\<lambda>s c. c\<lparr>cRoom := s\<rparr>) v c
      else if k = ''body'' then set_str (\<lambda>s c. c\<lparr>cBody := s\<rparr>) v c
      else if k = ''event'' then set_str (\<lambda>s c. c\<lparr>cEvent := s\<rparr>) v c
      else if k = ''limit'' then set_int (\<lambda>i c. c\<lparr>cLimit := i\<rparr>) v c
      else Some c)"

fun set_fields :: "(gostring \<times> json) list \<Rightarrow> Command \<Rightarrow> Command option" where
  "set_fields [] c = Some c"
| "set_fields ((k, v) # kvs) c =
     (case set_field k v c of None \<Rightarrow> None | Some c \<Rightarrow> set_fields kvs c)"

definition decode_command :: "gostring \<Rightarrow> Command option" where
  "decode_command line =
     (case unmarshal line of
        None \<Rightarrow> None
      | Some JNull \<Rightarrow> Some zero_command
      | Some (JObj kvs) \<Rightarrow> set_fields kvs zero_command
      | Some _ \<Rightarrow> None)"

section \<open>Lemmas\<close>

lemma int_numbers_event: "int_numbers (event_json e)"
  by (cases e) (auto simp: field_defs message_fields_def room_fields_def list_all_iff)

lemma foldr_max_le: "(\<And>x. x \<in> set xs \<Longrightarrow> x \<le> n) \<Longrightarrow> foldr max xs (0::nat) \<le> n"
  by (induction xs) auto

lemma nesting_fields:
  "nesting (JObj (message_fields m)) = 1" "nesting (JObj (room_fields r)) = 1"
  by (simp_all add: message_fields_def room_fields_def field_defs)

lemma nesting_event: "nesting (event_json e) \<le> 3"
proof (cases e)
  case (RoomsReply i rs)
  have "foldr max (map nesting (map (\<lambda>r. JObj (room_fields r)) rs)) 0 \<le> 1"
    by (rule foldr_max_le) (auto simp: nesting_fields simp del: nesting.simps)
  with RoomsReply show ?thesis by (simp add: field_defs del: map_map)
next
  case (HistoryReply i room ms)
  have "foldr max (map nesting (map (\<lambda>r. JObj (message_fields r)) ms)) 0 \<le> 1"
    by (rule foldr_max_le) (auto simp: nesting_fields simp del: nesting.simps)
  with HistoryReply show ?thesis by (simp add: field_defs del: map_map)
qed (auto simp: field_defs message_fields_def room_fields_def)

lemma unmarshal_event: "unmarshal (marshal (event_json e)) = Some (jrepair (event_json e))"
  using nesting_event [of e] by (intro unmarshal_marshal int_numbers_event) (simp add: maxNestingDepth_def)

lemma valid_ascii: "list_all (\<lambda>c. bv c < 0x80) s \<Longrightarrow> repair s = s"
proof (induction s)
  case Nil
  then show ?case by (simp add: repair_def)
next
  case (Cons c cs)
  then have "runes (c # cs) = bv c # runes cs" by (simp add: decode_rune_def)
  with Cons show ?case by (simp add: repair_def encode_rune_def)
qed

end
