(* ===== verification/Sanitize.thy ===== *)
theory Sanitize
  imports Model
begin

text \<open>
  \<open>internal/sanitize/sanitize.go\<close>: the text filter every message goes through before it is
  stored and broadcast. The definitions follow the source loop by loop (the emoji table
  and ranges, the white-space folding loop with its \<open>space\<close> flag, the cut that backs up to
  the start of a rune). The lemmas show what the result is: valid UTF-8, free of control
  characters and, when asked, of what Unicode's own tables call emoji (two squares come
  through), the words of the input joined by single spaces, and at most \<open>MaxBody\<close> bytes with
  no rune split.
\<close>

unbundle bit_operations_syntax

section \<open>Definitions\<close>

record sanitize_options =
  StripEmoji :: bool
  MaxBody :: int

definition DefaultMaxBody :: int where
  "DefaultMaxBody = 8192"

definition emojiTable :: "(rune \<times> gostring) list" where
  "emojiTable =
    [(0x1F600, '':)''), (0x1F601, '':D''), (0x1F602, '':D''), (0x1F603, '':)''),
     (0x1F604, '':)''), (0x1F605, '':')''), (0x1F606, '':D''), (0x1F609, '';)''),
     (0x1F60A, '':)''), (0x1F60D, ''<3''), (0x1F614, '':(''), (0x1F622, '':'(''),
     (0x1F62D, '':'(''), (0x1F621, ''>:(''), (0x1F643, '':)''), (0x1F644, '':|''),
     (0x1F60E, ''B)''), (0x1F914, '':?''), (0x1F44D, ''+1''), (0x1F44E, ''-1''),
     (0x1F64F, ''thx''), (0x1F525, ''!''), (0x2764, ''<3''), (0x2665, ''<3''),
     (0x2B50, ''*''), (0x2705, ''ok''), (0x274C, ''x'')]"

definition commonEmoji :: "rune \<rightharpoonup> gostring" where
  "commonEmoji = map_of emojiTable"

definition isEmoji :: "rune \<Rightarrow> bool" where
  "isEmoji r \<longleftrightarrow>
     (r = 0x200D \<or> r = 0xFE0E \<or> r = 0xFE0F \<or> r = 0x20E3)
   \<or> (r \<ge> 0x1F3FB \<and> r \<le> 0x1F3FF)
   \<or> (r \<ge> 0x1F1E6 \<and> r \<le> 0x1F1FF)
   \<or> (r \<ge> 0x2190 \<and> r \<le> 0x21FF)
   \<or> (r \<ge> 0x2300 \<and> r \<le> 0x23FF)
   \<or> (r \<ge> 0x2600 \<and> r \<le> 0x27BF)
   \<or> (r \<ge> 0x2B00 \<and> r \<le> 0x2BFF)
   \<or> (r \<ge> 0x1F000 \<and> r \<le> 0x1FAFF)
   \<or> (r \<ge> 0x1FB00 \<and> r \<le> 0x1FBFF)"

text \<open>The loop of \<open>stripEmoji\<close>; \<open>b\<close> is the builder.\<close>

fun stripEmoji_loop :: "rune list \<Rightarrow> gostring \<Rightarrow> gostring" where
  "stripEmoji_loop [] b = b"
| "stripEmoji_loop (r # rs) b =
     (case commonEmoji r of
        Some repl \<Rightarrow> stripEmoji_loop rs (b @ repl)
      | None \<Rightarrow>
          if isEmoji r then stripEmoji_loop rs b
          else stripEmoji_loop rs (b @ encode_rune r))"

definition stripEmoji :: "gostring \<Rightarrow> gostring" where
  "stripEmoji s = stripEmoji_loop (runes s) []"

text \<open>\<open>unicode.IsControl\<close>: the code points of category Cc.\<close>

definition IsControl :: "rune \<Rightarrow> bool" where
  "IsControl r \<longleftrightarrow> r \<le> 0x1F \<or> (0x7F \<le> r \<and> r \<le> 0x9F)"

text \<open>The loop of \<open>collapse\<close>: the \<open>space\<close> flag and the builder \<open>b\<close>.\<close>

fun collapse_loop :: "rune list \<Rightarrow> bool \<Rightarrow> gostring \<Rightarrow> gostring" where
  "collapse_loop [] space b = b"
| "collapse_loop (r # rs) space b =
     (if r = 10 \<or> r = 13 \<or> r = 9 \<or> (IsControl r \<and> r \<noteq> 32)
      then collapse_loop rs True b
      else if r = 32 then collapse_loop rs True b
      else collapse_loop rs False
             ((if space \<and> length b > 0 then b @ encode_rune 32 else b) @ encode_rune r))"

definition collapse :: "gostring \<Rightarrow> gostring" where
  "collapse s = collapse_loop (runes s) False []"

definition utf8Start :: "char \<Rightarrow> bool" where
  "utf8Start b \<longleftrightarrow> (bv b AND 0xC0) \<noteq> 0x80"

text \<open>The loop of \<open>truncateBytes\<close>: \<open>cut\<close> moves down to the first byte of a rune.\<close>

fun cut_loop :: "gostring \<Rightarrow> nat \<Rightarrow> nat" where
  "cut_loop s 0 = 0"
| "cut_loop s (Suc k) = (if utf8Start (s ! Suc k) then Suc k else cut_loop s k)"

definition truncateBytes :: "gostring \<Rightarrow> int \<Rightarrow> gostring" where
  "truncateBytes s mx =
     (if int (length s) \<le> mx then s else take (cut_loop s (nat mx)) s)"

definition Text :: "gostring \<Rightarrow> sanitize_options \<Rightarrow> gostring" where
  "Text s opts =
     (let s = (if StripEmoji opts then stripEmoji s else s);
          s = collapse s;
          mx = (if MaxBody opts = 0 then DefaultMaxBody else MaxBody opts)
      in if mx > 0 \<and> int (length s) > mx then truncateBytes s mx else s)"

text \<open>The placeholder literals are Chinese in the source; here they are code points.\<close>

definition placeholder :: "gostring \<Rightarrow> gostring option" where
  "placeholder kind =
     (if kind = KindImage then Some (encode_runes [0x5B, 0x5716, 0x7247, 0x5D])
      else if kind = KindAudio then Some (encode_runes [0x5B, 0x8A9E, 0x97F3, 0x5D])
      else if kind = KindSticker then Some (encode_runes [0x5B, 0x8CBC, 0x5716, 0x5D])
      else if kind = KindOther then Some (encode_runes [0x5B, 0x9644, 0x4EF6, 0x5D])
      else None)"

definition sanitize_Message :: "message \<Rightarrow> sanitize_options \<Rightarrow> message" where
  "sanitize_Message m opts =
     (case placeholder (mKind m) of
        Some p \<Rightarrow> m\<lparr>mBody := p\<rparr>
      | None \<Rightarrow> m\<lparr>mBody := Text (mBody m) opts\<rparr>)"

section \<open>Emoji\<close>

text \<open>A pictograph is anything the table folds or the ranges drop.\<close>

definition pictograph :: "rune \<Rightarrow> bool" where
  "pictograph r \<longleftrightarrow> commonEmoji r \<noteq> None \<or> isEmoji r"

definition strip_runes :: "rune \<Rightarrow> rune list" where
  "strip_runes r =
     (case commonEmoji r of
        Some repl \<Rightarrow> map of_char repl
      | None \<Rightarrow> if isEmoji r then [] else [r])"

definition plain_char :: "char \<Rightarrow> bool" where
  "plain_char c \<longleftrightarrow> 32 < bv c \<and> bv c < 127"

lemma emojiTable_plain: "\<forall>(r, repl) \<in> set emojiTable. list_all plain_char repl"
  by (simp add: emojiTable_def plain_char_def)

lemma emojiTable_keys: "\<forall>(r, repl) \<in> set emojiTable. 0x2000 \<le> r"
  by (simp add: emojiTable_def)

lemma commonEmoji_plain: "commonEmoji r = Some repl \<Longrightarrow> list_all plain_char repl"
  using emojiTable_plain by (auto simp: commonEmoji_def dest: map_of_SomeD)

lemma pictograph_ge: "pictograph r \<Longrightarrow> 0x2000 \<le> r"
  using emojiTable_keys
  by (auto simp: pictograph_def commonEmoji_def isEmoji_def dest: map_of_SomeD)

lemma encode_ascii_chars: "list_all plain_char cs \<Longrightarrow> encode_runes (map of_char cs) = cs"
  by (induction cs) (simp_all add: plain_char_def encode_rune_ascii)

lemma encode_strip_runes:
  "encode_runes (strip_runes r) =
     (case commonEmoji r of
        Some repl \<Rightarrow> repl | None \<Rightarrow> if isEmoji r then [] else encode_rune r)"
  by (simp add: strip_runes_def encode_ascii_chars commonEmoji_plain split: option.split)

lemma stripEmoji_loop_eq:
  "stripEmoji_loop rs b = b @ encode_runes (concat (map strip_runes rs))"
  by (induction rs arbitrary: b) (simp_all add: encode_strip_runes split: option.split)

lemma stripEmoji_eq: "stripEmoji s = encode_runes (concat (map strip_runes (runes s)))"
  by (simp add: stripEmoji_def stripEmoji_loop_eq)

lemma strip_runes_cases:
  assumes "q \<in> set (strip_runes r)"
  shows "(32 < q \<and> q < 127) \<or> (q = r \<and> \<not> pictograph r)"
proof (cases "commonEmoji r")
  case None
  with assms show ?thesis by (auto simp: strip_runes_def pictograph_def split: if_splits)
next
  case (Some repl)
  with assms obtain c where "c \<in> set repl" "q = bv c" by (auto simp: strip_runes_def)
  with commonEmoji_plain [OF Some] show ?thesis by (auto simp: list_all_iff plain_char_def)
qed

lemma strip_runes_valid: "valid_rune r \<Longrightarrow> list_all valid_rune (strip_runes r)"
  unfolding list_all_iff valid_rune_def using strip_runes_cases [of _ r] by fastforce

lemma strip_runes_not_pictograph: "q \<in> set (strip_runes r) \<Longrightarrow> \<not> pictograph q"
  using strip_runes_cases [of q r] pictograph_ge [of q] by fastforce

lemma concat_strip_valid:
  "list_all valid_rune rs \<Longrightarrow> list_all valid_rune (concat (map strip_runes rs))"
  by (induction rs) (auto simp: strip_runes_valid)

lemma runes_stripEmoji: "runes (stripEmoji s) = concat (map strip_runes (runes s))"
  by (simp add: stripEmoji_eq concat_strip_valid runes_valid)

section \<open>Folding white space\<close>

definition is_sep :: "rune \<Rightarrow> bool" where
  "is_sep r \<longleftrightarrow> IsControl r \<or> r = 32"

text \<open>The maximal runs of non-separators, and their concatenation with single spaces.\<close>

fun rune_words :: "rune list \<Rightarrow> rune list list" where
  "rune_words [] = []"
| "rune_words (r # rs) =
     (if is_sep r then rune_words rs
      else case rs of
             [] \<Rightarrow> [[r]]
           | q # _ \<Rightarrow>
               if is_sep q then [r] # rune_words rs
               else (r # hd (rune_words rs)) # tl (rune_words rs))"

fun join_words :: "rune list list \<Rightarrow> rune list" where
  "join_words [] = []"
| "join_words [w] = w"
| "join_words (w # ws) = w @ 32 # join_words ws"

lemma join_words_Cons: "ws \<noteq> [] \<Longrightarrow> join_words (w # ws) = w @ 32 # join_words ws"
  by (cases ws) simp_all

lemma join_words_extend: "join_words ((r # w) # ws) = r # join_words (w # ws)"
  by (cases ws) simp_all

lemma rune_words_eq_Nil_iff: "rune_words rs = [] \<longleftrightarrow> list_all is_sep rs"
  by (induction rs) (auto split: list.splits)

text \<open>Two adjacent non-separators: the first one extends the word of the second.\<close>

lemma rune_words_extend:
  assumes "\<not> is_sep r" and "\<not> is_sep q"
  obtains u us where "rune_words (q # qs) = u # us" and "rune_words (r # q # qs) = (r # u) # us"
proof -
  from assms(2) have "rune_words (q # qs) \<noteq> []"
    by (simp add: rune_words_eq_Nil_iff del: rune_words.simps)
  then obtain u us where us: "rune_words (q # qs) = u # us" by (cases "rune_words (q # qs)") auto
  with assms have "rune_words (r # q # qs) = (r # u) # us"
    by (subst rune_words.simps(2)) (simp del: rune_words.simps)
  with us show thesis by (rule that)
qed

lemma rune_words_ok: "w \<in> set (rune_words rs) \<Longrightarrow> w \<noteq> [] \<and> list_all (\<lambda>r. \<not> is_sep r) w"
proof (induction rs arbitrary: w)
  case Nil
  then show ?case by simp
next
  case (Cons r rs)
  show ?case
  proof (cases "is_sep r \<or> rs = [] \<or> is_sep (hd rs)")
    case True
    with Cons show ?thesis by (auto split: if_splits list.splits)
  next
    case False
    then obtain q qs where rs: "rs = q # qs" "\<not> is_sep q" "\<not> is_sep r" by (cases rs) auto
    then obtain u us where us: "rune_words rs = u # us" "rune_words (r # rs) = (r # u) # us"
      using rune_words_extend [of r q qs] by metis
    with Cons.prems Cons.IH rs(3) show ?thesis by (auto simp del: rune_words.simps)
  qed
qed

lemma collapse_loop_sep: "is_sep r \<Longrightarrow> collapse_loop (r # rs) space b = collapse_loop rs True b"
  by (auto simp: is_sep_def)

lemma collapse_loop_char:
  "\<not> is_sep r \<Longrightarrow> collapse_loop (r # rs) space b =
     collapse_loop rs False ((if space \<and> b \<noteq> [] then b @ encode_rune 32 else b) @ encode_rune r)"
  by (auto simp: is_sep_def IsControl_def)

text \<open>
  What the loop appends: with the flag set, the remaining words, each preceded by a space
  unless the builder is empty; with the flag clear and a word in progress, the rest of
  that word first.
\<close>

lemma collapse_loop_words:
  "b \<noteq> [] \<Longrightarrow> collapse_loop rs True b =
     b @ (if rune_words rs = [] then [] else encode_runes (32 # join_words (rune_words rs)))"
  "b \<noteq> [] \<Longrightarrow> collapse_loop rs False b =
     b @ (if rs = [] \<or> rune_words rs = [] then []
          else if is_sep (hd rs) then encode_runes (32 # join_words (rune_words rs))
          else encode_runes (join_words (rune_words rs)))"
proof (induction rs arbitrary: b)
  case Nil
  { case 1 then show ?case by simp }
  { case 2 then show ?case by simp }
next
  case (Cons r rs)
  have word: "encode_rune r @ drop (length b') (collapse_loop rs False b') =
      encode_runes (join_words (rune_words (r # rs)))"
    if "\<not> is_sep r" "b' \<noteq> []" for b'
  proof (cases rs)
    case Nil
    with that show ?thesis by simp
  next
    case (Cons q qs)
    show ?thesis
    proof (cases "is_sep q")
      case True
      with Cons that have "rune_words (r # rs) = [r] # rune_words rs" by simp
      with True Cons that Cons.IH(2) [of b'] show ?thesis
        by (cases "rune_words rs") (simp_all del: rune_words.simps)
    next
      case False
      with Cons that obtain u us where "rune_words rs = u # us" "rune_words (r # rs) = (r # u) # us"
        using rune_words_extend [of r q qs] by metis
      with False Cons that Cons.IH(2) [of b'] show ?thesis
        by (simp add: join_words_extend del: rune_words.simps)
    qed
  qed
  have pre: "\<exists>t. collapse_loop rs False b' = b' @ t" if "b' \<noteq> []" for b'
    using Cons.IH(2) [OF that] by blast
  have step: "collapse_loop rs False (b @ encode_rune r) =
      b @ encode_runes (join_words (rune_words (r # rs)))" if "\<not> is_sep r" for b
    using word [OF that, of "b @ encode_rune r"] pre [of "b @ encode_rune r"]
    by (auto simp del: rune_words.simps)
  have nonempty: "rune_words (r # rs) \<noteq> []" if "\<not> is_sep r"
    using that by (simp add: rune_words_eq_Nil_iff del: rune_words.simps)
  { case 1
    show ?case
    proof (cases "is_sep r")
      case True
      with 1 Cons.IH(1) show ?thesis by (simp add: collapse_loop_sep del: collapse_loop.simps)
    next
      case False
      with 1 step [of "b @ encode_rune 32"] nonempty show ?thesis
        by (simp add: collapse_loop_char del: collapse_loop.simps rune_words.simps)
    qed }
  { case 2
    show ?case
    proof (cases "is_sep r")
      case True
      with 2 Cons.IH(1) show ?thesis by (simp add: collapse_loop_sep del: collapse_loop.simps)
    next
      case False
      with 2 step [of b] nonempty show ?thesis
        by (simp add: collapse_loop_char del: collapse_loop.simps rune_words.simps)
    qed }
qed

text \<open>The loop against its specification: the words, joined by single spaces.\<close>

lemma collapse_loop_start: "collapse_loop rs space [] = encode_runes (join_words (rune_words rs))"
proof (induction rs arbitrary: space)
  case Nil
  then show ?case by simp
next
  case (Cons r rs)
  show ?case
  proof (cases "is_sep r")
    case True
    with Cons show ?thesis by (simp add: collapse_loop_sep del: collapse_loop.simps)
  next
    case False
    then have eq: "collapse_loop (r # rs) space [] = collapse_loop rs False (encode_rune r)"
      by (simp add: collapse_loop_char del: collapse_loop.simps)
    show ?thesis
    proof (cases rs)
      case Nil
      with False eq show ?thesis by simp
    next
      case (Cons q qs)
      show ?thesis
      proof (cases "is_sep q")
        case True
        with Cons False have "rune_words (r # rs) = [r] # rune_words rs" by simp
        with eq Cons True show ?thesis
          by (cases "rune_words rs")
            (simp_all add: collapse_loop_words del: rune_words.simps collapse_loop.simps)
      next
        case notsep: False
        with Cons False obtain u us
          where "rune_words rs = u # us" "rune_words (r # rs) = (r # u) # us"
          using rune_words_extend [of r q qs] by metis
        with eq Cons notsep show ?thesis
          by (simp add: collapse_loop_words join_words_extend
              del: rune_words.simps collapse_loop.simps)
      qed
    qed
  qed
qed

lemma collapse_eq: "collapse s = encode_runes (join_words (rune_words (runes s)))"
  by (simp add: collapse_def collapse_loop_start)

lemma set_join_words: "set (join_words ws) \<subseteq> insert 32 (\<Union> (set ` set ws))"
  by (induction ws rule: join_words.induct) auto

lemma set_rune_words: "w \<in> set (rune_words rs) \<Longrightarrow> set w \<subseteq> set rs"
proof (induction rs arbitrary: w)
  case Nil
  then show ?case by simp
next
  case (Cons r rs)
  have "w \<in> set (rune_words rs) \<or> w = [r] \<or> (\<exists>u\<in>set (rune_words rs). w = r # u)"
  proof (cases "is_sep r \<or> rs = [] \<or> is_sep (hd rs)")
    case True
    with Cons.prems show ?thesis by (auto split: if_splits list.splits)
  next
    case False
    then obtain q qs where "rs = q # qs" "\<not> is_sep q" "\<not> is_sep r" by (cases rs) auto
    then obtain u us where "rune_words rs = u # us" "rune_words (r # rs) = (r # u) # us"
      using rune_words_extend [of r q qs] by metis
    with Cons.prems show ?thesis by (auto simp del: rune_words.simps)
  qed
  with Cons.IH show ?case by fastforce
qed

lemma set_join_rune_words: "set (join_words (rune_words rs)) \<subseteq> insert 32 (set rs)"
  using set_join_words [of "rune_words rs"] set_rune_words by fastforce

lemma join_rune_words_no_control:
  "r \<in> set (join_words (rune_words rs)) \<Longrightarrow> \<not> IsControl r"
proof -
  assume "r \<in> set (join_words (rune_words rs))"
  then have "r = 32 \<or> (\<exists>w\<in>set (rune_words rs). r \<in> set w)"
    using set_join_words [of "rune_words rs"] by auto
  then show "\<not> IsControl r"
    using rune_words_ok by (auto simp: list_all_iff is_sep_def IsControl_def)
qed

lemma join_rune_words_valid:
  "list_all valid_rune rs \<Longrightarrow> list_all valid_rune (join_words (rune_words rs))"
  using set_join_rune_words [of rs] by (auto simp: list_all_iff valid_rune_def)

lemma runes_collapse: "runes (collapse s) = join_words (rune_words (runes s))"
  by (simp add: collapse_eq join_rune_words_valid runes_valid)

text \<open>No two spaces in a row.\<close>

fun single_spaced :: "rune list \<Rightarrow> bool" where
  "single_spaced (x # y # rs) \<longleftrightarrow> \<not> (x = 32 \<and> y = 32) \<and> single_spaced (y # rs)"
| "single_spaced _ \<longleftrightarrow> True"

lemma single_spaced_prefix: "single_spaced (xs @ ys) \<Longrightarrow> single_spaced xs"
  by (induction xs rule: single_spaced.induct) simp_all

lemma single_spaced_word: "32 \<notin> set w \<Longrightarrow> single_spaced w"
  by (induction w rule: single_spaced.induct) auto

lemma single_spaced_join:
  "32 \<notin> set w \<Longrightarrow> single_spaced rs \<Longrightarrow> rs \<noteq> [] \<Longrightarrow> hd rs \<noteq> 32 \<Longrightarrow> single_spaced (w @ 32 # rs)"
  by (cases rs; induction w rule: single_spaced.induct) auto

lemma join_words_tidy:
  "(\<And>w. w \<in> set ws \<Longrightarrow> w \<noteq> [] \<and> list_all (\<lambda>r. \<not> is_sep r) w) \<Longrightarrow>
     single_spaced (join_words ws)
   \<and> (ws \<noteq> [] \<longrightarrow> join_words ws \<noteq> [] \<and> hd (join_words ws) \<noteq> 32 \<and> last (join_words ws) \<noteq> 32)"
proof (induction ws rule: join_words.induct)
  case 1
  then show ?case by simp
next
  case (2 w)
  then have "w \<noteq> []" "32 \<notin> set w" by (auto simp: list_all_iff is_sep_def)
  then show ?case using hd_in_set [of w] last_in_set [of w] by (metis join_words.simps(2) single_spaced_word)
next
  case (3 w v vs)
  have w: "w \<noteq> []" "32 \<notin> set w" using 3(2) [of w] by (auto simp: list_all_iff is_sep_def)
  have "single_spaced (join_words (v # vs)) \<and> join_words (v # vs) \<noteq> [] \<and> hd (join_words (v # vs)) \<noteq> 32
      \<and> last (join_words (v # vs)) \<noteq> 32"
    using 3 by simp
  moreover have "hd w \<noteq> 32" using w hd_in_set [of w] by metis
  ultimately show ?case using w by (simp add: single_spaced_join)
qed

section \<open>Cutting at a rune boundary\<close>

lemma and_C0: "(n::nat) AND 0xC0 = 64 * (n div 64 mod 4)"
proof -
  have "(0xC0::nat) = push_bit 6 (mask 2)" by (simp add: mask_eq_exp_minus_1 push_bit_eq_mult)
  moreover have "n AND push_bit 6 (mask 2) = push_bit 6 (take_bit 2 (drop_bit 6 n))"
    by (rule bit_eqI)
      (auto simp: bit_and_iff bit_push_bit_iff bit_mask_iff bit_take_bit_iff bit_drop_bit_eq)
  ultimately show ?thesis by (simp add: push_bit_eq_mult take_bit_eq_mod drop_bit_eq_div)
qed

lemma utf8Start_iff: "utf8Start c \<longleftrightarrow> \<not> cont_byte c"
proof -
  have c: "bv c div 64 < 4" using nat_of_char_less_256 [of c] split64 [of "bv c"] by linarith
  have m: "bv c mod 64 < 64" by simp
  have "bv c AND 0xC0 = 64 * (bv c div 64)" using c by (simp add: and_C0)
  then have "utf8Start c \<longleftrightarrow> bv c div 64 \<noteq> 2" by (simp add: utf8Start_def)
  also have "\<dots> \<longleftrightarrow> \<not> cont_byte c"
    unfolding cont_byte_def using split64 [of "bv c"] m by linarith
  finally show ?thesis .
qed

text \<open>The runes that fit in \<open>n\<close> bytes.\<close>

fun take_fit :: "nat \<Rightarrow> rune list \<Rightarrow> rune list" where
  "take_fit n [] = []"
| "take_fit n (r # rs) =
     (if length (encode_rune r) \<le> n then r # take_fit (n - length (encode_rune r)) rs else [])"

lemma take_fit_all: "length (encode_runes rs) \<le> n \<Longrightarrow> take_fit n rs = rs"
  by (induction rs arbitrary: n) auto

lemma take_fit_prefix: "\<exists>qs. rs = take_fit n rs @ qs"
  by (induction rs arbitrary: n) auto

lemma take_fit_length: "length (encode_runes (take_fit n rs)) \<le> n"
proof (induction rs arbitrary: n)
  case Nil
  then show ?case by simp
next
  case (Cons r rs)
  show ?case
  proof (cases "length (encode_rune r) \<le> n")
    case True
    then show ?thesis using Cons.IH [of "n - length (encode_rune r)"] by simp
  next
    case False
    then show ?thesis by simp
  qed
qed

lemma take_fit_tight:
  "take_fit n rs \<noteq> rs \<Longrightarrow> n < length (encode_runes (take_fit n rs)) + 4"
proof (induction rs arbitrary: n)
  case Nil
  then show ?case by simp
next
  case (Cons r rs)
  show ?case
  proof (cases "length (encode_rune r) \<le> n")
    case True
    then show ?thesis using Cons.IH [of "n - length (encode_rune r)"] Cons.prems by auto
  next
    case False
    then show ?thesis using length_encode_rune [of r] by simp
  qed
qed

lemma take_fit_next:
  "rs = take_fit n rs @ q # qs \<Longrightarrow> n < length (encode_runes (take_fit n rs)) + length (encode_rune q)"
proof (induction rs arbitrary: n)
  case Nil
  then show ?case by simp
next
  case (Cons r rs)
  show ?case
  proof (cases "length (encode_rune r) \<le> n")
    case True
    with Cons.prems have "rs = take_fit (n - length (encode_rune r)) rs @ q # qs" by simp
    then show ?thesis using Cons.IH [of "n - length (encode_rune r)"] True by simp
  next
    case False
    with Cons.prems show ?thesis by simp
  qed
qed

lemma take_fit_set: "r \<in> set (take_fit n rs) \<Longrightarrow> r \<in> set rs"
  by (induction rs arbitrary: n) (auto split: if_splits)

lemma cut_loop_inside:
  assumes "n < length e" and "\<forall>c\<in>set (tl e). cont_byte c"
  shows "cut_loop (e @ t) n = 0"
  using assms(1)
proof (induction n)
  case 0
  then show ?case by simp
next
  case (Suc n)
  then have "(e @ t) ! Suc n \<in> set (tl e)"
    by (simp add: nth_append nth_tl [symmetric] del: nth_tl)
  with assms(2) Suc show ?case by (simp add: utf8Start_iff)
qed

lemma cut_loop_beyond:
  assumes "t \<noteq> []" and "\<not> cont_byte (hd t)" and "e \<noteq> []"
  shows "cut_loop (e @ t) (length e + k) = length e + cut_loop t k"
proof (induction k)
  case 0
  obtain m where m: "length e = Suc m" using assms(3) by (cases e) auto
  have "(e @ t) ! Suc m = hd t" using m assms(1) by (simp add: nth_append hd_conv_nth)
  with m assms(2) show ?case by (simp add: utf8Start_iff)
next
  case (Suc k)
  have "(e @ t) ! Suc (length e + k) = t ! Suc k"
    by (simp add: nth_append)
  with Suc show ?case by simp
qed

lemma cut_loop_take_fit:
  "list_all valid_rune rs \<Longrightarrow> n < length (encode_runes rs) \<Longrightarrow>
     take (cut_loop (encode_runes rs) n) (encode_runes rs) = encode_runes (take_fit n rs)"
proof (induction rs arbitrary: n)
  case Nil
  then show ?case by simp
next
  case (Cons r rs)
  show ?case
  proof (cases "length (encode_rune r) \<le> n")
    case True
    then obtain k where n: "n = length (encode_rune r) + k" using le_Suc_ex by blast
    with Cons.prems have k: "k < length (encode_runes rs)" by simp
    then obtain q qs where rs: "rs = q # qs" by (cases rs) auto
    have "\<not> cont_byte (hd (encode_runes rs))"
      using Cons.prems rs by (simp add: encode_rune_head_not_cont)
    moreover have "encode_runes rs \<noteq> []" using rs by simp
    ultimately have "cut_loop (encode_runes (r # rs)) n =
        length (encode_rune r) + cut_loop (encode_runes rs) k"
      unfolding n encode_runes_simps by (intro cut_loop_beyond) simp_all
    with Cons.IH [OF _ k] Cons.prems n show ?thesis by simp
  next
    case False
    then have "cut_loop (encode_runes (r # rs)) n = 0"
      unfolding encode_runes_simps by (intro cut_loop_inside) (auto intro: encode_rune_tail_cont)
    with False show ?thesis by simp
  qed
qed

lemma truncateBytes_encode:
  assumes "list_all valid_rune rs" and "0 \<le> mx"
  shows "truncateBytes (encode_runes rs) mx = encode_runes (take_fit (nat mx) rs)"
proof (cases "int (length (encode_runes rs)) \<le> mx")
  case True
  then have "length (encode_runes rs) \<le> nat mx" by linarith
  with True show ?thesis by (simp add: truncateBytes_def take_fit_all)
next
  case False
  then have "nat mx < length (encode_runes rs)" using assms(2) by linarith
  with False assms show ?thesis by (simp add: truncateBytes_def cut_loop_take_fit)
qed

section \<open>The whole filter\<close>

definition body_cap :: "sanitize_options \<Rightarrow> int" where
  "body_cap opts = (if MaxBody opts = 0 then DefaultMaxBody else MaxBody opts)"

definition clean_runes :: "gostring \<Rightarrow> sanitize_options \<Rightarrow> rune list" where
  "clean_runes s opts =
     join_words (rune_words
       (if StripEmoji opts then concat (map strip_runes (runes s)) else runes s))"

definition kept_runes :: "gostring \<Rightarrow> sanitize_options \<Rightarrow> rune list" where
  "kept_runes s opts =
     (if body_cap opts > 0 then take_fit (nat (body_cap opts)) (clean_runes s opts)
      else clean_runes s opts)"

lemma clean_runes_valid: "list_all valid_rune (clean_runes s opts)"
  by (simp add: clean_runes_def join_rune_words_valid concat_strip_valid runes_valid)

lemma kept_runes_set: "r \<in> set (kept_runes s opts) \<Longrightarrow> r \<in> set (clean_runes s opts)"
  by (auto simp: kept_runes_def dest: take_fit_set split: if_splits)

lemma kept_runes_valid: "list_all valid_rune (kept_runes s opts)"
  using clean_runes_valid by (auto simp: list_all_iff dest: kept_runes_set)

lemma Text_eq: "Text s opts = encode_runes (kept_runes s opts)"
proof -
  have "collapse (if StripEmoji opts then stripEmoji s else s) = encode_runes (clean_runes s opts)"
    by (simp add: collapse_eq clean_runes_def runes_stripEmoji)
  then show ?thesis
    by (auto simp: Text_def Let_def kept_runes_def body_cap_def [symmetric] truncateBytes_encode
        clean_runes_valid take_fit_all)
qed

lemma runes_Text: "runes (Text s opts) = kept_runes s opts"
  by (simp add: Text_eq kept_runes_valid)

lemma kept_runes_no_control: "r \<in> set (kept_runes s opts) \<Longrightarrow> \<not> IsControl r"
  by (auto simp: clean_runes_def dest!: kept_runes_set join_rune_words_no_control)

text \<open>No control byte survives, so a sanitised body cannot break the one-line framing.\<close>

lemma Text_bytes: "c \<in> set (Text s opts) \<Longrightarrow> 0x20 \<le> bv c"
proof (rule ccontr)
  assume c: "c \<in> set (Text s opts)" and "\<not> 0x20 \<le> bv c"
  then obtain r where r: "r \<in> set (kept_runes s opts)" "c \<in> set (encode_rune r)"
    by (auto simp: Text_eq encode_runes_def)
  with kept_runes_valid have "valid_rune r" by (auto simp: list_all_iff)
  with r \<open>\<not> 0x20 \<le> bv c\<close> have "r = bv c" by (intro encode_rune_ascii_bytes) auto
  with r(1) \<open>\<not> 0x20 \<le> bv c\<close> show False by (auto dest!: kept_runes_no_control simp: IsControl_def)
qed

section \<open>Words are recovered from their concatenation\<close>

lemma rune_words_word: "w \<noteq> [] \<Longrightarrow> list_all (\<lambda>r. \<not> is_sep r) w \<Longrightarrow> rune_words w = [w]"
proof (induction w)
  case Nil
  then show ?case by simp
next
  case (Cons r w)
  then show ?case by (cases w) simp_all
qed

lemma rune_words_word_sep:
  "w \<noteq> [] \<Longrightarrow> list_all (\<lambda>r. \<not> is_sep r) w \<Longrightarrow> is_sep q \<Longrightarrow>
     rune_words (w @ q # rs) = w # rune_words rs"
proof (induction w)
  case Nil
  then show ?case by simp
next
  case (Cons r w)
  then show ?case by (cases w) simp_all
qed

lemma rune_words_join:
  "(\<And>w. w \<in> set ws \<Longrightarrow> w \<noteq> [] \<and> list_all (\<lambda>r. \<not> is_sep r) w) \<Longrightarrow>
     rune_words (join_words ws) = ws"
proof (induction ws rule: join_words.induct)
  case 1
  then show ?case by simp
next
  case (2 w)
  then show ?case by (simp add: rune_words_word)
next
  case (3 w v vs)
  have "is_sep 32" by (simp add: is_sep_def)
  moreover have "rune_words (join_words (v # vs)) = v # vs" using 3 by simp
  ultimately show ?case using 3(2) [of w] by (simp add: rune_words_word_sep)
qed

lemma rune_words_idem: "rune_words (join_words (rune_words rs)) = rune_words rs"
  by (rule rune_words_join) (rule rune_words_ok)

lemma strip_runes_plain: "\<not> pictograph r \<Longrightarrow> strip_runes r = [r]"
  by (simp add: strip_runes_def pictograph_def)

lemma concat_strip_plain:
  "(\<And>r. r \<in> set rs \<Longrightarrow> \<not> pictograph r) \<Longrightarrow> concat (map strip_runes rs) = rs"
  by (induction rs) (simp_all add: strip_runes_plain)

lemma clean_runes_no_pictograph:
  assumes "StripEmoji opts" and "r \<in> set (clean_runes s opts)"
  shows "\<not> pictograph r"
proof -
  have "r = 32 \<or> r \<in> set (concat (map strip_runes (runes s)))"
    using assms set_join_rune_words by (fastforce simp: clean_runes_def)
  then show ?thesis using strip_runes_not_pictograph pictograph_ge [of 32] by auto
qed

lemma clean_runes_idem: "clean_runes (encode_runes (clean_runes s opts)) opts = clean_runes s opts"
proof -
  have "concat (map strip_runes (clean_runes s opts)) = clean_runes s opts" if "StripEmoji opts"
    using clean_runes_no_pictograph [OF that] by (rule concat_strip_plain)
  then have "clean_runes (encode_runes (clean_runes s opts)) opts =
      join_words (rune_words (clean_runes s opts))"
    by (simp add: clean_runes_def [of "encode_runes _"] clean_runes_valid)
  then show ?thesis by (simp add: clean_runes_def rune_words_idem)
qed

lemma Text_uncapped: "Text s (opts\<lparr>MaxBody := - 1\<rparr>) = encode_runes (clean_runes s opts)"
  by (simp add: Text_eq kept_runes_def body_cap_def clean_runes_def)

lemma kept_runes_all:
  "body_cap opts \<le> 0 \<or> int (length (encode_runes (clean_runes s opts))) \<le> body_cap opts \<Longrightarrow>
     kept_runes s opts = clean_runes s opts"
  by (auto simp: kept_runes_def intro!: take_fit_all)

lemma kept_runes_prefix: "\<exists>qs. clean_runes s opts = kept_runes s opts @ qs"
  using take_fit_prefix [of "clean_runes s opts"] by (auto simp: kept_runes_def)

lemma kept_runes_tidy:
  "single_spaced (kept_runes s opts)
   \<and> (kept_runes s opts \<noteq> [] \<longrightarrow> hd (kept_runes s opts) \<noteq> 32)
   \<and> (kept_runes s opts \<noteq> [] \<and> kept_runes s opts = clean_runes s opts \<longrightarrow> last (kept_runes s opts) \<noteq> 32)"
proof -
  obtain qs where qs: "clean_runes s opts = kept_runes s opts @ qs" using kept_runes_prefix by blast
  define ws where "ws = rune_words (if StripEmoji opts then concat (map strip_runes (runes s)) else runes s)"
  have clean: "clean_runes s opts = join_words ws" by (simp add: clean_runes_def ws_def)
  have tidy: "single_spaced (join_words ws)
     \<and> (ws \<noteq> [] \<longrightarrow> join_words ws \<noteq> [] \<and> hd (join_words ws) \<noteq> 32 \<and> last (join_words ws) \<noteq> 32)"
    unfolding ws_def by (rule join_words_tidy) (rule rune_words_ok)
  have "ws \<noteq> []" if "kept_runes s opts \<noteq> []" using that qs clean by auto
  with tidy qs clean show ?thesis
    by (metis hd_append2 single_spaced_prefix)
qed

section \<open>Emoji as Unicode has them\<close>

text \<open>
  What an emoji is, from the tables of the Unicode Character Database and not from the filter: the
  ranges of the properties \<open>Emoji_Presentation\<close> (drawn as a coloured pictograph by themselves) and
  \<open>Emoji\<close> (drawn so when a variation selector asks for it) of \<open>emoji-data.txt\<close> below U+1F000, the
  invisible components emoji sequences are built with, and the blocks of symbols and pictographs of
  \<open>Blocks.txt\<close>, which from U+1F000 on hold every emoji.
\<close>

definition in_ranges :: "(rune \<times> rune) list \<Rightarrow> rune \<Rightarrow> bool" where
  "in_ranges t r \<longleftrightarrow> list_ex (\<lambda>(lo, hi). lo \<le> r \<and> r \<le> hi) t"

definition unicode_emoji_presentation :: "(rune \<times> rune) list" where
  "unicode_emoji_presentation =
    [(0x231A, 0x231B), (0x23E9, 0x23EC), (0x23F0, 0x23F0), (0x23F3, 0x23F3), (0x25FD, 0x25FE),
     (0x2614, 0x2615), (0x2648, 0x2653), (0x267F, 0x267F), (0x2693, 0x2693), (0x26A1, 0x26A1),
     (0x26AA, 0x26AB), (0x26BD, 0x26BE), (0x26C4, 0x26C5), (0x26CE, 0x26CE), (0x26D4, 0x26D4),
     (0x26EA, 0x26EA), (0x26F2, 0x26F3), (0x26F5, 0x26F5), (0x26FA, 0x26FA), (0x26FD, 0x26FD),
     (0x2705, 0x2705), (0x270A, 0x270B), (0x2728, 0x2728), (0x274C, 0x274C), (0x274E, 0x274E),
     (0x2753, 0x2755), (0x2757, 0x2757), (0x2795, 0x2797), (0x27B0, 0x27B0), (0x27BF, 0x27BF),
     (0x2B1B, 0x2B1C), (0x2B50, 0x2B50), (0x2B55, 0x2B55)]"

definition unicode_emoji :: "(rune \<times> rune) list" where
  "unicode_emoji =
    [(0x23, 0x23), (0x2A, 0x2A), (0x30, 0x39), (0xA9, 0xA9), (0xAE, 0xAE), (0x203C, 0x203C),
     (0x2049, 0x2049), (0x2122, 0x2122), (0x2139, 0x2139), (0x2194, 0x2199), (0x21A9, 0x21AA),
     (0x231A, 0x231B), (0x2328, 0x2328), (0x23CF, 0x23CF), (0x23E9, 0x23F3), (0x23F8, 0x23FA),
     (0x24C2, 0x24C2), (0x25AA, 0x25AB), (0x25B6, 0x25B6), (0x25C0, 0x25C0), (0x25FB, 0x25FE),
     (0x2600, 0x2604), (0x260E, 0x260E), (0x2611, 0x2611), (0x2614, 0x2615), (0x2618, 0x2618),
     (0x261D, 0x261D), (0x2620, 0x2620), (0x2622, 0x2623), (0x2626, 0x2626), (0x262A, 0x262A),
     (0x262E, 0x262F), (0x2638, 0x263A), (0x2640, 0x2640), (0x2642, 0x2642), (0x2648, 0x2653),
     (0x265F, 0x2660), (0x2663, 0x2663), (0x2665, 0x2666), (0x2668, 0x2668), (0x267B, 0x267B),
     (0x267E, 0x267F), (0x2692, 0x2697), (0x2699, 0x2699), (0x269B, 0x269C), (0x26A0, 0x26A1),
     (0x26A7, 0x26A7), (0x26AA, 0x26AB), (0x26B0, 0x26B1), (0x26BD, 0x26BE), (0x26C4, 0x26C5),
     (0x26C8, 0x26C8), (0x26CE, 0x26CF), (0x26D1, 0x26D1), (0x26D3, 0x26D4), (0x26E9, 0x26EA),
     (0x26F0, 0x26F5), (0x26F7, 0x26FA), (0x26FD, 0x26FD), (0x2702, 0x2702), (0x2705, 0x2705),
     (0x2708, 0x270D), (0x270F, 0x270F), (0x2712, 0x2712), (0x2714, 0x2714), (0x2716, 0x2716),
     (0x271D, 0x271D), (0x2721, 0x2721), (0x2728, 0x2728), (0x2733, 0x2734), (0x2744, 0x2744),
     (0x2747, 0x2747), (0x274C, 0x274C), (0x274E, 0x274E), (0x2753, 0x2755), (0x2757, 0x2757),
     (0x2763, 0x2764), (0x2795, 0x2797), (0x27A1, 0x27A1), (0x27B0, 0x27B0), (0x27BF, 0x27BF),
     (0x2934, 0x2935), (0x2B05, 0x2B07), (0x2B1B, 0x2B1C), (0x2B50, 0x2B50), (0x2B55, 0x2B55),
     (0x3030, 0x3030), (0x303D, 0x303D), (0x3297, 0x3297), (0x3299, 0x3299)]"

text \<open>The zero width joiner, the two variation selectors and the combining keycap.\<close>

definition unicode_emoji_joiners :: "(rune \<times> rune) list" where
  "unicode_emoji_joiners = [(0x200D, 0x200D), (0xFE0E, 0xFE0E), (0xFE0F, 0xFE0F), (0x20E3, 0x20E3)]"

text \<open>Arrows; Miscellaneous Technical; Miscellaneous Symbols; Dingbats; Miscellaneous Symbols and
  Arrows; Mahjong Tiles; Domino Tiles; Playing Cards; the two Enclosed supplements (with the regional
  indicators); Miscellaneous Symbols and Pictographs (with the skin tones); Emoticons; Ornamental
  Dingbats; Transport and Map Symbols; Alchemical Symbols; Geometric Shapes Extended; Supplemental
  Arrows-C; Supplemental Symbols and Pictographs; Chess Symbols; Symbols and Pictographs Extended-A;
  Symbols for Legacy Computing.\<close>

definition unicode_symbol_blocks :: "(rune \<times> rune) list" where
  "unicode_symbol_blocks =
    [(0x2190, 0x21FF), (0x2300, 0x23FF), (0x2600, 0x26FF), (0x2700, 0x27BF), (0x2B00, 0x2BFF),
     (0x1F000, 0x1F02F), (0x1F030, 0x1F09F), (0x1F0A0, 0x1F0FF), (0x1F100, 0x1F1FF),
     (0x1F200, 0x1F2FF), (0x1F300, 0x1F5FF), (0x1F600, 0x1F64F), (0x1F650, 0x1F67F),
     (0x1F680, 0x1F6FF), (0x1F700, 0x1F77F), (0x1F780, 0x1F7FF), (0x1F800, 0x1F8FF),
     (0x1F900, 0x1F9FF), (0x1FA00, 0x1FA6F), (0x1FA70, 0x1FAFF), (0x1FB00, 0x1FBFF)]"

text \<open>The emoji of \<open>Emoji\<close> that lie outside the filter's ranges: signs that are drawn as text unless a
  variation selector follows, and the two medium small squares, which are not.\<close>

definition text_style_signs :: "(rune \<times> rune) list" where
  "text_style_signs =
    [(0x23, 0x23), (0x2A, 0x2A), (0x30, 0x39), (0xA9, 0xA9), (0xAE, 0xAE), (0x203C, 0x203C),
     (0x2049, 0x2049), (0x2122, 0x2122), (0x2139, 0x2139), (0x24C2, 0x24C2), (0x25AA, 0x25AB),
     (0x25B6, 0x25B6), (0x25C0, 0x25C0), (0x25FB, 0x25FE), (0x2934, 0x2935), (0x3030, 0x3030),
     (0x303D, 0x303D), (0x3297, 0x3297), (0x3299, 0x3299)]"

lemma in_ranges_isEmoji:
  assumes "list_all (\<lambda>(lo, hi). list_ex (\<lambda>(a, b). a \<le> lo \<and> hi \<le> b) u) t" and "in_ranges t r"
  shows "in_ranges u r"
proof -
  obtain lo hi where lo: "(lo, hi) \<in> set t" "lo \<le> r" "r \<le> hi"
    using assms(2) by (auto simp: in_ranges_def list_ex_iff)
  then obtain a b where "(a, b) \<in> set u" "a \<le> lo" "hi \<le> b"
    using assms(1) by (fastforce simp: list_all_iff list_ex_iff)
  with lo show ?thesis by (auto simp: in_ranges_def list_ex_iff intro!: bexI [of _ "(a, b)"])
qed

lemma isEmoji_ranges:
  "isEmoji r = in_ranges (unicode_emoji_joiners @ [(0x1F3FB, 0x1F3FF), (0x1F1E6, 0x1F1FF), (0x2190, 0x21FF),
     (0x2300, 0x23FF), (0x2600, 0x27BF), (0x2B00, 0x2BFF), (0x1F000, 0x1FAFF), (0x1FB00, 0x1FBFF)]) r"
proof -
  have "r = a \<longleftrightarrow> a \<le> r \<and> r \<le> a" for a by auto
  note eq = this [of "0x200D"] this [of "0xFE0E"] this [of "0xFE0F"] this [of "0x20E3"]
  show ?thesis unfolding isEmoji_def in_ranges_def unicode_emoji_joiners_def eq
    by (simp only: list_ex_Nil_iff list_ex_Cons_iff append.simps prod.case simp_thms disj_assoc)
qed

lemma in_ranges_append: "in_ranges (t @ u) r \<longleftrightarrow> in_ranges t r \<or> in_ranges u r"
  by (auto simp: in_ranges_def)

lemma symbols_are_emoji: "in_ranges unicode_symbol_blocks r \<Longrightarrow> isEmoji r"
  unfolding isEmoji_ranges
  by (erule in_ranges_isEmoji [rotated]) (simp add: unicode_symbol_blocks_def unicode_emoji_joiners_def)

lemma joiners_are_emoji: "in_ranges unicode_emoji_joiners r \<Longrightarrow> isEmoji r"
  by (simp add: isEmoji_ranges in_ranges_append)

lemma presentation_covered: "in_ranges unicode_emoji_presentation r \<Longrightarrow> isEmoji r \<or> r \<in> {0x25FD, 0x25FE}"
proof -
  assume "in_ranges unicode_emoji_presentation r"
  then have "in_ranges (unicode_symbol_blocks @ [(0x25FD, 0x25FE)]) r"
    by (rule in_ranges_isEmoji [rotated]) (simp add: unicode_symbol_blocks_def unicode_emoji_presentation_def)
  then show ?thesis by (auto simp: in_ranges_append symbols_are_emoji) (auto simp: in_ranges_def)
qed

lemma emoji_covered: "in_ranges unicode_emoji r \<Longrightarrow> isEmoji r \<or> in_ranges text_style_signs r"
proof -
  assume "in_ranges unicode_emoji r"
  then have "in_ranges (unicode_symbol_blocks @ text_style_signs) r"
    by (rule in_ranges_isEmoji [rotated])
      (simp add: unicode_symbol_blocks_def unicode_emoji_def text_style_signs_def)
  then show ?thesis by (auto simp: in_ranges_append symbols_are_emoji)
qed

lemma kept_not_emoji: "StripEmoji opts \<Longrightarrow> r \<in> set (runes (Text s opts)) \<Longrightarrow> \<not> isEmoji r"
  using clean_runes_no_pictograph [of opts r s] by (auto simp: runes_Text pictograph_def dest: kept_runes_set)

text \<open>Latin, Greek, Cyrillic and the other alphabets below the punctuation block, and the Asian scripts.\<close>

definition letter_rune :: "rune \<Rightarrow> bool" where
  "letter_rune r \<longleftrightarrow> r < 0x2000 \<or> (0x2C00 \<le> r \<and> r < 0xFE00)"

lemma emojiTable_symbols: "commonEmoji r \<noteq> None \<Longrightarrow> in_ranges unicode_symbol_blocks r"
proof -
  assume "commonEmoji r \<noteq> None"
  then have "r \<in> fst ` set emojiTable" by (simp add: commonEmoji_def map_of_eq_None_iff)
  moreover have "list_all (\<lambda>r. in_ranges unicode_symbol_blocks r) (map fst emojiTable)"
    by (simp add: emojiTable_def in_ranges_def unicode_symbol_blocks_def)
  ultimately show ?thesis by (auto simp: list_all_iff)
qed

lemma letter_not_pictograph: "letter_rune r \<Longrightarrow> \<not> pictograph r"
proof -
  assume "letter_rune r"
  then have "\<not> isEmoji r" by (auto simp: letter_rune_def isEmoji_def)
  then show ?thesis unfolding pictograph_def using emojiTable_symbols [of r] symbols_are_emoji [of r] by blast
qed

section \<open>Properties\<close>

text \<open>C17: whatever the input bytes and options, a sanitised body is valid UTF-8, contains no control
  code point and no byte below 0x20: it cannot contain the newline that frames the protocol. It never
  starts with a space and never has two in a row; it does not end with one either, unless the size cap
  cut something off (a cut right after a space leaves it).\<close>

theorem Text_clean:
  "valid_utf8 (Text s opts) \<and> list_all (\<lambda>r. \<not> IsControl r) (runes (Text s opts))
     \<and> list_all (\<lambda>c. 0x20 \<le> bv c) (Text s opts)
     \<and> single_spaced (runes (Text s opts))
     \<and> (Text s opts \<noteq> [] \<longrightarrow> hd (runes (Text s opts)) \<noteq> 32)
     \<and> (Text s opts \<noteq> [] \<and> last (runes (Text s opts)) = 32 \<longrightarrow> Text s opts \<noteq> Text s (opts\<lparr>MaxBody := - 1\<rparr>))"
proof -
  have "kept_runes s opts \<noteq> []" if "Text s opts \<noteq> []" using that by (auto simp: Text_eq)
  moreover have "kept_runes s opts = clean_runes s opts" if "Text s opts = Text s (opts\<lparr>MaxBody := - 1\<rparr>)"
    using arg_cong [OF that, of runes] unfolding Text_uncapped runes_Text by (simp add: clean_runes_valid)
  ultimately show ?thesis
    using kept_runes_valid [of s opts] kept_runes_tidy [of s opts] unfolding runes_Text
    by (auto simp: Text_eq valid_utf8_encode list_all_iff
        dest: kept_runes_no_control Text_bytes [of _ s opts, unfolded Text_eq])
qed

theorem Text_clean_witness:
  "Text ''ab cd'' \<lparr>StripEmoji = False, MaxBody = 3\<rparr> = ''ab ''
     \<and> Text ''ab cd'' \<lparr>StripEmoji = False, MaxBody = 3\<rparr> \<noteq> Text ''ab cd'' \<lparr>StripEmoji = False, MaxBody = - 1\<rparr>"
proof -
  have s: "encode_runes [97, 98, 32, 99, 100] = ''ab cd''" by code_simp
  have "runes (encode_runes [97, 98, 32, 99, 100]) = [97, 98, 32, 99, 100]"
    by (rule runes_encode) (simp add: valid_rune_def)
  then have r: "runes ''ab cd'' = [97, 98, 32, 99, 100]" unfolding s .
  have k: "kept_runes ''ab cd'' \<lparr>StripEmoji = False, MaxBody = 3\<rparr> = [97, 98, 32]"
    unfolding kept_runes_def body_cap_def clean_runes_def r
    by (simp add: is_sep_def IsControl_def encode_rune_ascii)
  have "Text ''ab cd'' \<lparr>StripEmoji = False, MaxBody = 3\<rparr> = ''ab ''" unfolding Text_eq k by code_simp
  moreover have "last (runes (Text ''ab cd'' \<lparr>StripEmoji = False, MaxBody = 3\<rparr>)) = 32"
    unfolding runes_Text k by simp
  ultimately show ?thesis using Text_clean [of "''ab cd''" "\<lparr>StripEmoji = False, MaxBody = 3\<rparr>"] by simp
qed

text \<open>C18: with emoji stripping on, and emoji as the Unicode tables have them: no code point of the
  result is drawn as an emoji by itself, the two medium small squares U+25FD and U+25FE excepted; none
  joins or restyles emoji, and none is from the symbol and pictograph blocks, so that of the other
  emoji only signs are left that are drawn as text (and no variation selector is left to change that).
  A text of letters only is not touched: sanitising it is the same with and without stripping.\<close>

theorem Text_no_pictograph:
  assumes "StripEmoji opts"
  shows "list_all (\<lambda>r. \<not> in_ranges unicode_emoji_joiners r \<and> \<not> in_ranges unicode_symbol_blocks r
         \<and> (in_ranges unicode_emoji_presentation r \<longrightarrow> r = 0x25FD \<or> r = 0x25FE)
         \<and> (in_ranges unicode_emoji r \<longrightarrow> in_ranges text_style_signs r)) (runes (Text s opts))
     \<and> (list_all letter_rune (runes s) \<longrightarrow> Text s opts = Text s (opts\<lparr>StripEmoji := False\<rparr>))"
proof -
  have "clean_runes s opts = clean_runes s (opts\<lparr>StripEmoji := False\<rparr>)" if "list_all letter_rune (runes s)"
    using that concat_strip_plain [of "runes s"] letter_not_pictograph
    by (auto simp: clean_runes_def list_all_iff)
  moreover have "\<not> in_ranges unicode_emoji_joiners r \<and> \<not> in_ranges unicode_symbol_blocks r
      \<and> (in_ranges unicode_emoji_presentation r \<longrightarrow> r = 0x25FD \<or> r = 0x25FE)
      \<and> (in_ranges unicode_emoji r \<longrightarrow> in_ranges text_style_signs r)" if "\<not> isEmoji r" for r
    using that symbols_are_emoji [of r] joiners_are_emoji [of r] presentation_covered [of r] emoji_covered [of r]
    by blast
  ultimately show ?thesis
    using kept_not_emoji [OF assms] by (simp add: list_all_iff Text_eq kept_runes_def body_cap_def)
qed

theorem Text_no_pictograph_witness:
  "list_all (\<lambda>r. \<not> in_ranges unicode_symbol_blocks r)
     (runes (Text (encode_runes [0x1F525, 32, 0x2764, 0xFE0F]) \<lparr>StripEmoji = True, MaxBody = 0\<rparr>))"
  using Text_no_pictograph [of "\<lparr>StripEmoji = True, MaxBody = 0\<rparr>" "encode_runes [0x1F525, 32, 0x2764, 0xFE0F]"]
  by (auto simp: list_all_iff)

text \<open>The two squares do come through.\<close>

lemma square_survives:
  assumes "r \<in> {0x25FD, 0x25FE}"
  shows "Text (encode_rune r) \<lparr>StripEmoji = True, MaxBody = 0\<rparr> = encode_rune r"
proof -
  have "runes (encode_rune r) = [r]"
    using assms runes_encode_rune [of r "[]"] by (auto simp: valid_rune_def)
  moreover have "commonEmoji r = None" using assms by (auto simp: commonEmoji_def emojiTable_def)
  moreover have "length (encode_rune r) \<le> 4" using length_encode_rune by blast
  moreover have "\<not> isEmoji r" "\<not> is_sep r" using assms by (auto simp: isEmoji_def is_sep_def IsControl_def)
  ultimately show ?thesis
    by (simp add: Text_eq kept_runes_def body_cap_def clean_runes_def DefaultMaxBody_def strip_runes_def)
qed

text \<open>C19: the cap is respected and cuts as little as possible. With a non-negative
  \<open>MaxBody\<close> the result is a prefix of the uncapped result, of at most \<open>MaxBody\<close> bytes (8192
  when it is zero), cut at a rune boundary: it is valid UTF-8 and its runes are the first runes of
  the uncapped result. When anything was cut, the next rune would not have fitted, so fewer than four
  bytes of room are left.\<close>

theorem Text_cap:
  assumes "0 \<le> MaxBody opts"
  shows "\<exists>rest rs. Text s (opts\<lparr>MaxBody := - 1\<rparr>) = Text s opts @ rest
           \<and> valid_utf8 (Text s opts)
           \<and> runes (Text s (opts\<lparr>MaxBody := - 1\<rparr>)) = runes (Text s opts) @ rs \<and> (rest = [] \<longleftrightarrow> rs = [])
           \<and> int (length (Text s opts)) \<le> body_cap opts
           \<and> (rs \<noteq> [] \<longrightarrow> body_cap opts < int (length (Text s opts) + length (encode_rune (hd rs))))
           \<and> (rest \<noteq> [] \<longrightarrow> body_cap opts < int (length (Text s opts)) + 4)"
proof -
  have cap: "0 < body_cap opts" using assms by (simp add: body_cap_def DefaultMaxBody_def)
  let ?rs = "clean_runes s opts" and ?n = "nat (body_cap opts)"
  obtain qs where qs: "?rs = take_fit ?n ?rs @ qs" using take_fit_prefix by blast
  have kept: "kept_runes s opts = take_fit ?n ?rs" using cap by (simp add: kept_runes_def)
  have eq: "Text s opts = encode_runes (take_fit ?n ?rs)" by (simp add: Text_eq kept)
  have "encode_runes ?rs = Text s opts @ encode_runes qs"
    using arg_cong [OF qs, of encode_runes] by (simp add: eq)
  moreover have "runes (encode_runes ?rs) = runes (Text s opts) @ qs"
    unfolding runes_Text kept using qs by (simp add: clean_runes_valid)
  moreover have "int (length (Text s opts)) \<le> body_cap opts"
    using take_fit_length [of ?n ?rs] cap unfolding eq by linarith
  moreover have "body_cap opts < int (length (Text s opts) + length (encode_rune (hd qs)))" if "qs \<noteq> []"
    using that take_fit_next [of ?rs ?n "hd qs" "tl qs"] qs cap unfolding eq by simp
  moreover have "body_cap opts < int (length (Text s opts)) + 4" if "qs \<noteq> []"
  proof -
    have "take_fit ?n ?rs \<noteq> ?rs" using that qs by (metis append_self_conv)
    then show ?thesis using take_fit_tight [of ?n ?rs] cap unfolding eq by linarith
  qed
  moreover have "encode_runes qs = [] \<longleftrightarrow> qs = []" by (cases qs) simp_all
  moreover have "valid_utf8 (Text s opts)" using kept_runes_valid [of s opts] by (simp add: Text_eq valid_utf8_encode)
  ultimately show ?thesis unfolding Text_uncapped by blast
qed

theorem Text_cap_witness:
  "\<exists>rest. Text (replicate 3 CHR ''a'') \<lparr>StripEmoji = True, MaxBody = - 1\<rparr> =
       Text (replicate 3 CHR ''a'') \<lparr>StripEmoji = True, MaxBody = 2\<rparr> @ rest"
  using Text_cap [of "\<lparr>StripEmoji = True, MaxBody = 2\<rparr>" "replicate 3 CHR ''a''"] by auto

text \<open>The white-space folding loop computes what it is meant to: the maximal runs of
  code points that are neither controls nor spaces, joined by single spaces, with nothing
  before the first or after the last. Folding twice changes nothing.\<close>

theorem collapse_is_join_words:
  "collapse s = encode_runes (join_words (rune_words (runes s))) \<and> collapse (collapse s) = collapse s"
  by (simp add: collapse_eq join_rune_words_valid runes_valid rune_words_idem)

text \<open>Sanitising is idempotent when nothing is cut: a body that fits the cap after
  cleaning is unchanged by a second pass.\<close>

theorem Text_idempotent:
  assumes "int (length (Text s (opts\<lparr>MaxBody := - 1\<rparr>))) \<le> body_cap opts"
  shows "Text (Text s opts) opts = Text s opts"
proof -
  have "kept_runes s opts = clean_runes s opts"
    using assms unfolding Text_uncapped by (intro kept_runes_all) simp
  moreover have "kept_runes (encode_runes (clean_runes s opts)) opts = clean_runes s opts"
    using assms unfolding Text_uncapped by (subst kept_runes_all) (simp_all add: clean_runes_idem)
  ultimately show ?thesis by (simp add: Text_eq)
qed

lemmas eval_simps =
  strip_runes_def commonEmoji_def emojiTable_def isEmoji_def is_sep_def IsControl_def

lemma clean_example:
  "clean_runes (encode_runes [0x1F44D, 32, 32, 65]) \<lparr>StripEmoji = True, MaxBody = n\<rparr> =
     [0x2B, 0x31, 32, 65]"
  by (simp add: clean_runes_def valid_rune_def eval_simps del: encode_runes_simps)

theorem Text_idempotent_witness:
  "Text (Text (encode_runes [0x1F44D, 32, 32, 65]) \<lparr>StripEmoji = True, MaxBody = 0\<rparr>)
     \<lparr>StripEmoji = True, MaxBody = 0\<rparr> =
   Text (encode_runes [0x1F44D, 32, 32, 65]) \<lparr>StripEmoji = True, MaxBody = 0\<rparr>"
proof (rule Text_idempotent)
  show "int (length (Text (encode_runes [0x1F44D, 32, 32, 65])
      (\<lparr>StripEmoji = True, MaxBody = 0\<rparr>\<lparr>MaxBody := - 1\<rparr>)))
      \<le> body_cap \<lparr>StripEmoji = True, MaxBody = 0\<rparr>"
    unfolding Text_uncapped clean_example by (simp add: encode_rune_ascii body_cap_def DefaultMaxBody_def)
qed

lemma fire_zero_options:
  "Text (encode_rune 0x1F525) \<lparr>StripEmoji = False, MaxBody = 0\<rparr> = encode_rune 0x1F525"
proof -
  have e: "runes (encode_rune 0x1F525) = [0x1F525]"
    using runes_encode_rune [of "0x1F525" "[]"] by (simp add: valid_rune_def)
  have "length (encode_rune 0x1F525) \<le> 4" using length_encode_rune by blast
  with e show ?thesis
    by (simp add: Text_eq kept_runes_def body_cap_def clean_runes_def DefaultMaxBody_def
        is_sep_def IsControl_def)
qed

text \<open>The zero value of the options neither strips emoji nor lifts the cap: a fire
  emoji goes through unchanged, and no result is longer than 8192 bytes.\<close>

theorem Text_zero_options:
  "Text (encode_rune 0x1F525) \<lparr>StripEmoji = False, MaxBody = 0\<rparr> = encode_rune 0x1F525
     \<and> int (length (Text s \<lparr>StripEmoji = False, MaxBody = 0\<rparr>)) \<le> 8192"
proof
  show "Text (encode_rune 0x1F525) \<lparr>StripEmoji = False, MaxBody = 0\<rparr> = encode_rune 0x1F525"
    by (rule fire_zero_options)
  show "int (length (Text s \<lparr>StripEmoji = False, MaxBody = 0\<rparr>)) \<le> 8192"
    using take_fit_length [of 8192 "clean_runes s \<lparr>StripEmoji = False, MaxBody = 0\<rparr>"]
    by (simp add: Text_eq kept_runes_def body_cap_def DefaultMaxBody_def)
qed

section \<open>Messages\<close>

lemma sanitize_Message_fields [simp]:
  "mRoom (sanitize_Message m opts) = mRoom m"
  "mEvent (sanitize_Message m opts) = mEvent m"
  "mSender (sanitize_Message m opts) = mSender m"
  "mDisplay (sanitize_Message m opts) = mDisplay m"
  "mTS (sanitize_Message m opts) = mTS m"
  "mOwn (sanitize_Message m opts) = mOwn m"
  "mKind (sanitize_Message m opts) = mKind m"
  by (simp_all add: sanitize_Message_def split: option.split)

text \<open>Two wide code points in square brackets: the shape of every placeholder.\<close>

definition boxed :: "gostring \<Rightarrow> bool" where
  "boxed p \<longleftrightarrow> (\<exists>x y. 0x4000 \<le> x \<and> x < 0xA000 \<and> 0x4000 \<le> y \<and> y < 0xA000 \<and>
     p = encode_runes [0x5B, x, y, 0x5D])"

lemma boxedI:
  "0x4000 \<le> x \<Longrightarrow> x < 0xA000 \<Longrightarrow> 0x4000 \<le> y \<Longrightarrow> y < 0xA000 \<Longrightarrow>
     boxed (encode_runes [0x5B, x, y, 0x5D])"
  unfolding boxed_def by blast

lemma placeholder_boxed: "placeholder k = Some p \<Longrightarrow> boxed p"
  by (auto simp: placeholder_def simp del: encode_runes_simps intro!: boxedI split: if_splits)

lemma placeholder_length: "placeholder k = Some p \<Longrightarrow> length p = 8"
  by (drule placeholder_boxed) (auto simp: boxed_def encode_rune_def valid_rune_def)

lemma wide_rune_bytes:
  assumes "0x4000 \<le> x" and "x < 0xA000" and "c \<in> set (encode_rune x)"
  shows "0x20 \<le> bv c"
proof (rule ccontr)
  assume "\<not> 0x20 \<le> bv c"
  with assms have "x = bv c" by (intro encode_rune_ascii_bytes) (auto simp: valid_rune_def)
  with assms(1) \<open>\<not> 0x20 \<le> bv c\<close> show False by simp
qed

lemma placeholder_bytes:
  assumes "placeholder k = Some p" and "c \<in> set p"
  shows "0x20 \<le> bv c"
proof -
  from placeholder_boxed [OF assms(1)] obtain x y where
    "0x4000 \<le> x" "x < 0xA000" "0x4000 \<le> y" "y < 0xA000" "p = encode_runes [0x5B, x, y, 0x5D]"
    unfolding boxed_def by blast
  with assms(2) show ?thesis by (auto simp: encode_rune_ascii dest: wide_rune_bytes)
qed

lemma sanitize_Message_bytes: "c \<in> set (mBody (sanitize_Message m opts)) \<Longrightarrow> 0x20 \<le> bv c"
  by (auto simp: sanitize_Message_def split: option.splits dest: Text_bytes placeholder_bytes)

lemma Text_length_cap: "0 < body_cap opts \<Longrightarrow> int (length (Text s opts)) \<le> body_cap opts"
  using take_fit_length [of "nat (body_cap opts)" "clean_runes s opts"]
  unfolding Text_eq kept_runes_def by simp

lemma sanitize_Message_length:
  "8 \<le> body_cap opts \<Longrightarrow> int (length (mBody (sanitize_Message m opts))) \<le> body_cap opts"
  by (auto simp: sanitize_Message_def placeholder_length Text_length_cap split: option.split)

end
