(* ===== verification/StoreSpec.thy ===== *)
theory StoreSpec
  imports Model
begin

text \<open>
  The \<open>Store\<close> interface of \<open>internal/store/store.go\<close> and its contract. A Go interface value
  is a record of its methods over the implementation's state. The contract is an abstract
  store: per room, the retained messages in arrival order and the read marker (empty when
  none was set). The locale \<open>store_contract\<close> says that an implementation refines the
  abstract store, errors included; \<open>reliable_store\<close> adds that no operation fails.
\<close>

section \<open>The interface\<close>

record 'st store =
  AppendMessage :: "message \<Rightarrow> 'st \<Rightarrow> goerr option \<times> 'st"
  RecentMessages :: "gostring \<Rightarrow> int \<Rightarrow> 'st \<Rightarrow> (goerr + message list) \<times> 'st"
  UnreadCount :: "gostring \<Rightarrow> 'st \<Rightarrow> (goerr + int) \<times> 'st"
  SetReadMarker :: "gostring \<Rightarrow> gostring \<Rightarrow> 'st \<Rightarrow> goerr option \<times> 'st"

section \<open>The abstract store\<close>

type_synonym astore = "gostring \<Rightarrow> message list \<times> gostring"

definition a_log :: "astore \<Rightarrow> gostring \<Rightarrow> message list" where
  "a_log a r = fst (a r)"

definition a_marker :: "astore \<Rightarrow> gostring \<Rightarrow> gostring" where
  "a_marker a r = snd (a r)"

definition has_event :: "gostring \<Rightarrow> message list \<Rightarrow> bool" where
  "has_event ev ms \<longleftrightarrow> (\<exists>m\<in>set ms. mEvent m = ev)"

definition a_empty :: astore where
  "a_empty = (\<lambda>_. ([], []))"

definition a_insert :: "message \<Rightarrow> astore \<Rightarrow> astore" where
  "a_insert m a =
     (if has_event (mEvent m) (a_log a (mRoom m)) then a
      else a(mRoom m := (a_log a (mRoom m) @ [m], a_marker a (mRoom m))))"

definition a_append :: "nat \<Rightarrow> message \<Rightarrow> astore \<Rightarrow> astore" where
  "a_append c m a =
     (if has_event (mEvent m) (a_log a (mRoom m)) then a
      else a(mRoom m := (lastn c (a_log a (mRoom m) @ [m]), a_marker a (mRoom m))))"

definition a_recent :: "gostring \<Rightarrow> int \<Rightarrow> astore \<Rightarrow> message list" where
  "a_recent r limit a = (if limit \<le> 0 then a_log a r else lastn (nat limit) (a_log a r))"

text \<open>The messages after the marker; all of them when it is unset or unknown.\<close>

definition unseen :: "gostring \<Rightarrow> message list \<Rightarrow> message list" where
  "unseen mk ms =
     (if mk = [] then ms
      else case after_first (\<lambda>m. mEvent m = mk) ms of None \<Rightarrow> ms | Some rest \<Rightarrow> rest)"

definition a_unread :: "gostring \<Rightarrow> astore \<Rightarrow> int" where
  "a_unread r a = int (length (filter (\<lambda>m. \<not> mOwn m) (unseen (a_marker a r) (a_log a r))))"

definition a_mark :: "gostring \<Rightarrow> gostring \<Rightarrow> astore \<Rightarrow> astore" where
  "a_mark r ev a =
     (if ev = [] then
        (if a_log a r = [] then a else a(r := (a_log a r, mEvent (last (a_log a r)))))
      else a(r := (a_log a r, ev)))"

text \<open>Every retained message is in its own room, under a non-empty event ID of its own.\<close>

definition log_ok :: "gostring \<Rightarrow> message list \<Rightarrow> bool" where
  "log_ok r ms \<longleftrightarrow> distinct (map mEvent ms) \<and> (\<forall>m\<in>set ms. mRoom m = r \<and> mEvent m \<noteq> [])"

definition a_wf :: "astore \<Rightarrow> bool" where
  "a_wf a \<longleftrightarrow> (\<forall>r. log_ok r (a_log a r))"

lemma log_ok_Nil [simp]: "log_ok r []"
  by (simp add: log_ok_def)

lemma log_ok_lastn: "log_ok r ms \<Longrightarrow> log_ok r (lastn c ms)"
  by (auto simp: log_ok_def lastn_map [symmetric] distinct_lastn dest: in_set_lastn)

lemma log_ok_snoc:
  "log_ok r ms \<Longrightarrow> mRoom m = r \<Longrightarrow> mEvent m \<noteq> [] \<Longrightarrow> \<not> has_event (mEvent m) ms \<Longrightarrow>
     log_ok r (ms @ [m])"
  by (auto simp: log_ok_def has_event_def)

lemma a_log_upd [store_simps]: "a_log (a(r := (ms, mk))) q = (if q = r then ms else a_log a q)"
  by (simp add: a_log_def)

lemma a_marker_upd [store_simps]:
  "a_marker (a(r := (ms, mk))) q = (if q = r then mk else a_marker a q)"
  by (simp add: a_marker_def)

lemma a_upd_same: "a_log a r = ms \<Longrightarrow> a_marker a r = mk \<Longrightarrow> a(r := (ms, mk)) = a"
  by (auto simp: a_log_def a_marker_def)

lemma a_log_empty [store_simps]: "a_log a_empty r = []" "a_marker a_empty r = []"
  by (simp_all add: a_empty_def a_log_def a_marker_def)

lemma astore_eqI: "(\<And>r. a_log a r = a_log b r) \<Longrightarrow> (\<And>r. a_marker a r = a_marker b r) \<Longrightarrow> a = b"
  by (auto simp: fun_eq_iff a_log_def a_marker_def prod_eq_iff)

lemma a_log_append [store_simps]:
  "a_log (a_append c m a) r =
     (if r = mRoom m \<and> \<not> has_event (mEvent m) (a_log a r)
      then lastn c (a_log a r @ [m]) else a_log a r)"
  by (auto simp: a_append_def a_log_upd)

lemma a_marker_append [store_simps]: "a_marker (a_append c m a) r = a_marker a r"
  by (auto simp: a_append_def a_marker_upd)

lemma a_log_mark [store_simps]: "a_log (a_mark r ev a) q = a_log a q"
  by (auto simp: a_mark_def a_log_upd)

lemma a_marker_mark [store_simps]:
  "a_marker (a_mark r ev a) q =
     (if q = r \<and> (ev \<noteq> [] \<or> a_log a r \<noteq> [])
      then (if ev = [] then mEvent (last (a_log a r)) else ev) else a_marker a q)"
  by (auto simp: a_mark_def a_marker_upd)

lemma has_event_map: "has_event ev ms \<longleftrightarrow> ev \<in> set (map mEvent ms)"
  by (auto simp: has_event_def)

lemma a_wf_empty: "a_wf a_empty"
  by (simp add: a_wf_def store_simps)

lemma a_wf_insert: "a_wf a \<Longrightarrow> mEvent m \<noteq> [] \<Longrightarrow> a_wf (a_insert m a)"
  by (simp add: a_wf_def a_insert_def a_log_upd log_ok_snoc)

lemma a_wf_append: "a_wf a \<Longrightarrow> mEvent m \<noteq> [] \<Longrightarrow> a_wf (a_append c m a)"
  by (simp add: a_wf_def a_log_append log_ok_snoc log_ok_lastn)

lemma a_wf_mark: "a_wf a \<Longrightarrow> a_wf (a_mark r ev a)"
  by (simp add: a_wf_def a_log_mark)

section \<open>Unread counts\<close>

lemma unseen_suffix: "\<exists>us. ms = us @ unseen mk ms"
proof (cases "mk = [] \<or> after_first (\<lambda>m. mEvent m = mk) ms = None")
  case True
  then show ?thesis by (auto simp: unseen_def)
next
  case False
  then obtain rest where rest: "after_first (\<lambda>m. mEvent m = mk) ms = Some rest" by auto
  from after_first_SomeD [OF rest] obtain us u where "ms = (us @ [u]) @ rest" by auto
  then show ?thesis using False rest by (auto simp: unseen_def)
qed

lemma unseen_subset: "set (unseen mk ms) \<subseteq> set ms"
  using unseen_suffix [of ms mk] by (metis Un_upper2 set_append)

lemma a_unread_nonneg: "0 \<le> a_unread r a"
  by (simp add: a_unread_def)

lemma a_unread_le: "a_unread r a \<le> int (length (filter (\<lambda>m. \<not> mOwn m) (a_log a r)))"
proof -
  obtain us where "a_log a r = us @ unseen (a_marker a r) (a_log a r)"
    using unseen_suffix by blast
  then have "length (filter (\<lambda>m. \<not> mOwn m) (unseen (a_marker a r) (a_log a r)))
      \<le> length (filter (\<lambda>m. \<not> mOwn m) (a_log a r))"
    by (metis length_filter_le_append)
  then show ?thesis by (simp add: a_unread_def)
qed

lemma unseen_at:
  assumes "log_ok r (us @ x # rest)"
  shows "unseen (mEvent x) (us @ x # rest) = rest"
proof -
  have "mEvent x \<notin> mEvent ` set us" using assms by (simp add: log_ok_def)
  then have "\<forall>y\<in>set us. mEvent y \<noteq> mEvent x" by (metis imageI)
  with assms show ?thesis by (auto simp: unseen_def log_ok_def after_first_SomeI)
qed

lemma unseen_last: "ms \<noteq> [] \<Longrightarrow> log_ok r ms \<Longrightarrow> unseen (mEvent (last ms)) ms = []"
  using unseen_at [of r "butlast ms" "last ms" "[]"] by simp

lemma unseen_snoc:
  assumes "mEvent m \<noteq> mk"
  shows "unseen mk (ms @ [m]) = unseen mk ms @ [m]"
  using assms by (auto simp: unseen_def after_first_append split: option.split)

lemma a_unread_mark_all: "a_wf a \<Longrightarrow> a_unread r (a_mark r [] a) = 0"
proof -
  assume wf: "a_wf a"
  show "a_unread r (a_mark r [] a) = 0"
  proof (cases "a_log a r = []")
    case True
    then show ?thesis
      by (simp add: a_unread_def a_log_mark unseen_def split: option.split)
  next
    case False
    with wf show ?thesis
      using unseen_last [of "a_log a r" r] by (simp add: a_unread_def store_simps a_wf_def)
  qed
qed

lemma a_unread_append_fresh:
  assumes "\<not> has_event (mEvent m) (a_log a (mRoom m))" and "length (a_log a (mRoom m)) < c"
    and "a_marker a (mRoom m) \<noteq> mEvent m"
  shows "a_unread (mRoom m) (a_append c m a) =
           a_unread (mRoom m) a + (if mOwn m then 0 else 1)"
proof -
  have "lastn c (a_log a (mRoom m) @ [m]) = a_log a (mRoom m) @ [m]"
    using assms(2) by simp
  with assms show ?thesis by (simp add: a_unread_def store_simps unseen_snoc)
qed

section \<open>The contract\<close>

locale store_contract =
  fixes ops :: "'st store"
    and abs :: "'st \<Rightarrow> astore"
    and inv :: "'st \<Rightarrow> bool"
    and cap :: "'st \<Rightarrow> nat"
  assumes inv_wf: "inv s \<Longrightarrow> a_wf (abs s)"
    and cap_pos: "inv s \<Longrightarrow> 0 < cap s"
    and append_ok: "inv s \<Longrightarrow> mEvent m \<noteq> [] \<Longrightarrow> AppendMessage ops m s = (None, s') \<Longrightarrow>
      inv s' \<and> cap s' = cap s \<and> abs s' = a_append (cap s) m (abs s)"
    and append_err: "inv s \<Longrightarrow> mEvent m \<noteq> [] \<Longrightarrow> AppendMessage ops m s = (Some e, s') \<Longrightarrow>
      inv s' \<and> cap s' = cap s \<and> (abs s' = abs s \<or> abs s' = a_insert m (abs s))"
    and recent_ok: "inv s \<Longrightarrow> RecentMessages ops r limit s = (Inr ms, s') \<Longrightarrow>
      inv s' \<and> cap s' = cap s \<and> abs s' = abs s \<and> ms = a_recent r limit (abs s)"
    and recent_err: "inv s \<Longrightarrow> RecentMessages ops r limit s = (Inl e, s') \<Longrightarrow>
      inv s' \<and> cap s' = cap s \<and> abs s' = abs s"
    and unread_ok: "inv s \<Longrightarrow> UnreadCount ops r s = (Inr n, s') \<Longrightarrow>
      inv s' \<and> cap s' = cap s \<and> abs s' = abs s \<and> n = a_unread r (abs s)"
    and unread_err: "inv s \<Longrightarrow> UnreadCount ops r s = (Inl e, s') \<Longrightarrow>
      inv s' \<and> cap s' = cap s \<and> abs s' = abs s"
    and mark_ok: "inv s \<Longrightarrow> SetReadMarker ops r ev s = (None, s') \<Longrightarrow>
      inv s' \<and> cap s' = cap s \<and> abs s' = a_mark r ev (abs s)"
    and mark_err: "inv s \<Longrightarrow> SetReadMarker ops r ev s = (Some e, s') \<Longrightarrow>
      inv s' \<and> cap s' = cap s \<and> abs s' = abs s"
begin

lemma append_inv: "inv s \<Longrightarrow> mEvent m \<noteq> [] \<Longrightarrow> AppendMessage ops m s = (e, s') \<Longrightarrow> inv s'"
  by (cases e) (auto dest: append_ok append_err)

lemma mark_inv: "inv s \<Longrightarrow> SetReadMarker ops r ev s = (e, s') \<Longrightarrow> inv s'"
  by (cases e) (auto dest: mark_ok mark_err)

lemma unread_frame: "inv s \<Longrightarrow> UnreadCount ops r s = (x, s') \<Longrightarrow>
    inv s' \<and> cap s' = cap s \<and> abs s' = abs s"
  by (cases x) (auto dest: unread_ok unread_err)

lemma recent_frame: "inv s \<Longrightarrow> RecentMessages ops r limit s = (x, s') \<Longrightarrow>
    inv s' \<and> cap s' = cap s \<and> abs s' = abs s"
  by (cases x) (auto dest: recent_ok recent_err)

end

section \<open>Runs of store operations\<close>

datatype store_op =
    OpAppend message
  | OpRecent gostring int
  | OpUnread gostring
  | OpMark gostring gostring

datatype store_answer =
    AnsDone "goerr option"
  | AnsMessages "goerr + message list"
  | AnsCount "goerr + int"

fun store_exec :: "'st store \<Rightarrow> store_op \<Rightarrow> 'st \<Rightarrow> store_answer \<times> 'st" where
  "store_exec ops (OpAppend m) s = (case AppendMessage ops m s of (e, s') \<Rightarrow> (AnsDone e, s'))"
| "store_exec ops (OpRecent r limit) s =
     (case RecentMessages ops r limit s of (x, s') \<Rightarrow> (AnsMessages x, s'))"
| "store_exec ops (OpUnread r) s = (case UnreadCount ops r s of (x, s') \<Rightarrow> (AnsCount x, s'))"
| "store_exec ops (OpMark r ev) s =
     (case SetReadMarker ops r ev s of (e, s') \<Rightarrow> (AnsDone e, s'))"

fun store_run :: "'st store \<Rightarrow> store_op list \<Rightarrow> 'st \<Rightarrow> store_answer list" where
  "store_run ops [] s = []"
| "store_run ops (p # ps) s =
     (case store_exec ops p s of (x, s') \<Rightarrow> x # store_run ops ps s')"

text \<open>The same run on the abstract store of capacity \<open>c\<close>.\<close>

fun a_exec :: "nat \<Rightarrow> store_op \<Rightarrow> astore \<Rightarrow> store_answer \<times> astore" where
  "a_exec c (OpAppend m) a = (AnsDone None, a_append c m a)"
| "a_exec c (OpRecent r limit) a = (AnsMessages (Inr (a_recent r limit a)), a)"
| "a_exec c (OpUnread r) a = (AnsCount (Inr (a_unread r a)), a)"
| "a_exec c (OpMark r ev) a = (AnsDone None, a_mark r ev a)"

fun a_run :: "nat \<Rightarrow> store_op list \<Rightarrow> astore \<Rightarrow> store_answer list" where
  "a_run c [] a = []"
| "a_run c (p # ps) a = (case a_exec c p a of (x, a') \<Rightarrow> x # a_run c ps a')"

fun op_ok :: "store_op \<Rightarrow> bool" where
  "op_ok (OpAppend m) \<longleftrightarrow> mEvent m \<noteq> []"
| "op_ok _ \<longleftrightarrow> True"

locale reliable_store = store_contract +
  assumes append_total: "inv s \<Longrightarrow> mEvent m \<noteq> [] \<Longrightarrow> fst (AppendMessage ops m s) = None"
    and recent_total: "inv s \<Longrightarrow> \<exists>ms. fst (RecentMessages ops r limit s) = Inr ms"
    and unread_total: "inv s \<Longrightarrow> \<exists>n. fst (UnreadCount ops r s) = Inr n"
    and mark_total: "inv s \<Longrightarrow> fst (SetReadMarker ops r ev s) = None"
begin

lemma exec_refines:
  assumes "inv s" and "op_ok p"
  shows "\<exists>s'. store_exec ops p s = (fst (a_exec (cap s) p (abs s)), s') \<and> inv s' \<and> cap s' = cap s
           \<and> abs s' = snd (a_exec (cap s) p (abs s))"
proof (cases p)
  case (OpAppend m)
  with assms append_total [of s m] append_ok [of s m "snd (AppendMessage ops m s)"] show ?thesis
    by (cases "AppendMessage ops m s") auto
next
  case (OpRecent r limit)
  obtain ms s' where e: "RecentMessages ops r limit s = (Inr ms, s')"
    using recent_total [OF assms(1), of r limit] by (cases "RecentMessages ops r limit s") auto
  with recent_ok [OF assms(1) e] OpRecent show ?thesis by simp
next
  case (OpUnread r)
  obtain n s' where e: "UnreadCount ops r s = (Inr n, s')"
    using unread_total [OF assms(1), of r] by (cases "UnreadCount ops r s") auto
  with unread_ok [OF assms(1) e] OpUnread show ?thesis by simp
next
  case (OpMark r ev)
  with assms mark_total [of s r ev] mark_ok [of s r ev "snd (SetReadMarker ops r ev s)"] show ?thesis
    by (cases "SetReadMarker ops r ev s") auto
qed

lemma run_refines:
  "inv s \<Longrightarrow> list_all op_ok ps \<Longrightarrow> store_run ops ps s = a_run (cap s) ps (abs s)"
proof (induction ps arbitrary: s)
  case Nil
  then show ?case by simp
next
  case (Cons p ps)
  obtain s' where s': "store_exec ops p s = (fst (a_exec (cap s) p (abs s)), s')" "inv s'"
    "cap s' = cap s" "abs s' = snd (a_exec (cap s) p (abs s))"
    using exec_refines [of s p] Cons.prems by auto
  with Cons.IH [of s'] Cons.prems show ?case
    by (cases "a_exec (cap s) p (abs s)") simp
qed

end

end
