(* ===== verification/StoreMemory.thy ===== *)
theory StoreMemory
  imports StoreSpec
begin

text \<open>
  \<open>internal/store/memory.go\<close>: the bounded in-memory store. The state is the capacity and
  the map of room logs; \<open>m.log\<close> creates a log on first use, so it returns the state too.
  Every method holds the mutex for its whole body, so each is one atomic operation. The
  last section proves that the store satisfies the contract of \<open>StoreSpec\<close> and never fails.
\<close>

section \<open>Definitions\<close>

definition DefaultCapacity :: int where
  "DefaultCapacity = 500"

record roomLog =
  messages :: "message list"
  readMarker :: gostring

record memory =
  mem_capacity :: int
  mem_rooms :: "gostring \<rightharpoonup> roomLog"

definition NewMemory :: "int \<Rightarrow> memory" where
  "NewMemory capacity =
     \<lparr>mem_capacity = (if capacity \<le> 0 then DefaultCapacity else capacity),
      mem_rooms = Map.empty\<rparr>"

definition mem_log :: "memory \<Rightarrow> gostring \<Rightarrow> roomLog \<times> memory" where
  "mem_log m roomID =
     (case mem_rooms m roomID of
        Some r \<Rightarrow> (r, m)
      | None \<Rightarrow>
          (let r = \<lparr>messages = [], readMarker = []\<rparr>
           in (r, m\<lparr>mem_rooms := (mem_rooms m)(roomID \<mapsto> r)\<rparr>)))"

text \<open>\<open>r\<close> is a pointer into the map, so assigning to its fields updates the map.\<close>

definition mem_put :: "memory \<Rightarrow> gostring \<Rightarrow> roomLog \<Rightarrow> memory" where
  "mem_put m roomID r = m\<lparr>mem_rooms := (mem_rooms m)(roomID \<mapsto> r)\<rparr>"

definition drop_over :: "int \<Rightarrow> message list \<Rightarrow> message list" where
  "drop_over capacity msgs =
     (let over = int (length msgs) - capacity in if over > 0 then drop (nat over) msgs else msgs)"

definition mem_AppendMessage :: "message \<Rightarrow> memory \<Rightarrow> goerr option \<times> memory" where
  "mem_AppendMessage msg m =
     (let (r, m) = mem_log m (mRoom msg) in
      if list_ex (\<lambda>existing. mEvent existing = mEvent msg) (messages r) then (None, m)
      else (None, mem_put m (mRoom msg)
                   (r\<lparr>messages := drop_over (mem_capacity m) (messages r @ [msg])\<rparr>)))"

definition mem_RecentMessages ::
  "gostring \<Rightarrow> int \<Rightarrow> memory \<Rightarrow> (goerr + message list) \<times> memory" where
  "mem_RecentMessages roomID limit m =
     (case mem_rooms m roomID of
        None \<Rightarrow> (Inr [], m)
      | Some r \<Rightarrow>
          let len = int (length (messages r));
              limit = (if limit \<le> 0 \<or> limit > len then len else limit)
          in (Inr (drop (nat (len - limit)) (messages r)), m))"

text \<open>The scan for the marker: the index after the first match, 0 when there is none.\<close>

fun marker_start :: "message list \<Rightarrow> gostring \<Rightarrow> nat \<Rightarrow> nat" where
  "marker_start [] mk i = 0"
| "marker_start (msg # msgs) mk i =
     (if mEvent msg = mk then i + 1 else marker_start msgs mk (i + 1))"

fun count_loop :: "message list \<Rightarrow> int \<Rightarrow> int" where
  "count_loop [] n = n"
| "count_loop (msg # msgs) n = count_loop msgs (if \<not> mOwn msg then n + 1 else n)"

definition countUnread :: "roomLog \<Rightarrow> int" where
  "countUnread r =
     (let start = (if readMarker r \<noteq> [] then marker_start (messages r) (readMarker r) 0 else 0)
      in count_loop (drop start (messages r)) 0)"

definition mem_UnreadCount :: "gostring \<Rightarrow> memory \<Rightarrow> (goerr + int) \<times> memory" where
  "mem_UnreadCount roomID m =
     (case mem_rooms m roomID of
        None \<Rightarrow> (Inr 0, m)
      | Some r \<Rightarrow> (Inr (countUnread r), m))"

definition mem_SetReadMarker :: "gostring \<Rightarrow> gostring \<Rightarrow> memory \<Rightarrow> goerr option \<times> memory" where
  "mem_SetReadMarker roomID eventID m =
     (let (r, m) = mem_log m roomID in
      if eventID = [] then
        (if length (messages r) > 0
         then (None, mem_put m roomID (r\<lparr>readMarker := mEvent (last (messages r))\<rparr>))
         else (None, m))
      else (None, mem_put m roomID (r\<lparr>readMarker := eventID\<rparr>)))"

definition memory_store :: "memory store" where
  "memory_store =
     \<lparr>AppendMessage = mem_AppendMessage, RecentMessages = mem_RecentMessages,
      UnreadCount = mem_UnreadCount, SetReadMarker = mem_SetReadMarker\<rparr>"

section \<open>Refinement of the abstract store\<close>

definition mem_abs :: "memory \<Rightarrow> astore" where
  "mem_abs m = (\<lambda>r. case mem_rooms m r of None \<Rightarrow> ([], []) | Some l \<Rightarrow> (messages l, readMarker l))"

definition mem_cap :: "memory \<Rightarrow> nat" where
  "mem_cap m = nat (mem_capacity m)"

definition mem_inv :: "memory \<Rightarrow> bool" where
  "mem_inv m \<longleftrightarrow> 0 < mem_capacity m \<and> a_wf (mem_abs m)
     \<and> (\<forall>r. length (a_log (mem_abs m) r) \<le> mem_cap m)"

lemma mem_abs_put [simp]: "mem_abs (mem_put m r l) = (mem_abs m)(r := (messages l, readMarker l))"
  by (auto simp: mem_abs_def mem_put_def)

lemma mem_cap_put [simp]: "mem_capacity (mem_put m r l) = mem_capacity m" "mem_cap (mem_put m r l) = mem_cap m"
  by (simp_all add: mem_put_def mem_cap_def)

lemma mem_logD:
  assumes "mem_log m r = (l, m')"
  shows "messages l = a_log (mem_abs m) r" "readMarker l = a_marker (mem_abs m) r"
    "mem_abs m' = mem_abs m" "mem_capacity m' = mem_capacity m"
  using assms
  by (auto simp: mem_log_def mem_abs_def a_log_def a_marker_def Let_def split: option.splits)

lemma mem_log_eta: "mem_log m r = (\<lparr>messages = a_log (mem_abs m) r, readMarker = a_marker (mem_abs m) r\<rparr>,
    snd (mem_log m r))"
  by (auto simp: mem_log_def mem_abs_def a_log_def a_marker_def Let_def split: option.splits)

lemma list_ex_has_event: "list_ex (\<lambda>e. mEvent e = ev) ms = has_event ev ms"
  by (simp add: list_ex_iff has_event_def)

lemma drop_over_lastn: "0 \<le> c \<Longrightarrow> drop_over c ms = lastn (nat c) ms"
proof (cases "int (length ms) \<le> c")
  case True
  then show ?thesis by (simp add: drop_over_def)
next
  case False
  moreover assume "0 \<le> c"
  ultimately have "nat (int (length ms) - c) = length ms - nat c" by linarith
  with False show ?thesis by (simp add: drop_over_def lastn_def Let_def)
qed

lemma mem_append_abs:
  assumes "mem_inv m" and "mEvent msg \<noteq> []"
  shows "\<exists>m'. mem_AppendMessage msg m = (None, m') \<and> mem_capacity m' = mem_capacity m
           \<and> mem_abs m' = a_append (mem_cap m) msg (mem_abs m)"
proof -
  let ?a = "mem_abs m" and ?r = "mRoom msg"
  obtain l m1 where l: "mem_log m ?r = (l, m1)" by fastforce
  note d = mem_logD [OF l]
  show ?thesis
  proof (cases "has_event (mEvent msg) (a_log ?a ?r)")
    case True
    then have "mem_AppendMessage msg m = (None, m1)"
      by (simp add: mem_AppendMessage_def l d list_ex_has_event)
    with True d show ?thesis by (simp add: a_append_def)
  next
    case False
    have "0 \<le> mem_capacity m" using assms(1) by (simp add: mem_inv_def)
    then have "mem_AppendMessage msg m = (None, mem_put m1 ?r
        (l\<lparr>messages := lastn (mem_cap m) (a_log ?a ?r @ [msg])\<rparr>))"
      using False by (simp add: mem_AppendMessage_def l d list_ex_has_event drop_over_lastn mem_cap_def)
    with False d show ?thesis by (simp add: a_append_def)
  qed
qed

lemma mem_recent_abs:
  "mem_inv m \<Longrightarrow> mem_RecentMessages r limit m = (Inr (a_recent r limit (mem_abs m)), m)"
proof (cases "mem_rooms m r")
  case None
  then show ?thesis by (simp add: mem_RecentMessages_def a_recent_def mem_abs_def a_log_def)
next
  case (Some l)
  then have l: "a_log (mem_abs m) r = messages l" by (simp add: mem_abs_def a_log_def)
  have "drop (nat (int (length (messages l)) - limit)) (messages l) = lastn (nat limit) (messages l)"
    if "0 < limit" "limit \<le> int (length (messages l))"
  proof -
    have "nat (int (length (messages l)) - limit) = length (messages l) - nat limit"
      using that by linarith
    then show ?thesis by (simp add: lastn_def)
  qed
  moreover have "lastn (nat limit) (messages l) = messages l" if "int (length (messages l)) < limit"
    using that by (intro lastn_all) linarith
  ultimately show ?thesis
    using Some by (auto simp: mem_RecentMessages_def a_recent_def l Let_def)
qed

lemma marker_start_after:
  "marker_start ms mk i =
     (case after_first (\<lambda>m. mEvent m = mk) ms of None \<Rightarrow> 0 | Some rest \<Rightarrow> i + length ms - length rest)"
proof (induction ms arbitrary: i)
  case Nil
  then show ?case by simp
next
  case (Cons m ms)
  then show ?case by (auto split: option.split)
qed

lemma drop_marker_start:
  "drop (marker_start ms mk 0) ms =
     (case after_first (\<lambda>m. mEvent m = mk) ms of None \<Rightarrow> ms | Some rest \<Rightarrow> rest)"
proof (cases "after_first (\<lambda>m. mEvent m = mk) ms")
  case None
  then show ?thesis by (simp add: marker_start_after)
next
  case (Some rest)
  from after_first_SomeD [OF this] obtain us u where "ms = (us @ [u]) @ rest" by auto
  with Some show ?thesis by (simp add: marker_start_after)
qed

lemma count_loop_eq: "count_loop ms n = n + int (length (filter (\<lambda>m. \<not> mOwn m) ms))"
  by (induction ms arbitrary: n) simp_all

lemma countUnread_eq:
  "countUnread l = int (length (filter (\<lambda>m. \<not> mOwn m) (unseen (readMarker l) (messages l))))"
  by (simp add: countUnread_def Let_def count_loop_eq drop_marker_start unseen_def)

lemma mem_unread_abs: "mem_UnreadCount r m = (Inr (a_unread r (mem_abs m)), m)"
  by (auto simp: mem_UnreadCount_def countUnread_eq a_unread_def mem_abs_def a_log_def a_marker_def
      unseen_def split: option.split)

lemma mem_mark_abs:
  "\<exists>m'. mem_SetReadMarker r ev m = (None, m') \<and> mem_capacity m' = mem_capacity m
     \<and> mem_abs m' = a_mark r ev (mem_abs m)"
proof -
  obtain l m1 where l: "mem_log m r = (l, m1)" by fastforce
  show ?thesis
    using mem_logD [OF l] by (auto simp: mem_SetReadMarker_def l a_mark_def)
qed

lemma mem_inv_abs:
  assumes "mem_inv m" and "mem_capacity m' = mem_capacity m" and "a_wf (mem_abs m')"
    and "\<And>r. length (a_log (mem_abs m') r) \<le> mem_cap m"
  shows "mem_inv m'"
  using assms by (simp add: mem_inv_def mem_cap_def)

lemma mem_inv_append:
  assumes "mem_inv m" "mEvent msg \<noteq> []" "mem_capacity m' = mem_capacity m"
    "mem_abs m' = a_append (mem_cap m) msg (mem_abs m)"
  shows "mem_inv m'"
  using assms(1,3)
proof (rule mem_inv_abs)
  show "a_wf (mem_abs m')" using assms by (simp add: mem_inv_def a_wf_append)
  show "length (a_log (mem_abs m') r) \<le> mem_cap m" for r
    using assms by (simp add: mem_inv_def store_simps)
qed

lemma mem_inv_mark:
  assumes "mem_inv m" "mem_capacity m' = mem_capacity m" "mem_abs m' = a_mark r ev (mem_abs m)"
  shows "mem_inv m'"
  using assms by (intro mem_inv_abs [OF assms(1)]) (simp_all add: mem_inv_def a_wf_mark store_simps)

lemma memory_store_sel [simp]:
  "AppendMessage memory_store = mem_AppendMessage"
  "RecentMessages memory_store = mem_RecentMessages"
  "UnreadCount memory_store = mem_UnreadCount"
  "SetReadMarker memory_store = mem_SetReadMarker"
  by (simp_all add: memory_store_def)

interpretation mem: reliable_store memory_store mem_abs mem_inv mem_cap
proof (unfold_locales, goal_cases)
  case (3 s m s')
  then show ?case using mem_append_abs [of s m] mem_inv_append by (auto simp: mem_cap_def)
next
  case (4 s m e s')
  then show ?case using mem_append_abs [of s m] by auto
next
  case (9 s r ev s')
  then show ?case using mem_mark_abs [of r ev s] mem_inv_mark by (auto simp: mem_cap_def)
next
  case (10 s r ev e s')
  then show ?case using mem_mark_abs [of r ev s] by auto
next
  case (11 s m)
  then show ?case using mem_append_abs [of s m] by auto
next
  case (14 s r ev)
  then show ?case using mem_mark_abs [of r ev s] by auto
qed (auto simp: mem_inv_def mem_cap_def mem_recent_abs mem_unread_abs)

lemma mem_inv_New: "mem_inv (NewMemory c)"
  by (simp add: mem_inv_def NewMemory_def DefaultCapacity_def mem_abs_def a_wf_def a_log_def)

lemma mem_abs_New: "mem_abs (NewMemory c) = a_empty"
  by (simp add: NewMemory_def mem_abs_def a_empty_def)

end
