(* ===== verification/StoreSqlite.thy ===== *)
theory StoreSqlite
  imports StoreMemory
begin

text \<open>
  \<open>internal/store/sqlite.go\<close>: the file-backed store. The state is the two tables of the
  schema and the AUTOINCREMENT counter; every SQL statement of the source is translated
  as the query it is (selection, ORDER BY seq DESC, LIMIT / OFFSET, the scalar subqueries
  with their NULL cases). The driver is not under src/: whether the n-th statement it is
  handed fails, and with which error, is the parameter \<open>sq_fault\<close> of the state, and a
  failed statement changes no table. One connection serialises the statements
  (\<open>SetMaxOpenConns(1)\<close>), so they run one after the other. The last sections prove the
  contract of \<open>StoreSpec\<close> whatever fails, and that without failures the two stores answer
  every sequence of operations alike.
\<close>

section \<open>Definitions\<close>

record sql_row =
  seq :: int
  row_msg :: message

record sqlite =
  sq_capacity :: int
  sq_rows :: "sql_row list"
  sq_seq :: int
  sq_markers :: "gostring \<rightharpoonup> gostring"
  sq_fault :: "nat \<Rightarrow> goerr option"
  sq_stmts :: nat

text \<open>Opening a database keeps its tables; only the capacity is the caller's.\<close>

definition OpenSQLite :: "int \<Rightarrow> sqlite \<Rightarrow> sqlite" where
  "OpenSQLite capacity db =
     db\<lparr>sq_capacity := (if capacity \<le> 0 then DefaultCapacity else capacity)\<rparr>"

definition sq_fresh :: "(nat \<Rightarrow> goerr option) \<Rightarrow> sqlite" where
  "sq_fresh fault =
     \<lparr>sq_capacity = 0, sq_rows = [], sq_seq = 0, sq_markers = Map.empty, sq_fault = fault,
      sq_stmts = 0\<rparr>"

definition sq_stmt :: "sqlite \<Rightarrow> goerr option \<times> sqlite" where
  "sq_stmt db = (sq_fault db (sq_stmts db), db\<lparr>sq_stmts := Suc (sq_stmts db)\<rparr>)"

definition order_desc :: "sql_row list \<Rightarrow> sql_row list" where
  "order_desc rows = rev (sort_key seq rows)"

definition where_room :: "gostring \<Rightarrow> sql_row list \<Rightarrow> sql_row list" where
  "where_room r rows = filter (\<lambda>row. mRoom (row_msg row) = r) rows"

text \<open>The INSERT OR IGNORE with its UNIQUE(room, event) check, and the rows it affected.\<close>

definition sql_insert :: "message \<Rightarrow> sqlite \<Rightarrow> nat \<times> sqlite" where
  "sql_insert m db =
     (if list_ex (\<lambda>row. mRoom (row_msg row) = mRoom m \<and> mEvent (row_msg row) = mEvent m) (sq_rows db)
      then (0, db)
      else (1, db\<lparr>sq_rows := sq_rows db @ [\<lparr>seq = sq_seq db + 1, row_msg = m\<rparr>],
                  sq_seq := sq_seq db + 1\<rparr>))"

text \<open>
  The DELETE: its subquery is NULL when the room has fewer rows than the offset, and a
  comparison with NULL selects nothing.
\<close>

definition sql_less :: "int \<Rightarrow> int option \<Rightarrow> bool" where
  "sql_less v sub = (case sub of None \<Rightarrow> False | Some w \<Rightarrow> v < w)"

definition sql_nth_newest :: "gostring \<Rightarrow> int \<Rightarrow> sql_row list \<Rightarrow> int option" where
  "sql_nth_newest r offset rows =
     (case drop (nat offset) (order_desc (where_room r rows)) of
        [] \<Rightarrow> None | row # _ \<Rightarrow> Some (seq row))"

definition sql_trim :: "gostring \<Rightarrow> int \<Rightarrow> sqlite \<Rightarrow> sqlite" where
  "sql_trim r offset db =
     db\<lparr>sq_rows := filter (\<lambda>row. \<not> (mRoom (row_msg row) = r \<and>
          sql_less (seq row) (sql_nth_newest r offset (sq_rows db)))) (sq_rows db)\<rparr>"

definition sq_AppendMessage :: "message \<Rightarrow> sqlite \<Rightarrow> goerr option \<times> sqlite" where
  "sq_AppendMessage m db =
     (case sq_stmt db of
        (Some err, db) \<Rightarrow> (Some (Wrap ''append message: '' err []), db)
      | (None, db) \<Rightarrow>
          (case sql_insert m db of
             (n, db) \<Rightarrow>
               if n = 0 then (None, db)
               else
                 (case sq_stmt db of
                    (Some err, db) \<Rightarrow> (Some (Wrap ''trim room: '' err []), db)
                  | (None, db) \<Rightarrow> (None, sql_trim (mRoom m) (sq_capacity db - 1) db))))"

text \<open>The loop that turns the result round, swapping from both ends.\<close>

function swap_loop :: "int \<Rightarrow> int \<Rightarrow> 'a list \<Rightarrow> 'a list" where
  "swap_loop i j out =
     (if i < j
      then swap_loop (i + 1) (j - 1) (out[nat i := out ! nat j, nat j := out ! nat i])
      else out)"
  by pat_completeness auto
termination
  by (relation "measure (\<lambda>(i, j, out). nat (j - i))") auto

declare swap_loop.simps [simp del]

text \<open>The query itself, or the iteration over its rows, may fail.\<close>

definition sq_RecentMessages ::
  "gostring \<Rightarrow> int \<Rightarrow> sqlite \<Rightarrow> (goerr + message list) \<times> sqlite" where
  "sq_RecentMessages roomID limit db =
     (let limit = (if limit \<le> 0 then - 1 else limit) in
      case sq_stmt db of
        (Some err, db) \<Rightarrow> (Inl (Wrap ''recent messages: '' err []), db)
      | (None, db) \<Rightarrow>
          (let rows = order_desc (where_room roomID (sq_rows db));
               rows = (if limit < 0 then rows else take (nat limit) rows);
               out = map row_msg rows
           in case sq_stmt db of
                (Some err, db) \<Rightarrow> (Inl (Wrap ''recent messages: '' err []), db)
              | (None, db) \<Rightarrow> (Inr (swap_loop 0 (int (length out) - 1) out), db)))"

definition sql_marker_seq :: "gostring \<Rightarrow> sqlite \<Rightarrow> int" where
  "sql_marker_seq r db =
     (case filter (\<lambda>row. mRoom (row_msg row) = r \<and>
                        sq_markers db (mRoom (row_msg row)) = Some (mEvent (row_msg row)))
             (sq_rows db) of
        [] \<Rightarrow> 0 | row # _ \<Rightarrow> seq row)"

definition sq_UnreadCount :: "gostring \<Rightarrow> sqlite \<Rightarrow> (goerr + int) \<times> sqlite" where
  "sq_UnreadCount roomID db =
     (case sq_stmt db of
        (Some err, db) \<Rightarrow> (Inl (Wrap ''unread count: '' err []), db)
      | (None, db) \<Rightarrow>
          (Inr (int (length (filter (\<lambda>row. mRoom (row_msg row) = roomID \<and> \<not> mOwn (row_msg row) \<and>
                   seq row > sql_marker_seq roomID db) (sq_rows db)))), db))"

definition sql_upsert_marker :: "gostring \<Rightarrow> gostring \<Rightarrow> sqlite \<Rightarrow> sqlite" where
  "sql_upsert_marker r ev db = db\<lparr>sq_markers := (sq_markers db)(r \<mapsto> ev)\<rparr>"

definition sq_store_marker :: "gostring \<Rightarrow> gostring \<Rightarrow> sqlite \<Rightarrow> goerr option \<times> sqlite" where
  "sq_store_marker roomID eventID db =
     (case sq_stmt db of
        (Some err, db) \<Rightarrow> (Some (Wrap ''set read marker: '' err []), db)
      | (None, db) \<Rightarrow> (None, sql_upsert_marker roomID eventID db))"

definition sq_SetReadMarker :: "gostring \<Rightarrow> gostring \<Rightarrow> sqlite \<Rightarrow> goerr option \<times> sqlite" where
  "sq_SetReadMarker roomID eventID db =
     (if eventID = [] then
        (case sq_stmt db of
           (Some err, db) \<Rightarrow> (Some (Wrap ''set read marker: '' err []), db)
         | (None, db) \<Rightarrow>
             (case order_desc (where_room roomID (sq_rows db)) of
                [] \<Rightarrow> (None, db)
              | row # _ \<Rightarrow> sq_store_marker roomID (mEvent (row_msg row)) db))
      else sq_store_marker roomID eventID db)"

definition sqlite_store :: "sqlite store" where
  "sqlite_store =
     \<lparr>AppendMessage = sq_AppendMessage, RecentMessages = sq_RecentMessages,
      UnreadCount = sq_UnreadCount, SetReadMarker = sq_SetReadMarker\<rparr>"

section \<open>The swap loop reverses\<close>

lemma swap_loop_rev:
  "swap_loop (int (length as)) (int (length as + length ms) - 1) (as @ ms @ bs) = as @ rev ms @ bs"
proof (induction "length ms" arbitrary: as ms bs rule: less_induct)
  case less
  show ?case
  proof (cases "length ms < 2")
    case True
    then have "ms = [] \<or> (\<exists>x. ms = [x])" by (cases ms; cases "tl ms") auto
    then show ?thesis by (subst swap_loop.simps) auto
  next
    case False
    then obtain x ms' y where ms: "ms = x # ms' @ [y]"
      by (cases ms; cases "tl ms" rule: rev_cases) auto
    let ?i = "length as" and ?j = "Suc (length as + length ms')"
    have j: "int (length as + length ms) - 1 = int ?j" using ms by simp
    have i_at: "(as @ ms @ bs) ! ?i = x" and j_at: "(as @ ms @ bs) ! ?j = y"
      using ms by (simp_all add: nth_append)
    have swap: "(as @ ms @ bs)[?i := y, ?j := x] = (as @ [y]) @ ms' @ (x # bs)"
      using ms by (simp add: list_update_append)
    have "swap_loop (int ?i) (int ?j) (as @ ms @ bs) =
        swap_loop (int ?i + 1) (int ?j - 1) ((as @ ms @ bs)[?i := y, ?j := x])"
      by (subst swap_loop.simps) (simp only: nat_int i_at j_at, simp)
    also have "\<dots> = swap_loop (int (length (as @ [y])))
        (int (length (as @ [y]) + length ms') - 1) ((as @ [y]) @ ms' @ (x # bs))"
      unfolding swap by (simp add: add.commute)
    also have "\<dots> = (as @ [y]) @ rev ms' @ (x # bs)"
      using ms by (intro less) simp
    finally show ?thesis unfolding j using ms by simp
  qed
qed

lemma swap_loop_all: "swap_loop 0 (int (length xs) - 1) xs = rev xs"
  using swap_loop_rev [of "[]" xs "[]"] by simp

section \<open>Queries over a strictly ordered table\<close>

definition seq_ordered :: "sql_row list \<Rightarrow> bool" where
  "seq_ordered rows \<longleftrightarrow> sorted_wrt (<) (map seq rows)"

lemma seq_ordered_filter: "seq_ordered rows \<Longrightarrow> seq_ordered (filter p rows)"
  by (induction rows) (auto simp: seq_ordered_def)

lemma order_desc_ordered: "seq_ordered rows \<Longrightarrow> order_desc rows = rev rows"
  by (simp add: order_desc_def seq_ordered_def sort_key_id_if_sorted strict_sorted_imp_sorted)

lemma seq_ordered_append:
  "seq_ordered (xs @ ys) \<longleftrightarrow>
     seq_ordered xs \<and> seq_ordered ys \<and> (\<forall>x\<in>set xs. \<forall>y\<in>set ys. seq x < seq y)"
  by (auto simp: seq_ordered_def sorted_wrt_append)

lemma seq_ordered_split:
  "seq_ordered (us @ u # rest) \<Longrightarrow> (\<forall>x\<in>set us. seq x < seq u) \<and> (\<forall>y\<in>set rest. seq u < seq y)"
  by (auto simp: seq_ordered_def sorted_wrt_append)

lemma filter_after:
  assumes "seq_ordered (us @ u # rest)"
  shows "filter (\<lambda>row. seq u < seq row) (us @ u # rest) = rest"
proof -
  have "filter (\<lambda>row. seq u < seq row) us = []"
    using seq_ordered_split [OF assms] by (force simp: filter_empty_conv)
  moreover have "filter (\<lambda>row. seq u < seq row) rest = rest"
    using seq_ordered_split [OF assms] by simp
  ultimately show ?thesis by simp
qed

lemma filter_from:
  assumes "seq_ordered (us @ u # rest)"
  shows "filter (\<lambda>row. \<not> seq row < seq u) (us @ u # rest) = u # rest"
proof -
  have "filter (\<lambda>row. \<not> seq row < seq u) us = []"
    using seq_ordered_split [OF assms] by (simp add: filter_empty_conv)
  moreover have "filter (\<lambda>row. \<not> seq row < seq u) rest = rest"
    using seq_ordered_split [OF assms] by (force intro: filter_True)
  ultimately show ?thesis by simp
qed

lemma where_room_simps [simp]:
  "where_room r [] = []"
  "where_room r (xs @ ys) = where_room r xs @ where_room r ys"
  by (simp_all add: where_room_def)

lemma where_room_filter_room:
  "where_room r (filter (\<lambda>row. mRoom (row_msg row) = r \<longrightarrow> \<not> q row) rows) =
     filter (\<lambda>row. \<not> q row) (where_room r rows)"
  by (auto simp: where_room_def intro: filter_cong)

lemma where_room_filter_other:
  "r \<noteq> r' \<Longrightarrow> where_room r' (filter (\<lambda>row. mRoom (row_msg row) = r \<longrightarrow> q row) rows) =
     where_room r' rows"
  by (auto simp: where_room_def intro: filter_cong)

section \<open>Refinement of the abstract store\<close>

definition sq_abs :: "sqlite \<Rightarrow> astore" where
  "sq_abs db = (\<lambda>r. (map row_msg (where_room r (sq_rows db)),
                     case sq_markers db r of None \<Rightarrow> [] | Some ev \<Rightarrow> ev))"

definition sq_cap :: "sqlite \<Rightarrow> nat" where
  "sq_cap db = nat (sq_capacity db)"

definition sq_inv :: "sqlite \<Rightarrow> bool" where
  "sq_inv db \<longleftrightarrow> 0 < sq_capacity db \<and> a_wf (sq_abs db) \<and> seq_ordered (sq_rows db)
     \<and> (\<forall>row\<in>set (sq_rows db). 0 < seq row \<and> seq row \<le> sq_seq db)
     \<and> 0 \<le> sq_seq db \<and> (\<forall>r. sq_markers db r \<noteq> Some [])"

lemma sq_stmt_simps:
  assumes "sq_stmt db = (e, db')"
  shows "sq_abs db' = sq_abs db" "sq_cap db' = sq_cap db" "sq_inv db' = sq_inv db"
    "sq_rows db' = sq_rows db" "sq_capacity db' = sq_capacity db" "sq_markers db' = sq_markers db"
    "sq_seq db' = sq_seq db" "sq_fault db' = sq_fault db"
  using assms by (auto simp: sq_stmt_def sq_abs_def sq_cap_def sq_inv_def)

lemma sq_log: "a_log (sq_abs db) r = map row_msg (where_room r (sq_rows db))"
  by (simp add: a_log_def sq_abs_def)

lemma sq_marker: "a_marker (sq_abs db) r = (case sq_markers db r of None \<Rightarrow> [] | Some ev \<Rightarrow> ev)"
  by (simp add: a_marker_def sq_abs_def)

lemma sq_dup:
  "list_ex (\<lambda>row. mRoom (row_msg row) = mRoom m \<and> mEvent (row_msg row) = mEvent m) (sq_rows db) =
     has_event (mEvent m) (a_log (sq_abs db) (mRoom m))"
  by (auto simp: list_ex_iff has_event_def sq_log where_room_def)

lemma sql_insert_dup:
  "has_event (mEvent m) (a_log (sq_abs db) (mRoom m)) \<Longrightarrow> sql_insert m db = (0, db)"
  by (simp add: sql_insert_def sq_dup)

lemma sql_insert_fresh:
  assumes "\<not> has_event (mEvent m) (a_log (sq_abs db) (mRoom m))" and "sq_inv db" and "mEvent m \<noteq> []"
  obtains db' where "sql_insert m db = (1, db')" "sq_abs db' = a_insert m (sq_abs db)" "sq_inv db'"
    "sq_cap db' = sq_cap db" "sq_capacity db' = sq_capacity db"
    "sq_fault db' = sq_fault db" "sq_stmts db' = sq_stmts db"
proof
  let ?db = "db\<lparr>sq_rows := sq_rows db @ [\<lparr>seq = sq_seq db + 1, row_msg = m\<rparr>],
               sq_seq := sq_seq db + 1\<rparr>"
  show "sql_insert m db = (1, ?db)" using assms(1) by (simp add: sql_insert_def sq_dup)
  show abs: "sq_abs ?db = a_insert m (sq_abs db)"
    using assms(1) by (intro astore_eqI)
      (auto simp: a_insert_def store_simps sq_log sq_marker where_room_def)
  have "seq_ordered (sq_rows ?db)"
    using assms(2) by (auto simp: sq_inv_def seq_ordered_append) (auto simp: seq_ordered_def)
  then show "sq_inv ?db"
    using assms a_wf_insert [of "sq_abs db" m] abs by (auto simp: sq_inv_def)
  show "sq_cap ?db = sq_cap db" by (simp add: sq_cap_def)
qed simp_all

lemma sql_trim_room:
  assumes "seq_ordered (sq_rows db)" and "0 < c"
  shows "where_room r (sq_rows (sql_trim r (int c - 1) db)) = lastn c (where_room r (sq_rows db))"
proof -
  let ?R = "where_room r (sq_rows db)"
  have ord: "seq_ordered ?R" using assms(1) by (simp add: where_room_def seq_ordered_filter)
  have n: "nat (int c - 1) = c - 1" using assms(2) by linarith
  have rows: "where_room r (sq_rows (sql_trim r (int c - 1) db)) =
      filter (\<lambda>row. \<not> sql_less (seq row) (sql_nth_newest r (int c - 1) (sq_rows db))) ?R"
    by (simp add: sql_trim_def where_room_filter_room)
  show ?thesis
  proof (cases "length ?R < c")
    case True
    then have "drop (c - 1) (rev ?R) = []" by simp
    then have "sql_nth_newest r (int c - 1) (sq_rows db) = None"
      by (simp add: sql_nth_newest_def order_desc_ordered ord n)
    with True rows show ?thesis by (simp add: sql_less_def)
  next
    case False
    define k where "k = length ?R - c"
    define us u rest where "us = take k ?R" and "u = ?R ! k" and "rest = drop (Suc k) ?R"
    have k: "k < length ?R" using False assms(2) by (simp add: k_def)
    have split: "?R = us @ u # rest"
      unfolding us_def u_def rest_def using k by (rule id_take_nth_drop)
    have rest: "length rest = c - 1" using False assms(2) by (simp add: rest_def k_def)
    have "drop (c - 1) (rev ?R) = u # rev us" unfolding split using rest by simp
    then have "sql_nth_newest r (int c - 1) (sq_rows db) = Some (seq u)"
      by (simp add: sql_nth_newest_def order_desc_ordered ord n)
    then have "where_room r (sq_rows (sql_trim r (int c - 1) db)) = u # rest"
      using filter_from [of us u rest] ord unfolding rows split by (simp add: sql_less_def)
    moreover have "lastn c ?R = u # rest"
      unfolding split using rest assms(2) by (simp add: lastn_def)
    ultimately show ?thesis by simp
  qed
qed

lemma sql_trim_simps [simp]:
  "sq_markers (sql_trim r k db) = sq_markers db" "sq_capacity (sql_trim r k db) = sq_capacity db"
  "sq_seq (sql_trim r k db) = sq_seq db" "sq_fault (sql_trim r k db) = sq_fault db"
  "sq_cap (sql_trim r k db) = sq_cap db"
  by (simp_all add: sql_trim_def sq_cap_def)

lemma sql_trim_other: "r \<noteq> r' \<Longrightarrow> where_room r' (sq_rows (sql_trim r k db)) = where_room r' (sq_rows db)"
  by (simp add: sql_trim_def where_room_filter_other)

lemma sql_trim_abs:
  assumes "sq_inv db" and "\<not> has_event (mEvent m) (a_log a (mRoom m))" and "sq_abs db = a_insert m a"
  shows "sq_abs (sql_trim (mRoom m) (sq_capacity db - 1) db) = a_append (sq_cap db) m a"
proof -
  have c: "0 < sq_cap db" "sq_capacity db = int (sq_cap db)" "seq_ordered (sq_rows db)"
    using assms(1) by (auto simp: sq_inv_def sq_cap_def)
  have "a_log (sq_abs (sql_trim (mRoom m) (sq_capacity db - 1) db)) r =
      (if r = mRoom m then lastn (sq_cap db) (a_log (sq_abs db) r) else a_log (sq_abs db) r)" for r
    using sql_trim_room [OF c(3,1), of r] sql_trim_other [of "mRoom m" r]
    by (cases "r = mRoom m") (simp_all add: sq_log c(2) lastn_map)
  moreover have "a_marker (sq_abs (sql_trim r k db)) q = a_marker (sq_abs db) q" for r k q
    by (simp add: sq_marker)
  ultimately show ?thesis
    using assms(2,3) by (intro astore_eqI) (simp_all add: a_insert_def store_simps)
qed

lemma sql_trim_inv:
  assumes "sq_inv db" and "a_wf (sq_abs (sql_trim r k db))"
  shows "sq_inv (sql_trim r k db)"
  using assms unfolding sq_inv_def by (simp add: sql_trim_def seq_ordered_filter)

section \<open>The operations\<close>

lemma sq_append_ok:
  assumes "sq_inv db" and "mEvent m \<noteq> []" and "sq_AppendMessage m db = (None, db')"
  shows "sq_inv db' \<and> sq_cap db' = sq_cap db \<and> sq_abs db' = a_append (sq_cap db) m (sq_abs db)"
proof -
  obtain d1 where d1: "sq_stmt db = (None, d1)"
    using assms(3) by (auto simp: sq_AppendMessage_def split: prod.splits option.splits)
  note s1 = sq_stmt_simps [OF d1]
  show ?thesis
  proof (cases "has_event (mEvent m) (a_log (sq_abs db) (mRoom m))")
    case True
    then have "sql_insert m d1 = (0, d1)" by (intro sql_insert_dup) (simp add: s1)
    with assms(3) d1 have "db' = d1" by (simp add: sq_AppendMessage_def)
    with True assms(1) s1 show ?thesis by (simp add: a_append_def)
  next
    case False
    then obtain d2 where d2: "sql_insert m d1 = (1, d2)" "sq_abs d2 = a_insert m (sq_abs d1)"
      "sq_inv d2" "sq_cap d2 = sq_cap d1"
      using sql_insert_fresh [of m d1] assms(1,2) s1 by metis
    from assms(3) d1 d2(1) obtain d3 where d3: "sq_stmt d2 = (None, d3)"
      "db' = sql_trim (mRoom m) (sq_capacity d3 - 1) d3"
      by (auto simp: sq_AppendMessage_def split: prod.splits option.splits)
    note s3 = sq_stmt_simps [OF d3(1)]
    have "sq_abs db' = a_append (sq_cap d3) m (sq_abs db)"
      unfolding d3(2) using False d2 s1 s3 by (intro sql_trim_abs) simp_all
    moreover from this have "sq_inv db'"
      unfolding d3(2) using assms(1,2) d2 s3
      by (intro sql_trim_inv) (simp_all add: a_wf_append sq_inv_def)
    ultimately show ?thesis using d2 s1 s3 d3(2) by simp
  qed
qed

lemma sq_append_err:
  assumes "sq_inv db" and "mEvent m \<noteq> []" and "sq_AppendMessage m db = (Some e, db')"
  shows "sq_inv db' \<and> sq_cap db' = sq_cap db \<and>
    (sq_abs db' = sq_abs db \<or> sq_abs db' = a_insert m (sq_abs db))"
proof (cases "sq_stmt db")
  case (Pair e1 d1)
  note s1 = sq_stmt_simps [OF Pair]
  show ?thesis
  proof (cases e1)
    case (Some x)
    with assms Pair s1 show ?thesis by (auto simp: sq_AppendMessage_def)
  next
    case None
    show ?thesis
    proof (cases "has_event (mEvent m) (a_log (sq_abs db) (mRoom m))")
      case True
      then have "sql_insert m d1 = (0, d1)" by (intro sql_insert_dup) (simp add: s1)
      with assms(3) Pair None show ?thesis by (simp add: sq_AppendMessage_def)
    next
      case False
      then obtain d2 where d2: "sql_insert m d1 = (1, d2)" "sq_abs d2 = a_insert m (sq_abs d1)"
        "sq_inv d2" "sq_cap d2 = sq_cap d1"
        using sql_insert_fresh [of m d1] assms(1,2) s1 by metis
      from assms(3) Pair None d2(1) obtain x d3 where d3: "sq_stmt d2 = (Some x, d3)" "db' = d3"
        by (auto simp: sq_AppendMessage_def split: prod.splits option.splits)
      with d2 s1 sq_stmt_simps [OF d3(1)] show ?thesis by simp
    qed
  qed
qed

lemma rows_recent:
  assumes "sq_inv db"
  shows "rev (map row_msg (if limit \<le> 0 then order_desc (where_room r (sq_rows db))
           else take (nat limit) (order_desc (where_room r (sq_rows db))))) =
         a_recent r limit (sq_abs db)"
proof -
  have "order_desc (where_room r (sq_rows db)) = rev (where_room r (sq_rows db))"
    using assms by (simp add: order_desc_ordered seq_ordered_filter where_room_def sq_inv_def)
  then show ?thesis
    by (simp add: a_recent_def sq_log lastn_rev rev_map [symmetric] take_map [symmetric])
qed

lemma sq_recent_ok:
  assumes "sq_inv db" and "sq_RecentMessages r limit db = (Inr ms, db')"
  shows "sq_inv db' \<and> sq_cap db' = sq_cap db \<and> sq_abs db' = sq_abs db
    \<and> ms = a_recent r limit (sq_abs db)"
proof -
  obtain d1 d2 where d: "sq_stmt db = (None, d1)" "sq_stmt d1 = (None, d2)" "db' = d2"
    using assms(2) by (auto simp: sq_RecentMessages_def Let_def split: prod.splits option.splits)
  note s = sq_stmt_simps [OF d(1)] sq_stmt_simps [OF d(2)]
  have "ms = rev (map row_msg (if limit \<le> 0 then order_desc (where_room r (sq_rows db))
           else take (nat limit) (order_desc (where_room r (sq_rows db)))))"
    using assms(2) d s
    by (auto simp: sq_RecentMessages_def Let_def swap_loop_all [of "map row_msg _", simplified])
  with rows_recent [OF assms(1)] assms(1) d s show ?thesis by simp
qed

lemma sq_recent_err:
  assumes "sq_inv db" and "sq_RecentMessages r limit db = (Inl e, db')"
  shows "sq_inv db' \<and> sq_cap db' = sq_cap db \<and> sq_abs db' = sq_abs db"
proof (cases "sq_stmt db")
  case (Pair e1 d1)
  note s1 = sq_stmt_simps [OF Pair]
  show ?thesis
  proof (cases e1)
    case (Some x)
    with assms Pair s1 show ?thesis by (auto simp: sq_RecentMessages_def Let_def)
  next
    case None
    obtain e2 d2 where d2: "sq_stmt d1 = (e2, d2)" by fastforce
    with None assms Pair s1 sq_stmt_simps [OF d2] show ?thesis
      by (auto simp: sq_RecentMessages_def Let_def split: option.splits)
  qed
qed

lemma unseen_map:
  "unseen mk (map row_msg rows) =
     (if mk = [] then map row_msg rows
      else case after_first (\<lambda>row. mEvent (row_msg row) = mk) rows of
             None \<Rightarrow> map row_msg rows | Some rest \<Rightarrow> map row_msg rest)"
proof -
  have "after_first (\<lambda>m. mEvent m = mk) (map row_msg rows) =
      map_option (map row_msg) (after_first (\<lambda>row. mEvent (row_msg row) = mk) rows)"
    by (induction rows) simp_all
  then show ?thesis by (simp add: unseen_def split: option.split)
qed

lemma marker_rows:
  "filter (\<lambda>row. mRoom (row_msg row) = r \<and>
       sq_markers db (mRoom (row_msg row)) = Some (mEvent (row_msg row))) (sq_rows db) =
     (case sq_markers db r of None \<Rightarrow> []
      | Some ev \<Rightarrow> filter (\<lambda>row. mEvent (row_msg row) = ev) (where_room r (sq_rows db)))"
  by (auto simp: where_room_def filter_empty_conv split: option.split intro!: filter_cong)

lemma rows_after_marker:
  assumes "sq_inv db"
  shows "map row_msg (filter (\<lambda>row. sql_marker_seq r db < seq row) (where_room r (sq_rows db))) =
    unseen (a_marker (sq_abs db) r) (a_log (sq_abs db) r)"
proof -
  let ?R = "where_room r (sq_rows db)"
  have ord: "seq_ordered ?R" using assms by (simp add: sq_inv_def where_room_def seq_ordered_filter)
  have pos: "filter (\<lambda>row. 0 < seq row) ?R = ?R"
    using assms by (intro filter_True) (auto simp: sq_inv_def where_room_def)
  show ?thesis
  proof (cases "sq_markers db r")
    case None
    then show ?thesis
      using pos by (simp add: sql_marker_seq_def marker_rows sq_marker sq_log unseen_def)
  next
    case (Some ev)
    with assms have ev: "ev \<noteq> []" by (auto simp: sq_inv_def)
    show ?thesis
    proof (cases "after_first (\<lambda>row. mEvent (row_msg row) = ev) ?R")
      case None
      then have "filter (\<lambda>row. mEvent (row_msg row) = ev) ?R = []"
        by (simp add: after_first_None_iff filter_empty_conv)
      with Some None pos ev show ?thesis
        by (simp add: sql_marker_seq_def marker_rows sq_marker sq_log unseen_map)
    next
      case after: (Some rest)
      from after_first_SomeD [OF after] obtain us u where R: "?R = us @ u # rest"
        "mEvent (row_msg u) = ev" "\<forall>x\<in>set us. mEvent (row_msg x) \<noteq> ev" by blast
      then have "filter (\<lambda>row. mEvent (row_msg row) = ev) us = []" by (simp add: filter_empty_conv)
      then have "sql_marker_seq r db = seq u"
        using Some R by (simp add: sql_marker_seq_def marker_rows)
      moreover have "filter (\<lambda>row. seq u < seq row) ?R = rest"
        using filter_after [of us u rest] ord R(1) by simp
      ultimately show ?thesis
        using Some after ev by (simp add: sq_marker sq_log unseen_map)
    qed
  qed
qed

lemma unread_rows:
  assumes "sq_inv db"
  shows "int (length (filter (\<lambda>row. mRoom (row_msg row) = r \<and> \<not> mOwn (row_msg row) \<and>
      sql_marker_seq r db < seq row) (sq_rows db))) = a_unread r (sq_abs db)"
proof -
  have "filter (\<lambda>row. mRoom (row_msg row) = r \<and> \<not> mOwn (row_msg row) \<and>
        sql_marker_seq r db < seq row) (sq_rows db) =
      filter (\<lambda>row. \<not> mOwn (row_msg row))
        (filter (\<lambda>row. sql_marker_seq r db < seq row) (where_room r (sq_rows db)))"
    by (auto simp: where_room_def intro: filter_cong)
  then have "length (filter (\<lambda>row. mRoom (row_msg row) = r \<and> \<not> mOwn (row_msg row) \<and>
        sql_marker_seq r db < seq row) (sq_rows db)) =
      length (filter (\<lambda>m. \<not> mOwn m)
        (map row_msg (filter (\<lambda>row. sql_marker_seq r db < seq row) (where_room r (sq_rows db)))))"
    by (simp add: filter_map o_def)
  then show ?thesis by (simp only: rows_after_marker [OF assms] a_unread_def)
qed

lemma sq_unread_eq:
  assumes "sq_inv db" and "sq_stmt db = (None, db')"
  shows "sq_UnreadCount r db = (Inr (a_unread r (sq_abs db)), db')"
proof -
  have "sql_marker_seq r db' = sql_marker_seq r db"
    using sq_stmt_simps [OF assms(2)] by (simp add: sql_marker_seq_def)
  with unread_rows [OF assms(1)] sq_stmt_simps [OF assms(2)] assms(2) show ?thesis
    by (simp add: sq_UnreadCount_def)
qed

lemma sq_unread_ok:
  assumes "sq_inv db" and "sq_UnreadCount r db = (Inr n, db')"
  shows "sq_inv db' \<and> sq_cap db' = sq_cap db \<and> sq_abs db' = sq_abs db \<and> n = a_unread r (sq_abs db)"
proof -
  obtain d1 where d1: "sq_stmt db = (None, d1)"
    using assms(2) by (auto simp: sq_UnreadCount_def split: prod.splits option.splits)
  from sq_unread_eq [OF assms(1) d1] assms sq_stmt_simps [OF d1] show ?thesis by auto
qed

lemma sq_unread_err:
  assumes "sq_inv db" and "sq_UnreadCount r db = (Inl e, db')"
  shows "sq_inv db' \<and> sq_cap db' = sq_cap db \<and> sq_abs db' = sq_abs db"
proof (cases "sq_stmt db")
  case (Pair e1 d1)
  with assms sq_stmt_simps [OF Pair] show ?thesis
    by (auto simp: sq_UnreadCount_def split: option.splits)
qed

lemma sq_upsert:
  assumes "sq_inv db" and "ev \<noteq> []"
  shows "sq_inv (sql_upsert_marker r ev db) \<and> sq_cap (sql_upsert_marker r ev db) = sq_cap db
    \<and> sq_abs (sql_upsert_marker r ev db) = a_mark r ev (sq_abs db)"
proof -
  have "sq_abs (sql_upsert_marker r ev db) = a_mark r ev (sq_abs db)"
    using assms(2) by (intro astore_eqI) (auto simp: store_simps sq_log sq_marker sql_upsert_marker_def)
  with assms show ?thesis
    by (auto simp: sq_inv_def sq_cap_def sql_upsert_marker_def a_wf_mark
        dest: a_wf_mark [of "sq_abs db" r ev])
qed

lemma sq_store_marker_ok:
  assumes "sq_inv db" and "ev \<noteq> []" and "sq_store_marker r ev db = (None, db')"
  shows "sq_inv db' \<and> sq_cap db' = sq_cap db \<and> sq_abs db' = a_mark r ev (sq_abs db)"
proof -
  obtain d1 where d1: "sq_stmt db = (None, d1)" "db' = sql_upsert_marker r ev d1"
    using assms(3) by (auto simp: sq_store_marker_def split: prod.splits option.splits)
  with sq_upsert [of d1 ev r] assms sq_stmt_simps [OF d1(1)] show ?thesis by simp
qed

lemma sq_store_marker_err:
  assumes "sq_inv db" and "sq_store_marker r ev db = (Some e, db')"
  shows "sq_inv db' \<and> sq_cap db' = sq_cap db \<and> sq_abs db' = sq_abs db"
proof (cases "sq_stmt db")
  case (Pair e1 d1)
  with assms sq_stmt_simps [OF Pair] show ?thesis
    by (auto simp: sq_store_marker_def split: option.splits)
qed

lemma newest_row:
  assumes "sq_inv db"
  shows "order_desc (where_room r (sq_rows db)) = rev (where_room r (sq_rows db))"
  using assms by (simp add: order_desc_ordered seq_ordered_filter where_room_def sq_inv_def)

lemma newest_event:
  assumes "sq_inv db" and "rev (where_room r (sq_rows db)) = row # rows"
  shows "a_log (sq_abs db) r \<noteq> []" "mEvent (last (a_log (sq_abs db) r)) = mEvent (row_msg row)"
    "mEvent (row_msg row) \<noteq> []"
proof -
  have w: "where_room r (sq_rows db) = rev rows @ [row]"
    using assms(2) by (metis rev_eq_Cons_iff)
  then show "a_log (sq_abs db) r \<noteq> []"
    and "mEvent (last (a_log (sq_abs db) r)) = mEvent (row_msg row)"
    by (simp_all add: sq_log)
  have "log_ok r (a_log (sq_abs db) r)" using assms(1) by (simp add: sq_inv_def a_wf_def)
  with w show "mEvent (row_msg row) \<noteq> []" by (simp add: sq_log log_ok_def)
qed

lemma sq_mark_ok:
  assumes "sq_inv db" and "sq_SetReadMarker r ev db = (None, db')"
  shows "sq_inv db' \<and> sq_cap db' = sq_cap db \<and> sq_abs db' = a_mark r ev (sq_abs db)"
proof (cases "ev = []")
  case False
  with assms sq_store_marker_ok show ?thesis by (simp add: sq_SetReadMarker_def)
next
  case True
  then obtain d1 where d1: "sq_stmt db = (None, d1)"
    using assms(2) by (auto simp: sq_SetReadMarker_def split: prod.splits option.splits)
  note s1 = sq_stmt_simps [OF d1]
  show ?thesis
  proof (cases "rev (where_room r (sq_rows db))")
    case Nil
    with True assms d1 s1 show ?thesis
      by (simp add: sq_SetReadMarker_def newest_row a_mark_def sq_log)
  next
    case (Cons row rows)
    note ev = newest_event [OF assms(1) Cons]
    have "sq_store_marker r (mEvent (row_msg row)) d1 = (None, db')"
      using True assms d1 s1 Cons by (simp add: sq_SetReadMarker_def newest_row)
    with sq_store_marker_ok [of d1 "mEvent (row_msg row)" r db'] ev s1 assms(1) True show ?thesis
      by (simp add: a_mark_def)
  qed
qed

lemma sq_mark_err:
  assumes "sq_inv db" and "sq_SetReadMarker r ev db = (Some e, db')"
  shows "sq_inv db' \<and> sq_cap db' = sq_cap db \<and> sq_abs db' = sq_abs db"
proof (cases "ev = []")
  case False
  with assms sq_store_marker_err show ?thesis by (simp add: sq_SetReadMarker_def)
next
  case True
  show ?thesis
  proof (cases "sq_stmt db")
    case (Pair e1 d1)
    note s1 = sq_stmt_simps [OF Pair]
    show ?thesis
    proof (cases e1)
      case (Some x)
      with True assms Pair s1 show ?thesis by (auto simp: sq_SetReadMarker_def)
    next
      case None
      with True assms Pair obtain row :: sql_row
        where "sq_store_marker r (mEvent (row_msg row)) d1 = (Some e, db')"
        by (fastforce simp: sq_SetReadMarker_def split: list.splits)
      with sq_store_marker_err [of d1 r "mEvent (row_msg row)"] s1 assms(1) show ?thesis by simp
    qed
  qed
qed

lemma sqlite_store_sel [simp]:
  "AppendMessage sqlite_store = sq_AppendMessage"
  "RecentMessages sqlite_store = sq_RecentMessages"
  "UnreadCount sqlite_store = sq_UnreadCount"
  "SetReadMarker sqlite_store = sq_SetReadMarker"
  by (simp_all add: sqlite_store_def)

interpretation sq: store_contract sqlite_store sq_abs sq_inv sq_cap
proof (unfold_locales, goal_cases)
  case (1 s)
  then show ?case by (simp add: sq_inv_def)
next
  case (2 s)
  then show ?case by (simp add: sq_inv_def sq_cap_def)
qed (unfold sqlite_store_sel, (rule sq_append_ok sq_append_err sq_recent_ok sq_recent_err
    sq_unread_ok sq_unread_err sq_mark_ok sq_mark_err; assumption)+)

section \<open>Without failures\<close>

definition sq_faultless :: "sqlite \<Rightarrow> bool" where
  "sq_faultless db \<longleftrightarrow> (\<forall>n. sq_fault db n = None)"

definition sq_reliable :: "sqlite \<Rightarrow> bool" where
  "sq_reliable db \<longleftrightarrow> sq_inv db \<and> sq_faultless db"

lemma sq_stmt_faultless:
  "sq_faultless db \<Longrightarrow> \<exists>db'. sq_stmt db = (None, db') \<and> sq_faultless db'"
  by (simp add: sq_stmt_def sq_faultless_def)

lemma faultless_insert: "sq_faultless db \<Longrightarrow> sql_insert m db = (n, db') \<Longrightarrow> sq_faultless db'"
  by (auto simp: sql_insert_def sq_faultless_def split: if_splits)

lemma faultless_tables:
  "sq_faultless (sql_trim r k db) = sq_faultless db"
  "sq_faultless (sql_upsert_marker r ev db) = sq_faultless db"
  by (simp_all add: sq_faultless_def sql_upsert_marker_def)

lemma sq_append_faultless:
  assumes "sq_faultless db"
  shows "\<exists>db'. sq_AppendMessage m db = (None, db') \<and> sq_faultless db'"
proof -
  obtain d1 where d1: "sq_stmt db = (None, d1)" "sq_faultless d1" using sq_stmt_faultless [OF assms] by blast
  obtain n d2 where d2: "sql_insert m d1 = (n, d2)" by fastforce
  then have "sq_faultless d2" using d1 faultless_insert by blast
  then obtain d3 where "sq_stmt d2 = (None, d3)" "sq_faultless d3" using sq_stmt_faultless by blast
  with d1 d2 \<open>sq_faultless d2\<close> show ?thesis by (simp add: sq_AppendMessage_def faultless_tables)
qed

lemma sq_recent_faultless:
  assumes "sq_faultless db"
  shows "\<exists>ms db'. sq_RecentMessages r limit db = (Inr ms, db') \<and> sq_faultless db'"
proof -
  obtain d1 where d1: "sq_stmt db = (None, d1)" "sq_faultless d1" using sq_stmt_faultless [OF assms] by blast
  then obtain d2 where "sq_stmt d1 = (None, d2)" "sq_faultless d2" using sq_stmt_faultless by blast
  with d1 show ?thesis by (simp add: sq_RecentMessages_def Let_def)
qed

lemma sq_unread_faultless:
  assumes "sq_faultless db"
  shows "\<exists>n db'. sq_UnreadCount r db = (Inr n, db') \<and> sq_faultless db'"
  using sq_stmt_faultless [OF assms] by (auto simp: sq_UnreadCount_def)

lemma sq_store_marker_faultless:
  assumes "sq_faultless db"
  shows "\<exists>db'. sq_store_marker r ev db = (None, db') \<and> sq_faultless db'"
  using sq_stmt_faultless [OF assms] by (auto simp: sq_store_marker_def faultless_tables)

lemma sq_mark_faultless:
  assumes "sq_faultless db"
  shows "\<exists>db'. sq_SetReadMarker r ev db = (None, db') \<and> sq_faultless db'"
proof -
  obtain d1 where "sq_stmt db = (None, d1)" "sq_faultless d1" using sq_stmt_faultless [OF assms] by blast
  with sq_store_marker_faultless assms show ?thesis
    by (auto simp: sq_SetReadMarker_def split: list.split)
qed

interpretation sqr: reliable_store sqlite_store sq_abs sq_reliable sq_cap
proof (unfold_locales, goal_cases)
  case (1 s)
  then show ?case by (simp add: sq_reliable_def sq.inv_wf)
next
  case (2 s)
  then show ?case by (simp add: sq_reliable_def sq.cap_pos)
next
  case (3 s m s')
  then show ?case using sq_append_ok [of s m s'] sq_append_faultless [of s m] by (auto simp: sq_reliable_def)
next
  case (4 s m e s')
  then show ?case using sq_append_faultless [of s m] by (auto simp: sq_reliable_def)
next
  case (5 s r limit ms s')
  then show ?case using sq_recent_ok [of s r limit ms s'] sq_recent_faultless [of s r limit]
    by (auto simp: sq_reliable_def)
next
  case (6 s r limit e s')
  then show ?case using sq_recent_faultless [of s r limit] by (auto simp: sq_reliable_def)
next
  case (7 s r n s')
  then show ?case using sq_unread_ok [of s r n s'] sq_unread_faultless [of s r] by (auto simp: sq_reliable_def)
next
  case (8 s r e s')
  then show ?case using sq_unread_faultless [of s r] by (auto simp: sq_reliable_def)
next
  case (9 s r ev s')
  then show ?case using sq_mark_ok [of s r ev s'] sq_mark_faultless [of s r ev] by (auto simp: sq_reliable_def)
next
  case (10 s r ev e s')
  then show ?case using sq_mark_faultless [of s r ev] by (auto simp: sq_reliable_def)
next
  case (11 s m)
  then show ?case using sq_append_faultless [of s m] by (auto simp: sq_reliable_def)
next
  case (12 s r limit)
  then show ?case using sq_recent_faultless [of s r limit] by (auto simp: sq_reliable_def)
next
  case (13 s r)
  then show ?case using sq_unread_faultless [of s r] by (auto simp: sq_reliable_def)
next
  case (14 s r ev)
  then show ?case using sq_mark_faultless [of s r ev] by (auto simp: sq_reliable_def)
qed

lemma sq_open_fresh:
  "(\<And>n. fault n = None) \<Longrightarrow> sq_reliable (OpenSQLite c (sq_fresh fault))"
  "sq_abs (OpenSQLite c (sq_fresh fault)) = a_empty"
  "sq_cap (OpenSQLite c (sq_fresh fault)) = mem_cap (NewMemory c)"
  by (auto simp: sq_reliable_def sq_inv_def sq_faultless_def OpenSQLite_def sq_fresh_def sq_abs_def
      DefaultCapacity_def a_wf_def a_log_def seq_ordered_def a_empty_def sq_cap_def mem_cap_def
      NewMemory_def)

end
