(* ===== verification/StoreProps.thy ===== *)
theory StoreProps
  imports StoreSqlite
begin

text \<open>
  What the two stores promise the session layer, as properties of their own definitions:
  the SQL statements refine the abstract store whatever fails, the two stores cannot be
  told apart, and the unread count is what the read marker says.
\<close>

text \<open>C14: one append to the SQLite store refines the abstract append. On success the room's
  log is the old one with the message at the end (or the old one, for a duplicate event),
  cut to the newest \<open>capacity\<close> messages, and no other room or marker changed. On failure of
  either statement nothing changed, or the message was stored and only the trim is
  missing. The table invariant survives in every case.\<close>

theorem sqlite_append_refines:
  assumes "sq_inv db" and "mEvent m \<noteq> []" and "sq_AppendMessage m db = (e, db')"
  shows "sq_inv db' \<and> sq_cap db' = sq_cap db
    \<and> (case e of None \<Rightarrow> sq_abs db' = a_append (sq_cap db) m (sq_abs db)
       | Some _ \<Rightarrow> sq_abs db' = sq_abs db \<or> sq_abs db' = a_insert m (sq_abs db))"
proof (cases e)
  case None
  with assms sq.append_ok [of db m db'] show ?thesis by simp
next
  case (Some x)
  with assms sq.append_err [of db m x db'] show ?thesis by simp
qed

definition sample_message :: "gostring \<Rightarrow> bool \<Rightarrow> message" where
  "sample_message ev own =
     \<lparr>mRoom = ''!r'', mEvent = ev, mSender = ''@mia:x'', mDisplay = ''mia'', mBody = ''hi'',
      mTS = 7, mOwn = own, mKind = KindText\<rparr>"

lemma sample_event [simp]: "mEvent (sample_message ev own) = ev"
  by (simp add: sample_message_def)

lemma open_inv: "sq_inv (OpenSQLite 2 (sq_fresh fault))"
  by (simp add: sq_inv_def OpenSQLite_def sq_fresh_def sq_abs_def a_wf_def a_log_def seq_ordered_def)

theorem sqlite_append_refines_witness:
  "sq_inv (snd (sq_AppendMessage (sample_message ''e1'' False)
     (OpenSQLite 2 (sq_fresh (\<lambda>n. if n = 1 then Some (Opaque ''disk full'') else None)))))"
  using sqlite_append_refines [OF open_inv, of "sample_message ''e1'' False"
      "\<lambda>n. if n = 1 then Some (Opaque ''disk full'') else None"]
  by (cases "sq_AppendMessage (sample_message ''e1'' False)
      (OpenSQLite 2 (sq_fresh (\<lambda>n. if n = 1 then Some (Opaque ''disk full'') else None)))") simp

text \<open>C9: the two implementations are observably equal. For any capacity and any sequence
  of appends (of messages with an event ID), marker moves, history and unread queries,
  the in-memory store and a fresh SQLite database whose statements succeed return the
  same answers.\<close>

theorem stores_equivalent:
  assumes "list_all op_ok ps"
  shows "store_run sqlite_store ps (OpenSQLite c (sq_fresh (\<lambda>_. None))) =
         store_run memory_store ps (NewMemory c)"
proof -
  have "store_run sqlite_store ps (OpenSQLite c (sq_fresh (\<lambda>_. None))) =
      a_run (mem_cap (NewMemory c)) ps a_empty"
    using sqr.run_refines [of "OpenSQLite c (sq_fresh (\<lambda>_. None))" ps] assms sq_open_fresh by simp
  also have "\<dots> = store_run memory_store ps (NewMemory c)"
    using mem.run_refines [of "NewMemory c" ps] assms by (simp add: mem_inv_New mem_abs_New)
  finally show ?thesis .
qed

theorem stores_equivalent_witness:
  "store_run sqlite_store [OpAppend (sample_message ''e1'' False), OpUnread ''!r'']
     (OpenSQLite 1 (sq_fresh (\<lambda>_. None))) =
   store_run memory_store [OpAppend (sample_message ''e1'' False), OpUnread ''!r''] (NewMemory 1)"
  by (rule stores_equivalent) simp

text \<open>The in-memory log keeps exactly the newest \<open>capacity\<close> messages in arrival order:
  after appending a message the full history is the old history with the message at its
  end, cut to the capacity, or the old history unchanged when the event was already
  there.\<close>

theorem memory_append_history:
  assumes "mem_inv m" and "mEvent msg \<noteq> []"
    and "mem_RecentMessages (mRoom msg) 0 m = (Inr old, m)"
    and "mem_AppendMessage msg m = (e, m')"
  shows "e = None \<and> mem_RecentMessages (mRoom msg) 0 m' =
    (Inr (if mEvent msg \<in> set (map mEvent old) then old
          else lastn (mem_cap m) (old @ [msg])), m')"
proof -
  have old: "old = a_log (mem_abs m) (mRoom msg)"
    using assms(3) mem_recent_abs [OF assms(1)] by (simp add: a_recent_def)
  obtain m1 where m1: "mem_AppendMessage msg m = (None, m1)" "mem_capacity m1 = mem_capacity m"
    "mem_abs m1 = a_append (mem_cap m) msg (mem_abs m)"
    using mem_append_abs [OF assms(1,2)] by blast
  have "mem_inv m1" using mem_inv_append [OF assms(1,2) m1(2,3)] .
  with m1 assms(4) old show ?thesis
    by (simp add: mem_recent_abs a_recent_def store_simps has_event_map)
qed

theorem memory_append_history_witness:
  "\<exists>m'. mem_AppendMessage (sample_message ''e1'' False) (NewMemory 1) = (None, m')
     \<and> mem_RecentMessages ''!r'' 0 m' = (Inr [sample_message ''e1'' False], m')"
proof -
  obtain e m' where s: "mem_AppendMessage (sample_message ''e1'' False) (NewMemory 1) = (e, m')"
    by fastforce
  have r: "mRoom (sample_message ''e1'' False) = ''!r''" by (simp add: sample_message_def)
  have "mem_RecentMessages ''!r'' 0 (NewMemory 1) = (Inr [], NewMemory 1)"
    by (simp add: mem_RecentMessages_def NewMemory_def)
  from memory_append_history [OF mem_inv_New _ this [folded r] s] s show ?thesis
    by (simp add: r mem_cap_def NewMemory_def)
qed

text \<open>The read position is set, not advanced. Wherever the marker stood before, moving
  it to a retained message leaves unread exactly the messages of others after that one;
  so a late mark for an older message raises the count again.\<close>

theorem read_marker_is_set:
  assumes "mem_inv m" and "mem_RecentMessages r 0 m = (Inr (us @ x # rest), m)"
  shows "mem_UnreadCount r (snd (mem_SetReadMarker r (mEvent x) m)) =
    (Inr (int (length (filter (\<lambda>y. \<not> mOwn y) rest))), snd (mem_SetReadMarker r (mEvent x) m))"
proof -
  have log: "a_log (mem_abs m) r = us @ x # rest"
    using assms mem_recent_abs [OF assms(1)] by (simp add: a_recent_def)
  have ok: "log_ok r (us @ x # rest)" using assms(1) log by (metis mem_inv_def a_wf_def)
  note unseen_at [OF ok]
  moreover obtain m' where "mem_SetReadMarker r (mEvent x) m = (None, m')"
    "mem_abs m' = a_mark r (mEvent x) (mem_abs m)"
    using mem_mark_abs by blast
  moreover have "mEvent x \<noteq> []" using ok by (simp add: log_ok_def)
  ultimately show ?thesis by (simp add: mem_unread_abs a_unread_def store_simps log)
qed

definition two_messages :: memory where
  "two_messages =
     \<lparr>mem_capacity = 9, mem_rooms = [''!r'' \<mapsto>
        \<lparr>messages = [sample_message ''e1'' True, sample_message ''e2'' False], readMarker = ''e2''\<rparr>]\<rparr>"

lemma two_messages_inv: "mem_inv two_messages"
  by (simp add: mem_inv_def two_messages_def mem_abs_def mem_cap_def a_wf_def a_log_def log_ok_def
      sample_message_def)

theorem read_marker_is_set_witness:
  "mem_UnreadCount ''!r'' two_messages = (Inr 0, two_messages)
   \<and> fst (mem_UnreadCount ''!r'' (snd (mem_SetReadMarker ''!r'' ''e1'' two_messages))) = Inr 1"
proof
  show "mem_UnreadCount ''!r'' two_messages = (Inr 0, two_messages)"
    by (simp add: mem_UnreadCount_def two_messages_def countUnread_def)
  have "mem_RecentMessages ''!r'' 0 two_messages =
      (Inr ([] @ sample_message ''e1'' True # [sample_message ''e2'' False]), two_messages)"
    by (simp add: mem_RecentMessages_def two_messages_def)
  from read_marker_is_set [OF two_messages_inv this]
  show "fst (mem_UnreadCount ''!r'' (snd (mem_SetReadMarker ''!r'' ''e1'' two_messages))) = Inr 1"
    by (simp add: sample_message_def)
qed

end
