(* ===== verification/Transport.thy ===== *)
theory Transport
  imports Model
begin

text \<open>
  The \<open>Transport\<close> interface of \<open>internal/transport/transport.go\<close>: its events, the rooms it
  lists, and its methods as a record over the implementation's state. \<open>Start\<close> returns the
  channel of the implementation's event sink: what it delivers are the inputs of the session.
\<close>

record troom =
  trID :: gostring
  trDisplay :: gostring

text \<open>An \<open>Event\<close> carries a message or a connection flag, told apart by its \<open>Type\<close>.\<close>

datatype transport_event =
    EventMessage message
  | EventConnected bool

record 'tr transport =
  tStart :: "'tr \<Rightarrow> goerr option \<times> 'tr"
  tSend :: "gostring \<Rightarrow> gostring \<Rightarrow> 'tr \<Rightarrow> (goerr + gostring) \<times> 'tr"
  tMarkRead :: "gostring \<Rightarrow> gostring \<Rightarrow> 'tr \<Rightarrow> goerr option \<times> 'tr"
  tRooms :: "'tr \<Rightarrow> (goerr + troom list) \<times> 'tr"
  tClose :: "'tr \<Rightarrow> goerr option \<times> 'tr"

end
