(* ===== verification/Session.thy ===== *)
theory Session
  imports Sanitize StoreProps Transport
begin

text \<open>
  \<open>internal/session/session.go\<close>: the layer between the transport and the IPC hub. The
  session's own state is the map of room states, their order and the connected flag; the
  store and the transport are interface values (records of methods) with states of their
  own, threaded through every call. What the session tells its broadcaster is the list of
  calls it makes, in order (none when no broadcaster is installed). Locks protect single
  reads and updates of the session's fields; each operation is one sequential function.
\<close>

section \<open>Definitions\<close>

datatype broadcast =
    BroadcastMessage message
  | BroadcastRoom room

record session_options =
  Aliases :: "gostring \<rightharpoonup> gostring"
  SanitizeOpts :: sanitize_options

record roomState =
  rsDisplay :: gostring
  rsLastTS :: int

record session =
  s_rooms :: "gostring \<rightharpoonup> roomState"
  s_order :: "gostring list"
  s_connected :: bool

definition session_New :: session where
  "session_New = \<lparr>s_rooms = Map.empty, s_order = [], s_connected = False\<rparr>"

definition localpart :: "gostring \<Rightarrow> gostring" where
  "localpart uid =
     (let s = TrimPrefix uid ''@'';
          i = IndexByte s CHR '':''
      in if i \<ge> 0 then take (nat i) s else s)"

definition aliasFor :: "session_options \<Rightarrow> gostring \<Rightarrow> gostring" where
  "aliasFor opts uid =
     (if uid = [] then []
      else case Aliases opts uid of
             Some name \<Rightarrow> if name \<noteq> [] then name else localpart uid
           | None \<Rightarrow> localpart uid)"

text \<open>\<open>ensureRoomLocked\<close> returns a pointer into the map; the updated map stands for it.\<close>

definition ensureRoom :: "gostring \<Rightarrow> gostring \<Rightarrow> session \<Rightarrow> roomState \<times> session" where
  "ensureRoom roomID display s =
     (case s_rooms s roomID of
        None \<Rightarrow>
          (let rs = \<lparr>rsDisplay = display, rsLastTS = 0\<rparr>
           in (rs, s\<lparr>s_rooms := (s_rooms s)(roomID \<mapsto> rs), s_order := s_order s @ [roomID]\<rparr>))
      | Some rs \<Rightarrow>
          (let rs = (if rsDisplay rs = [] then rs\<lparr>rsDisplay := display\<rparr> else rs)
           in (rs, s\<lparr>s_rooms := (s_rooms s)(roomID \<mapsto> rs)\<rparr>)))"

definition Knows :: "gostring \<Rightarrow> session \<Rightarrow> bool" where
  "Knows roomID s \<longleftrightarrow> s_rooms s roomID \<noteq> None"

definition Connected :: "session \<Rightarrow> bool" where
  "Connected s = s_connected s"

definition roomView ::
  "'st store \<Rightarrow> gostring \<Rightarrow> session \<Rightarrow> 'st \<Rightarrow> (goerr + room) \<times> 'st" where
  "roomView S roomID s st =
     (case s_rooms s roomID of
        None \<Rightarrow> (Inl ErrUnknownRoom, st)
      | Some rs \<Rightarrow>
          (case UnreadCount S roomID st of
             (Inl err, st) \<Rightarrow> (Inl err, st)
           | (Inr unread, st) \<Rightarrow>
               (Inr \<lparr>rRoom = roomID, rDisplay = rsDisplay rs, rUnread = unread,
                     rLastTS = rsLastTS rs\<rparr>, st)))"

text \<open>What \<open>ingest\<close> makes of a message before it stores it.\<close>

definition normalise :: "session_options \<Rightarrow> message \<Rightarrow> message" where
  "normalise opts msg =
     (let msg = msg\<lparr>mDisplay := aliasFor opts (mSender msg)\<rparr>;
          msg = (if mKind msg = [] then msg\<lparr>mKind := KindText\<rparr> else msg)
      in sanitize_Message msg (SanitizeOpts opts))"

definition touchRoom :: "message \<Rightarrow> session \<Rightarrow> session" where
  "touchRoom msg s =
     (let (rs, s) = ensureRoom (mRoom msg) (mDisplay msg) s
      in if mTS msg > rsLastTS rs
         then s\<lparr>s_rooms := (s_rooms s)(mRoom msg \<mapsto> rs\<lparr>rsLastTS := mTS msg\<rparr>)\<rparr> else s)"

definition announceRoom ::
  "'st store \<Rightarrow> gostring \<Rightarrow> session \<Rightarrow> 'st \<Rightarrow> broadcast list \<times> 'st" where
  "announceRoom S roomID s st =
     (case roomView S roomID s st of
        (Inr r, st) \<Rightarrow> ([BroadcastRoom r], st)
      | (Inl _, st) \<Rightarrow> ([], st))"

text \<open>One's own message moves the read marker; a failure to do so is only logged.\<close>

definition markOwn :: "'st store \<Rightarrow> message \<Rightarrow> 'st \<Rightarrow> 'st" where
  "markOwn S msg st =
     (if mOwn msg then snd (SetReadMarker S (mRoom msg) (mEvent msg) st) else st)"

definition ingest ::
  "'st store \<Rightarrow> session_options \<Rightarrow> bool \<Rightarrow> message \<Rightarrow> session \<Rightarrow> 'st
     \<Rightarrow> broadcast list \<times> session \<times> 'st" where
  "ingest S opts bcast msg s st =
     (let msg = normalise opts msg in
      case AppendMessage S msg st of
        (Some _, st) \<Rightarrow> ([], s, st)
      | (None, st) \<Rightarrow>
          let s = touchRoom msg s;
              st = markOwn S msg st
          in if bcast
             then (case announceRoom S (mRoom msg) s st of
                     (bs, st) \<Rightarrow> (BroadcastMessage msg # bs, s, st))
             else ([], s, st))"

fun handle ::
  "'st store \<Rightarrow> session_options \<Rightarrow> bool \<Rightarrow> transport_event \<Rightarrow> session \<Rightarrow> 'st
     \<Rightarrow> broadcast list \<times> session \<times> 'st" where
  "handle S opts bcast (EventConnected c) s st = ([], s\<lparr>s_connected := c\<rparr>, st)"
| "handle S opts bcast (EventMessage msg) s st = ingest S opts bcast msg s st"

text \<open>\<open>Run\<close>: the rooms of the transport are registered, the transport is started, then its events
  are handled in turn.\<close>

fun register_rooms :: "session_options \<Rightarrow> troom list \<Rightarrow> session \<Rightarrow> session" where
  "register_rooms opts [] s = s"
| "register_rooms opts (r # rs) s =
     register_rooms opts rs (snd (ensureRoom (trID r) (aliasFor opts (trDisplay r)) s))"

definition Run_start ::
  "'tr transport \<Rightarrow> session_options \<Rightarrow> session \<Rightarrow> 'tr \<Rightarrow> goerr option \<times> session \<times> 'tr" where
  "Run_start T opts s tr =
     (case tRooms T tr of
        (Inl err, tr) \<Rightarrow> (Some err, s, tr)
      | (Inr rooms, tr) \<Rightarrow>
          (let s = register_rooms opts rooms s in
           case tStart T tr of
             (Some err, tr) \<Rightarrow> (Some err, s, tr)
           | (None, tr) \<Rightarrow> (None, s, tr)))"

fun Run_events ::
  "'st store \<Rightarrow> session_options \<Rightarrow> bool \<Rightarrow> transport_event list \<Rightarrow> session \<Rightarrow> 'st
     \<Rightarrow> broadcast list \<times> session \<times> 'st" where
  "Run_events S opts bcast [] s st = ([], s, st)"
| "Run_events S opts bcast (ev # evs) s st =
     (case handle S opts bcast ev s st of
        (bs, s, st) \<Rightarrow>
          (case Run_events S opts bcast evs s st of (bs', s, st) \<Rightarrow> (bs @ bs', s, st)))"

definition Send ::
  "'tr transport \<Rightarrow> gostring \<Rightarrow> gostring \<Rightarrow> session \<Rightarrow> 'tr \<Rightarrow> (goerr + gostring) \<times> 'tr" where
  "Send T roomID body s tr =
     (if \<not> Knows roomID s then (Inl ErrUnknownRoom, tr) else tSend T roomID body tr)"

definition MarkRead ::
  "'tr transport \<Rightarrow> 'st store \<Rightarrow> bool \<Rightarrow> gostring \<Rightarrow> gostring \<Rightarrow> session \<Rightarrow> 'st \<Rightarrow> 'tr
     \<Rightarrow> goerr option \<times> broadcast list \<times> 'st \<times> 'tr" where
  "MarkRead T S bcast roomID eventID s st tr =
     (case SetReadMarker S roomID eventID st of
        (Some err, st) \<Rightarrow> (Some err, [], st, tr)
      | (None, st) \<Rightarrow>
          (case tMarkRead T roomID eventID tr of
             (Some err, tr) \<Rightarrow> (Some err, [], st, tr)
           | (None, tr) \<Rightarrow>
               if bcast
               then (case announceRoom S roomID s st of (bs, st) \<Rightarrow> (None, bs, st, tr))
               else (None, [], st, tr)))"

definition History ::
  "'st store \<Rightarrow> gostring \<Rightarrow> int \<Rightarrow> session \<Rightarrow> 'st \<Rightarrow> (goerr + message list) \<times> 'st" where
  "History S roomID limit s st =
     (if \<not> Knows roomID s then (Inl ErrUnknownRoom, st) else RecentMessages S roomID limit st)"

fun rooms_loop ::
  "'st store \<Rightarrow> gostring list \<Rightarrow> room list \<Rightarrow> session \<Rightarrow> 'st \<Rightarrow> (goerr + room list) \<times> 'st" where
  "rooms_loop S [] out s st = (Inr out, st)"
| "rooms_loop S (rid # ids) out s st =
     (case roomView S rid s st of
        (Inl err, st) \<Rightarrow> (Inl err, st)
      | (Inr r, st) \<Rightarrow> rooms_loop S ids (out @ [r]) s st)"

definition Rooms :: "'st store \<Rightarrow> session \<Rightarrow> 'st \<Rightarrow> (goerr + room list) \<times> 'st" where
  "Rooms S s st = rooms_loop S (s_order s) [] s st"

section \<open>Names\<close>

lemma localpart_eq: "localpart uid = takeWhile (\<lambda>c. c \<noteq> CHR '':'') (TrimPrefix uid ''@'')"
  using IndexByte_cut [of "TrimPrefix uid ''@''"] by (simp add: localpart_def Let_def)

lemma normalise_fields [simp]:
  "mRoom (normalise opts m) = mRoom m" "mEvent (normalise opts m) = mEvent m"
  "mSender (normalise opts m) = mSender m" "mTS (normalise opts m) = mTS m"
  "mOwn (normalise opts m) = mOwn m" "mDisplay (normalise opts m) = aliasFor opts (mSender m)"
  "mKind (normalise opts m) = (if mKind m = [] then KindText else mKind m)"
  by (simp_all add: normalise_def Let_def)

lemma normalise_bytes: "c \<in> set (mBody (normalise opts m)) \<Longrightarrow> 0x20 \<le> bv c"
  by (auto simp: normalise_def Let_def dest: sanitize_Message_bytes)

lemma normalise_length:
  "8 \<le> body_cap (SanitizeOpts opts) \<Longrightarrow>
     int (length (mBody (normalise opts m))) \<le> body_cap (SanitizeOpts opts)"
  by (simp add: normalise_def Let_def sanitize_Message_length)

section \<open>The session's own state\<close>

text \<open>The order lists every known room once.\<close>

definition session_wf :: "session \<Rightarrow> bool" where
  "session_wf s \<longleftrightarrow> distinct (s_order s) \<and> set (s_order s) = dom (s_rooms s)"

lemma session_wf_New: "session_wf session_New"
  by (simp add: session_wf_def session_New_def)

lemma Knows_iff: "Knows r s \<longleftrightarrow> r \<in> dom (s_rooms s)"
  by (auto simp: Knows_def)

lemma ensureRoom_lookup: "ensureRoom r d s = (rs, s') \<Longrightarrow> s_rooms s' r = Some rs"
  by (auto simp: ensureRoom_def Let_def split: option.splits)

lemma ensureRoom_known: "ensureRoom r d s = (rs, s') \<Longrightarrow> dom (s_rooms s') = insert r (dom (s_rooms s))"
  by (auto simp: ensureRoom_def Let_def split: option.splits)

lemma ensureRoom_order:
  "ensureRoom r d s = (rs, s') \<Longrightarrow> s_order s' = s_order s @ (if Knows r s then [] else [r])"
  by (auto simp: ensureRoom_def Knows_def Let_def split: option.splits)

lemma ensureRoom_wf: "session_wf s \<Longrightarrow> ensureRoom r d s = (rs, s') \<Longrightarrow> session_wf s'"
  using ensureRoom_known [of r d s rs s'] ensureRoom_order [of r d s rs s']
  by (auto simp: session_wf_def Knows_iff)

lemma ensureRoom_frame:
  "ensureRoom r d s = (rs, s') \<Longrightarrow> s_connected s' = s_connected s"
  "ensureRoom r d s = (rs, s') \<Longrightarrow> q \<noteq> r \<Longrightarrow> s_rooms s' q = s_rooms s q"
  by (auto simp: ensureRoom_def Let_def split: option.splits)

text \<open>A room's display name never changes once it is not empty, and its time never goes back.\<close>

definition room_grows :: "session \<Rightarrow> session \<Rightarrow> bool" where
  "room_grows s s' \<longleftrightarrow> (\<forall>r rs. s_rooms s r = Some rs \<longrightarrow>
     (\<exists>rs'. s_rooms s' r = Some rs' \<and> rsLastTS rs \<le> rsLastTS rs'
        \<and> (rsDisplay rs \<noteq> [] \<longrightarrow> rsDisplay rs' = rsDisplay rs)))
     \<and> (\<exists>new. s_order s' = s_order s @ new)"

lemma room_grows_refl: "room_grows s s"
  by (simp add: room_grows_def)

lemma room_growsD:
  "room_grows s s' \<Longrightarrow> s_rooms s r = Some rs \<Longrightarrow>
     \<exists>rs'. s_rooms s' r = Some rs' \<and> rsLastTS rs \<le> rsLastTS rs'
       \<and> (rsDisplay rs \<noteq> [] \<longrightarrow> rsDisplay rs' = rsDisplay rs)"
  by (simp add: room_grows_def)

lemma room_grows_trans:
  assumes "room_grows s t" and "room_grows t u"
  shows "room_grows s u"
  unfolding room_grows_def
proof (intro conjI allI impI)
  fix r rs assume "s_rooms s r = Some rs"
  from room_growsD [OF assms(1) this] obtain rs1 where 1: "s_rooms t r = Some rs1"
    "rsLastTS rs \<le> rsLastTS rs1" "rsDisplay rs \<noteq> [] \<longrightarrow> rsDisplay rs1 = rsDisplay rs" by blast
  from room_growsD [OF assms(2) 1(1)] obtain rs2 where 2: "s_rooms u r = Some rs2"
    "rsLastTS rs1 \<le> rsLastTS rs2" "rsDisplay rs1 \<noteq> [] \<longrightarrow> rsDisplay rs2 = rsDisplay rs1" by blast
  from 1 2 show "\<exists>rs'. s_rooms u r = Some rs' \<and> rsLastTS rs \<le> rsLastTS rs'
      \<and> (rsDisplay rs \<noteq> [] \<longrightarrow> rsDisplay rs' = rsDisplay rs)" by auto
next
  from assms obtain x y where "s_order t = s_order s @ x" "s_order u = s_order t @ y"
    unfolding room_grows_def by blast
  then show "\<exists>new. s_order u = s_order s @ new" by simp
qed

lemma ensureRoom_grows:
  assumes "ensureRoom r d s = (rs, s')"
  shows "room_grows s s'"
  using assms by (auto simp: ensureRoom_def room_grows_def Let_def split: option.splits)

lemma touchRoom_wf: "session_wf s \<Longrightarrow> session_wf (touchRoom m s)"
proof -
  assume wf: "session_wf s"
  obtain rs s1 where e: "ensureRoom (mRoom m) (mDisplay m) s = (rs, s1)" by fastforce
  from ensureRoom_wf [OF wf e] ensureRoom_lookup [OF e] show ?thesis
    by (auto simp: touchRoom_def e session_wf_def)
qed

lemma touchRoom_grows: "room_grows s (touchRoom m s)"
proof -
  obtain rs s1 where e: "ensureRoom (mRoom m) (mDisplay m) s = (rs, s1)" by fastforce
  have "room_grows s1 (touchRoom m s)"
    using ensureRoom_lookup [OF e] by (auto simp: touchRoom_def e room_grows_def)
  with ensureRoom_grows [OF e] show ?thesis by (rule room_grows_trans)
qed

lemma touchRoom_known: "dom (s_rooms (touchRoom m s)) = insert (mRoom m) (dom (s_rooms s))"
proof -
  obtain rs s1 where e: "ensureRoom (mRoom m) (mDisplay m) s = (rs, s1)" by fastforce
  from ensureRoom_known [OF e] show ?thesis by (auto simp: touchRoom_def e)
qed

lemma touchRoom_connected: "s_connected (touchRoom m s) = s_connected s"
proof -
  obtain rs s1 where e: "ensureRoom (mRoom m) (mDisplay m) s = (rs, s1)" by fastforce
  from ensureRoom_frame(1) [OF e] show ?thesis by (auto simp: touchRoom_def e)
qed

lemma touchRoom_lookup:
  "\<exists>rs. s_rooms (touchRoom m s) (mRoom m) = Some rs \<and> mTS m \<le> rsLastTS rs
     \<and> (\<forall>old. s_rooms s (mRoom m) = Some old \<longrightarrow> rsDisplay old \<noteq> [] \<longrightarrow> rsDisplay rs = rsDisplay old)
     \<and> (s_rooms s (mRoom m) = None \<longrightarrow> rsDisplay rs = mDisplay m)"
proof (cases "s_rooms s (mRoom m)")
  case None
  then show ?thesis by (simp add: touchRoom_def ensureRoom_def Let_def)
next
  case (Some old)
  then show ?thesis by (simp add: touchRoom_def ensureRoom_def Let_def)
qed

lemma roomView_cases:
  assumes "roomView S r s st = (x, st')"
  obtains (unknown) "s_rooms s r = None" "x = Inl ErrUnknownRoom" "st' = st"
  | (failed) rs e where "s_rooms s r = Some rs" "UnreadCount S r st = (Inl e, st')" "x = Inl e"
  | (view) rs n where "s_rooms s r = Some rs" "UnreadCount S r st = (Inr n, st')"
      "x = Inr \<lparr>rRoom = r, rDisplay = rsDisplay rs, rUnread = n, rLastTS = rsLastTS rs\<rparr>"
  using assms by (auto simp: roomView_def split: option.splits prod.splits sum.splits)

lemma ingest_failed:
  "AppendMessage S (normalise opts m) st = (Some e, st1) \<Longrightarrow> ingest S opts bcast m s st = ([], s, st1)"
  by (simp add: ingest_def)

lemma ingest_stored:
  assumes "AppendMessage S (normalise opts m) st = (None, st1)"
    and "announceRoom S (mRoom m) (touchRoom (normalise opts m) s) (markOwn S (normalise opts m) st1)
           = (bs, st2)"
  shows "ingest S opts bcast m s st =
    (if bcast then (BroadcastMessage (normalise opts m) # bs, touchRoom (normalise opts m) s, st2)
     else ([], touchRoom (normalise opts m) s, markOwn S (normalise opts m) st1))"
  using assms by (simp add: ingest_def Let_def)

lemma ingest_session:
  assumes "ingest S opts bcast m s st = (bs, s', st')"
  shows "s' = s \<or> s' = touchRoom (normalise opts m) s"
  using assms by (auto simp: ingest_def Let_def split: prod.splits option.splits if_splits)

lemma handle_wf:
  assumes "session_wf s" and "handle S opts bcast ev s st = (bs, s', st')"
  shows "session_wf s' \<and> room_grows s s'"
proof (cases ev)
  case (EventMessage m)
  with ingest_session [of S opts bcast m s st bs s' st'] assms show ?thesis
    using touchRoom_wf touchRoom_grows room_grows_refl by auto
next
  case (EventConnected c)
  with assms show ?thesis by (auto simp: session_wf_def room_grows_def)
qed

lemma register_rooms_wf: "session_wf s \<Longrightarrow> session_wf (register_rooms opts rs s)"
proof (induction rs arbitrary: s)
  case Nil
  then show ?case by simp
next
  case (Cons r rs)
  obtain x s1 where e: "ensureRoom (trID r) (aliasFor opts (trDisplay r)) s = (x, s1)" by fastforce
  with ensureRoom_wf [OF Cons.prems e] Cons.IH show ?case by simp
qed

lemma register_rooms_known:
  "dom (s_rooms (register_rooms opts rs s)) = trID ` set rs \<union> dom (s_rooms s)"
proof (induction rs arbitrary: s)
  case Nil
  then show ?case by simp
next
  case (Cons r rs)
  obtain x s1 where e: "ensureRoom (trID r) (aliasFor opts (trDisplay r)) s = (x, s1)" by fastforce
  with ensureRoom_known [OF e] Cons.IH [of s1] show ?case by auto
qed

end
