(* ===== verification/Server.thy ===== *)
theory Server
  imports Proto Session
begin

text \<open>
  \<open>internal/ipc/server.go\<close>: the clients and what the daemon queues for them. A client is
  the part of the struct the program reads: the outgoing channel (a list of lines, at most
  \<open>clientQueue\<close>), the flags \<open>hello\<close>, \<open>closed\<close> and \<open>shutdown\<close> (a closed channel) and the
  drop counter. The server's set of clients is a map from client numbers, which stand for
  the pointers. The handler is an interface value: a record of its methods over a state of
  its own; a \<open>MarkRead\<close> also returns the broadcasts the handler makes while it runs.
  Socket set-up and the goroutines' scheduling are in other theories.
\<close>

section \<open>Definitions\<close>

definition clientQueue :: nat where "clientQueue = 64"

record client =
  c_out :: "gostring list"
  c_hello :: bool
  c_closed :: bool
  c_dropped :: nat
  c_shutdown :: bool

definition newClient :: client where
  "newClient = \<lparr>c_out = [], c_hello = False, c_closed = False, c_dropped = 0, c_shutdown = False\<rparr>"

type_synonym clients = "nat \<rightharpoonup> client"

record 'h handler =
  hSend :: "gostring \<Rightarrow> gostring \<Rightarrow> 'h \<Rightarrow> (goerr + gostring) \<times> 'h"
  hMarkRead :: "gostring \<Rightarrow> gostring \<Rightarrow> 'h \<Rightarrow> goerr option \<times> broadcast list \<times> 'h"
  hHistory :: "gostring \<Rightarrow> int \<Rightarrow> 'h \<Rightarrow> (goerr + message list) \<times> 'h"
  hRooms :: "'h \<Rightarrow> (goerr + room list) \<times> 'h"
  hKnows :: "gostring \<Rightarrow> 'h \<Rightarrow> bool"
  hConnected :: "'h \<Rightarrow> bool"

definition greeted :: "client \<Rightarrow> bool" where
  "greeted c \<longleftrightarrow> c_hello c"

text \<open>The retry loop of \<open>enqueue\<close>: a full queue loses its oldest line.\<close>

function enqueue_loop :: "gostring \<Rightarrow> client \<Rightarrow> client" where
  "enqueue_loop line c =
     (if length (c_out c) < clientQueue then c\<lparr>c_out := c_out c @ [line]\<rparr>
      else enqueue_loop line (c\<lparr>c_out := tl (c_out c), c_dropped := c_dropped c + 1\<rparr>))"
  by pat_completeness auto
termination
  by (relation "measure (\<lambda>(line, c). length (c_out c))") (auto simp: clientQueue_def)

declare enqueue_loop.simps [simp del]

definition enqueue :: "gostring \<Rightarrow> client \<Rightarrow> client" where
  "enqueue line c = (if c_closed c then c else enqueue_loop line c)"

definition on_client :: "nat \<Rightarrow> (client \<Rightarrow> client) \<Rightarrow> clients \<Rightarrow> clients" where
  "on_client i f cs = (case cs i of None \<Rightarrow> cs | Some c \<Rightarrow> cs(i \<mapsto> f c))"

definition send :: "nat \<Rightarrow> event \<Rightarrow> clients \<Rightarrow> clients" where
  "send i v cs = (case encode v of Inl err \<Rightarrow> cs | Inr line \<Rightarrow> on_client i (enqueue line) cs)"

text \<open>Clients are visited in no particular order; each has its own queue.\<close>

definition broadcast_line :: "event \<Rightarrow> clients \<Rightarrow> clients" where
  "broadcast_line v cs =
     (case encode v of
        Inl err \<Rightarrow> cs
      | Inr line \<Rightarrow>
          (\<lambda>i. case cs i of
                 None \<Rightarrow> None
               | Some c \<Rightarrow> Some (if greeted c then enqueue line c else c)))"

fun broadcast_event :: "broadcast \<Rightarrow> event" where
  "broadcast_event (BroadcastMessage m) = NewMessage m"
| "broadcast_event (BroadcastRoom r) = NewRoom r"

fun broadcasts :: "broadcast list \<Rightarrow> clients \<Rightarrow> clients" where
  "broadcasts [] cs = cs"
| "broadcasts (b # bs) cs = broadcasts bs (broadcast_line (broadcast_event b) cs)"

definition stopWriting :: "client \<Rightarrow> client" where
  "stopWriting c = c\<lparr>c_shutdown := True\<rparr>"

definition close_client :: "client \<Rightarrow> client" where
  "close_client c = (if c_closed c then c else stopWriting (c\<lparr>c_closed := True\<rparr>))"

definition codeFor :: "goerr \<Rightarrow> gostring" where
  "codeFor err =
     (if err_root err = ErrUnknownRoom then CodeUnknownRoom
      else if err_root err = Canceled \<or> err_root err = DeadlineExceeded then ErrOffline
      else ErrInternal)"

definition handleHello_greet :: "nat \<Rightarrow> clients \<Rightarrow> clients" where
  "handleHello_greet i cs = on_client i (\<lambda>c. c\<lparr>c_hello := True\<rparr>) cs"

definition handleHello ::
  "'h handler \<Rightarrow> gostring \<Rightarrow> nat \<Rightarrow> Command \<Rightarrow> clients \<Rightarrow> 'h \<Rightarrow> bool \<times> clients" where
  "handleHello H version i cmd cs h =
     (if cProto cmd \<noteq> ProtoVersion
      then (False, send i (NewError (cID cmd) ErrBadProto (''daemon speaks proto '' @ itoa ProtoVersion)) cs)
      else (True, send i (NewReady (cID cmd) (hConnected H h) version) (handleHello_greet i cs)))"

definition handleSend ::
  "'h handler \<Rightarrow> nat \<Rightarrow> Command \<Rightarrow> clients \<Rightarrow> 'h \<Rightarrow> clients \<times> 'h" where
  "handleSend H i cmd cs h =
     (if cRoom cmd = [] \<or> cBody cmd = []
      then (send i (NewError (cID cmd) ErrBadRequest ''send needs room and body'') cs, h)
      else if \<not> hKnows H (cRoom cmd) h
      then (send i (NewError (cID cmd) CodeUnknownRoom ''room not found'') cs, h)
      else if \<not> hConnected H h
      then (send i (NewError (cID cmd) ErrOffline ''not connected'') cs, h)
      else case hSend H (cRoom cmd) (cBody cmd) h of
             (Inl err, h) \<Rightarrow> (send i (NewError (cID cmd) (codeFor err) (err_text err)) cs, h)
           | (Inr ev, h) \<Rightarrow> (send i (NewAck (cID cmd) ev) cs, h))"

definition handleMarkRead ::
  "'h handler \<Rightarrow> nat \<Rightarrow> Command \<Rightarrow> clients \<Rightarrow> 'h \<Rightarrow> clients \<times> 'h" where
  "handleMarkRead H i cmd cs h =
     (if cRoom cmd = []
      then (send i (NewError (cID cmd) ErrBadRequest ''mark_read needs room'') cs, h)
      else if \<not> hKnows H (cRoom cmd) h
      then (send i (NewError (cID cmd) CodeUnknownRoom ''room not found'') cs, h)
      else case hMarkRead H (cRoom cmd) (cEvent cmd) h of
             (Some err, bs, h) \<Rightarrow>
               (send i (NewError (cID cmd) (codeFor err) (err_text err)) (broadcasts bs cs), h)
           | (None, bs, h) \<Rightarrow> (send i (NewAck (cID cmd) []) (broadcasts bs cs), h))"

definition history_limit :: "int \<Rightarrow> int" where
  "history_limit limit =
     (let limit = (if limit \<le> 0 then DefaultHistoryLimit else limit)
      in if limit > MaxHistoryLimit then MaxHistoryLimit else limit)"

definition handleHistory ::
  "'h handler \<Rightarrow> nat \<Rightarrow> Command \<Rightarrow> clients \<Rightarrow> 'h \<Rightarrow> clients \<times> 'h" where
  "handleHistory H i cmd cs h =
     (if cRoom cmd = []
      then (send i (NewError (cID cmd) ErrBadRequest ''history needs room'') cs, h)
      else case hHistory H (cRoom cmd) (history_limit (cLimit cmd)) h of
             (Inl err, h) \<Rightarrow> (send i (NewError (cID cmd) (codeFor err) (err_text err)) cs, h)
           | (Inr msgs, h) \<Rightarrow> (send i (NewHistory (cID cmd) (cRoom cmd) msgs) cs, h))"

definition handleRooms ::
  "'h handler \<Rightarrow> nat \<Rightarrow> Command \<Rightarrow> clients \<Rightarrow> 'h \<Rightarrow> clients \<times> 'h" where
  "handleRooms H i cmd cs h =
     (case hRooms H h of
        (Inl err, h) \<Rightarrow> (send i (NewError (cID cmd) (codeFor err) (err_text err)) cs, h)
      | (Inr rooms, h) \<Rightarrow> (send i (NewRooms (cID cmd) rooms) cs, h))"

definition is_greeted :: "nat \<Rightarrow> clients \<Rightarrow> bool" where
  "is_greeted i cs \<longleftrightarrow> (case cs i of None \<Rightarrow> False | Some c \<Rightarrow> greeted c)"

definition dispatch ::
  "'h handler \<Rightarrow> gostring \<Rightarrow> nat \<Rightarrow> gostring \<Rightarrow> clients \<Rightarrow> 'h \<Rightarrow> bool \<times> clients \<times> 'h" where
  "dispatch H version i line cs h =
     (case decode_command line of
        None \<Rightarrow> (False, send i (NewError [] ErrBadRequest ''malformed json'') cs, h)
      | Some cmd \<Rightarrow>
          if cT cmd \<noteq> CmdHello \<and> \<not> is_greeted i cs
          then (False, send i (NewError (cID cmd) ErrBadRequest ''hello required first'') cs, h)
          else if cT cmd = CmdHello
          then (case handleHello H version i cmd cs h of (ok, cs) \<Rightarrow> (ok, cs, h))
          else if cT cmd = CmdSend then (True, handleSend H i cmd cs h)
          else if cT cmd = CmdMarkRead then (True, handleMarkRead H i cmd cs h)
          else if cT cmd = CmdHistory then (True, handleHistory H i cmd cs h)
          else if cT cmd = CmdRooms then (True, handleRooms H i cmd cs h)
          else (True, send i (NewError (cID cmd) ErrBadRequest (''unknown command '' @ cT cmd)) cs, h))"

text \<open>The reading loop of \<open>serve\<close>: the lines of the connection in order, empty ones skipped,
  until one ends the conversation.\<close>

fun serve_lines ::
  "'h handler \<Rightarrow> gostring \<Rightarrow> nat \<Rightarrow> gostring list \<Rightarrow> clients \<Rightarrow> 'h \<Rightarrow> clients \<times> 'h" where
  "serve_lines H version i [] cs h = (cs, h)"
| "serve_lines H version i (line # ls) cs h =
     (if line = [] then serve_lines H version i ls cs h
      else case dispatch H version i line cs h of
             (ok, cs, h) \<Rightarrow> if ok then serve_lines H version i ls cs h else (cs, h))"

end
