(* ===== verification/SessionProps.thy ===== *)
theory SessionProps
  imports Session
begin

text \<open>
  The session over a store that keeps its contract. The lemmas are proved once inside the
  store locales of \<open>StoreSpec\<close>; the properties are their instances for the SQLite store
  (statements may fail) and the in-memory store.
\<close>

section \<open>Broadcasts that tell the truth\<close>

text \<open>
  A message broadcast is itself in the store's log for its room, unless the store \<open>a0\<close> before it came
  already had its event (a replay: the store keeps what it has, the broadcast is what came); a room
  broadcast carries the name and time the session holds and the unread count the store derives.
\<close>

fun truthful :: "astore \<Rightarrow> session \<Rightarrow> astore \<Rightarrow> broadcast \<Rightarrow> bool" where
  "truthful a0 s a (BroadcastMessage m) \<longleftrightarrow>
     m \<in> set (a_log a (mRoom m))
   \<or> has_event (mEvent m) (a_log a0 (mRoom m)) \<and> has_event (mEvent m) (a_log a (mRoom m))"
| "truthful a0 s a (BroadcastRoom r) \<longleftrightarrow>
     (\<exists>rs. s_rooms s (rRoom r) = Some rs \<and> rDisplay r = rsDisplay rs \<and> rLastTS r = rsLastTS rs)
       \<and> rUnread r = a_unread (rRoom r) a"

fun broadcast_clean :: "broadcast \<Rightarrow> bool" where
  "broadcast_clean (BroadcastMessage m) \<longleftrightarrow> (\<forall>c\<in>set (mBody m). 0x20 \<le> bv c) \<and> mKind m \<noteq> []"
| "broadcast_clean (BroadcastRoom r) \<longleftrightarrow> True"

lemma normalise_clean: "broadcast_clean (BroadcastMessage (normalise opts m))"
  by (auto simp: kind_defs dest: normalise_bytes)

lemma a_append_has_event:
  "0 < c \<Longrightarrow> has_event (mEvent m) (a_log (a_append c m a) (mRoom m))"
  by (auto simp: store_simps lastn_snoc has_event_def)

lemma a_append_stored:
  "0 < c \<Longrightarrow> m \<in> set (a_log (a_append c m a) (mRoom m))
     \<or> has_event (mEvent m) (a_log a (mRoom m)) \<and> has_event (mEvent m) (a_log (a_append c m a) (mRoom m))"
  by (auto simp: store_simps lastn_snoc)

lemma a_unread_append_own:
  assumes "a_wf a" and "0 < c" and "mEvent m \<noteq> []"
    and "\<not> has_event (mEvent m) (a_log a (mRoom m))"
  shows "a_unread (mRoom m) (a_mark (mRoom m) (mEvent m) (a_append c m a)) = 0"
proof -
  let ?b = "a_append c m a"
  have log: "a_log ?b (mRoom m) = lastn (c - 1) (a_log a (mRoom m)) @ [m]"
    using assms by (simp add: store_simps lastn_snoc)
  have "log_ok (mRoom m) (a_log ?b (mRoom m))" using assms a_wf_append [of a m c] by (simp add: a_wf_def)
  with log have "unseen (mEvent m) (a_log ?b (mRoom m)) = []" by (simp add: unseen_at)
  with assms(3) show ?thesis by (simp add: a_unread_def store_simps)
qed

context store_contract
begin

lemma announce_contract:
  assumes "inv st" and "announceRoom ops r s st = (bs, st')"
  shows "inv st' \<and> cap st' = cap st \<and> abs st' = abs st \<and> list_all (truthful a0 s (abs st)) bs
    \<and> list_all broadcast_clean bs"
proof -
  obtain x st1 where v: "roomView ops r s st = (x, st1)" by fastforce
  from v show ?thesis
  proof (cases rule: roomView_cases)
    case unknown
    with v assms show ?thesis by (auto simp: announceRoom_def)
  next
    case (failed rs e)
    with v assms unread_err [OF assms(1) failed(2)] show ?thesis by (auto simp: announceRoom_def)
  next
    case (view rs n)
    with v assms unread_ok [OF assms(1) view(2)] show ?thesis by (auto simp: announceRoom_def)
  qed
qed

lemma markOwn_frame:
  assumes "inv st"
  shows "\<exists>st'. markOwn ops m st = st' \<and> inv st' \<and> cap st' = cap st \<and> a_log (abs st') = a_log (abs st)"
proof -
  obtain e st1 where "SetReadMarker ops (mRoom m) (mEvent m) st = (e, st1)" by fastforce
  with assms mark_ok [of st "mRoom m" "mEvent m" st1] mark_err [of st "mRoom m" "mEvent m" _ st1]
  show ?thesis by (cases e) (auto simp: markOwn_def a_log_mark intro!: ext)
qed

lemma ingest_contract:
  assumes "inv st" and "mEvent m \<noteq> []" and "ingest ops opts bcast m s st = (bs, s', st')"
  shows "inv st' \<and> cap st' = cap st \<and> list_all (truthful (abs st) s' (abs st')) bs
    \<and> list_all broadcast_clean bs"
proof -
  let ?m = "normalise opts m"
  obtain e st1 where a: "AppendMessage ops ?m st = (e, st1)" by fastforce
  show ?thesis
  proof (cases e)
    case (Some x)
    with a assms append_err [of st ?m x st1] show ?thesis by (auto simp: ingest_def)
  next
    case None
    with a have ok: "inv st1" "cap st1 = cap st" "abs st1 = a_append (cap st) ?m (abs st)"
      using append_ok [of st ?m st1] assms by auto
    from markOwn_frame [OF ok(1), of ?m] obtain st2 where st2: "markOwn ops ?m st1 = st2"
      "inv st2" "cap st2 = cap st1" "a_log (abs st2) = a_log (abs st1)" by blast
    have stored: "truthful (abs st) s1 (abs st2) (BroadcastMessage ?m)" for s1
      using st2(4) ok a_append_stored [OF cap_pos [OF assms(1)], of ?m "abs st"] by simp
    obtain bs1 st3 where an: "announceRoom ops (mRoom ?m) (touchRoom ?m s) st2 = (bs1, st3)"
      by fastforce
    with announce_contract [OF st2(2)] st2 ok
    have "inv st3 \<and> cap st3 = cap st \<and> abs st3 = abs st2
        \<and> list_all (truthful (abs st) (touchRoom ?m s) (abs st2)) bs1 \<and> list_all broadcast_clean bs1" by auto
    moreover have "announceRoom ops (mRoom m) (touchRoom ?m s) (markOwn ops ?m st1) = (bs1, st3)"
      using an st2(1) by simp
    ultimately show ?thesis
      using ingest_stored [OF a [unfolded None], of s bs1 st3 bcast] assms(3) stored st2 ok
        normalise_clean [of opts m]
      by (auto simp del: broadcast_clean.simps truthful.simps split: if_splits)
  qed
qed

lemma MarkRead_contract:
  assumes "inv st" and "MarkRead T ops bcast r ev s st tr = (e, bs, st', tr')"
  shows "inv st' \<and> cap st' = cap st \<and> list_all (truthful a0 s (abs st')) bs
    \<and> (e = None \<longrightarrow> abs st' = a_mark r ev (abs st)) \<and> (e \<noteq> None \<longrightarrow> bs = [])"
proof -
  obtain e1 st1 where m: "SetReadMarker ops r ev st = (e1, st1)" by fastforce
  obtain e2 tr1 where t: "tMarkRead T r ev tr = (e2, tr1)" by fastforce
  obtain bs1 st2 where an: "announceRoom ops r s st1 = (bs1, st2)" by fastforce
  show ?thesis
  proof (cases e1)
    case (Some x)
    with m assms mark_err [of st r ev x st1] show ?thesis by (auto simp: MarkRead_def)
  next
    case None
    with m have ok: "inv st1" "cap st1 = cap st" "abs st1 = a_mark r ev (abs st)"
      using mark_ok [of st r ev st1] assms(1) by auto
    with m None t an assms(2) announce_contract [OF ok(1) an] show ?thesis
      by (cases e2) (auto simp: MarkRead_def split: if_splits)
  qed
qed

lemma Rooms_contract:
  "inv st \<Longrightarrow> rooms_loop ops ids out s st = (Inr rs, st') \<Longrightarrow>
     inv st' \<and> abs st' = abs st \<and> (\<exists>new. rs = out @ new \<and> map rRoom new = ids
       \<and> list_all (\<lambda>r. truthful a0 s (abs st) (BroadcastRoom r)) new)"
proof (induction ids arbitrary: out st)
  case Nil
  then show ?case by simp
next
  case (Cons i ids)
  obtain x st1 where v: "roomView ops i s st = (x, st1)" by fastforce
  from v show ?case
  proof (cases rule: roomView_cases)
    case (view q n)
    then have u: "inv st1" "abs st1 = abs st" "n = a_unread i (abs st)"
      using unread_ok [OF Cons.prems(1) view(2)] by auto
    with Cons.IH [OF u(1)] Cons.prems(2) v view show ?thesis by fastforce
  qed (use v Cons.prems in auto)
qed

end

context reliable_store
begin

text \<open>Without store failures the effect of \<open>ingest\<close> is completely determined.\<close>

lemma ingest_effect:
  fixes opts :: session_options and m :: message and s :: session and st :: 'a
  assumes "inv st" and "mEvent m \<noteq> []"
  defines "m' \<equiv> normalise opts m" and "s' \<equiv> touchRoom (normalise opts m) s"
  defines "a' \<equiv> (if mOwn m then a_mark (mRoom m) (mEvent m) else (\<lambda>a. a))
                   (a_append (cap st) (normalise opts m) (abs st))"
  shows "\<exists>st' rs. ingest ops opts True m s st =
      ([BroadcastMessage m', BroadcastRoom \<lparr>rRoom = mRoom m, rDisplay = rsDisplay rs,
         rUnread = a_unread (mRoom m) a', rLastTS = rsLastTS rs\<rparr>], s', st')
    \<and> s_rooms s' (mRoom m) = Some rs \<and> inv st' \<and> cap st' = cap st \<and> abs st' = a'"
proof -
  obtain st1 where a: "AppendMessage ops m' st = (None, st1)"
    using append_total [OF assms(1), of m'] assms(2) by (cases "AppendMessage ops m' st") (auto simp: m'_def)
  then have ok: "inv st1" "cap st1 = cap st" "abs st1 = a_append (cap st) m' (abs st)"
    using append_ok [OF assms(1) _ a] assms(2) by (auto simp: m'_def)
  define st2 where "st2 = markOwn ops m' st1"
  have st2: "inv st2 \<and> cap st2 = cap st \<and> abs st2 = a'"
  proof (cases "mOwn m")
    case False
    with ok show ?thesis by (simp add: st2_def markOwn_def a'_def m'_def)
  next
    case True
    obtain st3 where st3: "SetReadMarker ops (mRoom m) (mEvent m) st1 = (None, st3)"
      using mark_total [OF ok(1), of "mRoom m" "mEvent m"]
      by (cases "SetReadMarker ops (mRoom m) (mEvent m) st1") auto
    with True ok mark_ok [OF ok(1) st3] show ?thesis
      by (simp add: st2_def markOwn_def a'_def m'_def)
  qed
  obtain rs where rs: "s_rooms s' (mRoom m) = Some rs"
    using touchRoom_lookup [of m' s] by (auto simp: s'_def m'_def)
  obtain n st3 where u: "UnreadCount ops (mRoom m) st2 = (Inr n, st3)"
    using unread_total [of st2 "mRoom m"] st2 by (cases "UnreadCount ops (mRoom m) st2") auto
  with unread_ok [of st2, OF _ u] st2
  have "inv st3 \<and> cap st3 = cap st \<and> abs st3 = a' \<and> n = a_unread (mRoom m) a'" by simp
  moreover have "announceRoom ops (mRoom m) s' st2 = ([BroadcastRoom \<lparr>rRoom = mRoom m,
      rDisplay = rsDisplay rs, rUnread = n, rLastTS = rsLastTS rs\<rparr>], st3)"
    using u rs by (simp add: announceRoom_def roomView_def)
  then have "ingest ops opts True m s st = ([BroadcastMessage m', BroadcastRoom \<lparr>rRoom = mRoom m,
      rDisplay = rsDisplay rs, rUnread = n, rLastTS = rsLastTS rs\<rparr>], s', st3)"
    using ingest_stored [OF a [unfolded m'_def]] by (simp add: st2_def s'_def m'_def)
  ultimately show ?thesis using rs by auto
qed

end

lemma ingest_told:
  assumes "x = fst (AppendMessage S (normalise opts m) st)" and "ingest S opts bcast m s st = (bs, s', st')"
  shows "if bcast \<and> x = None
       then bs = [BroadcastMessage (normalise opts m)]
          \<or> (\<exists>v. rRoom v = mRoom m \<and> bs = [BroadcastMessage (normalise opts m), BroadcastRoom v])
       else bs = []"
proof -
  obtain st1 where a: "AppendMessage S (normalise opts m) st = (x, st1)" using assms(1) by (metis prod.collapse)
  show ?thesis
  proof (cases x)
    case (Some e)
    with a assms(2) show ?thesis by (simp add: ingest_failed)
  next
    case None
    define st2 where "st2 = markOwn S (normalise opts m) st1"
    obtain y st3 where v: "roomView S (mRoom m) (touchRoom (normalise opts m) s) st2 = (y, st3)" by fastforce
    have "announceRoom S (mRoom m) (touchRoom (normalise opts m) s) st2 =
        (case y of Inr r \<Rightarrow> [BroadcastRoom r] | Inl _ \<Rightarrow> [], st3)"
      using v by (simp add: announceRoom_def split: sum.split)
    from ingest_stored [OF a [unfolded None] this [unfolded st2_def]] assms(2) None
    show ?thesis using v by (auto elim!: roomView_cases split: sum.splits if_splits)
  qed
qed

section \<open>Properties\<close>

text \<open>C11: the session never tells a client something false, whatever SQL statement fails.
  If the store refuses an incoming message nothing is told; otherwise clients are told the message, as
  it was sanitised, and after it at most its room. The message told is itself in the store, unless its
  event was there already (a replay, of which the store keeps the first version). A room told carries
  the session's name and time for the room and the unread count of the store, no body told has a
  control byte, and the store invariant survives. (The sender's name and address are passed on as they
  came; JSON's escapes keep them inside their line.)\<close>

theorem ingest_broadcasts_sound:
  assumes "sq_inv st" and "mEvent m \<noteq> []"
    and "ingest sqlite_store opts bcast m s st = (bs, s', st')"
  shows "sq_inv st' \<and> list_all (truthful (sq_abs st) s' (sq_abs st')) bs \<and> list_all broadcast_clean bs
    \<and> (if bcast \<and> fst (sq_AppendMessage (normalise opts m) st) = None
       then bs = [BroadcastMessage (normalise opts m)]
          \<or> (\<exists>v. rRoom v = mRoom m \<and> bs = [BroadcastMessage (normalise opts m), BroadcastRoom v])
       else bs = [])"
proof -
  have "fst (sq_AppendMessage (normalise opts m) st) = fst (AppendMessage sqlite_store (normalise opts m) st)"
    by (simp add: sqlite_store_def)
  then have "if bcast \<and> fst (sq_AppendMessage (normalise opts m) st) = None
       then bs = [BroadcastMessage (normalise opts m)]
          \<or> (\<exists>v. rRoom v = mRoom m \<and> bs = [BroadcastMessage (normalise opts m), BroadcastRoom v])
       else bs = []"
    using assms(3) by (rule ingest_told)
  with sq.ingest_contract [OF assms] show ?thesis by simp
qed

definition plain_options :: session_options where
  "plain_options =
     \<lparr>Aliases = Map.empty, SanitizeOpts = \<lparr>StripEmoji = True, MaxBody = 0\<rparr>\<rparr>"

definition faulty_db :: sqlite where
  "faulty_db = OpenSQLite 2 (sq_fresh (\<lambda>n. if n = 3 then Some (Opaque ''locked'') else None))"

lemma faulty_inv: "sq_inv faulty_db"
  by (simp add: faulty_db_def open_inv)

theorem ingest_broadcasts_sound_witness:
  "case ingest sqlite_store plain_options True (sample_message ''e1'' False) session_New faulty_db of
     (bs, s', st') \<Rightarrow> sq_inv st' \<and> list_all (truthful (sq_abs faulty_db) s' (sq_abs st')) bs"
  using ingest_broadcasts_sound [OF faulty_inv, of "sample_message ''e1'' False" plain_options True
      session_New] by (auto split: prod.split)

text \<open>What a new message does to the count clients see. With a store whose statements
  succeed, an incoming message is broadcast followed by its room. If its event is new and the
  room's log is not full, the room's unread count is one more for someone else's message
  and zero for one's own. If the event was already stored, someone else's message is
  broadcast again but the count stays.\<close>

theorem ingest_unread:
  assumes "sq_reliable st" and "mEvent m \<noteq> []"
    and "sq_markers st (mRoom m) \<noteq> Some (mEvent m)"
    and "length (a_log (sq_abs st) (mRoom m)) < sq_cap st"
  shows "\<exists>r s' st'. ingest sqlite_store opts True m s st =
      ([BroadcastMessage (normalise opts m), BroadcastRoom r], s', st') \<and> rRoom r = mRoom m
    \<and> (\<not> has_event (mEvent m) (a_log (sq_abs st) (mRoom m)) \<longrightarrow>
         rUnread r = (if mOwn m then 0 else a_unread (mRoom m) (sq_abs st) + 1))
    \<and> (has_event (mEvent m) (a_log (sq_abs st) (mRoom m)) \<and> \<not> mOwn m \<longrightarrow>
         rUnread r = a_unread (mRoom m) (sq_abs st))"
proof -
  let ?a = "sq_abs st" and ?m = "normalise opts m"
  have wf: "a_wf ?a" "0 < sq_cap st" using sqr.inv_wf sqr.cap_pos assms(1) by auto
  have "a_marker ?a (mRoom m) \<noteq> mEvent m"
    using assms(2,3) by (auto simp: a_marker_def sq_abs_def split: option.splits)
  then have "\<not> has_event (mEvent m) (a_log ?a (mRoom m)) \<Longrightarrow> \<not> mOwn m \<Longrightarrow>
      a_unread (mRoom m) (a_append (sq_cap st) ?m ?a) = a_unread (mRoom m) ?a + 1"
    using a_unread_append_fresh [of ?m ?a "sq_cap st"] assms(4) by simp
  moreover have "\<not> has_event (mEvent m) (a_log ?a (mRoom m)) \<Longrightarrow>
      a_unread (mRoom m) (a_mark (mRoom m) (mEvent m) (a_append (sq_cap st) ?m ?a)) = 0"
    using a_unread_append_own [of ?a "sq_cap st" ?m] wf assms(2) by simp
  moreover have "has_event (mEvent m) (a_log ?a (mRoom m)) \<Longrightarrow> a_append (sq_cap st) ?m ?a = ?a"
    by (simp add: a_append_def)
  ultimately show ?thesis
    using sqr.ingest_effect [OF assms(1,2), of opts s] by (auto split: if_splits)
qed

lemma reliable_open: "sq_reliable (OpenSQLite c (sq_fresh (\<lambda>_. None)))"
  and abs_open: "sq_abs (OpenSQLite c (sq_fresh (\<lambda>_. None))) = a_empty"
  using sq_open_fresh by auto

theorem ingest_unread_witness:
  "\<exists>r s' st'. ingest sqlite_store plain_options True (sample_message ''e1'' False) session_New
      (OpenSQLite 2 (sq_fresh (\<lambda>_. None))) =
      ([BroadcastMessage (normalise plain_options (sample_message ''e1'' False)), BroadcastRoom r],
       s', st') \<and> rUnread r = 1"
proof -
  let ?m = "sample_message ''e1'' False" and ?db = "OpenSQLite 2 (sq_fresh (\<lambda>_. None))"
  have "sq_markers ?db (mRoom ?m) \<noteq> Some (mEvent ?m)" "sq_cap ?db = 2"
    by (simp_all add: OpenSQLite_def sq_fresh_def sq_cap_def)
  moreover have "a_unread (mRoom ?m) (sq_abs ?db) = 0" "\<not> mOwn ?m"
    by (simp_all add: abs_open a_unread_def unseen_def store_simps sample_message_def)
  moreover have "a_log (sq_abs ?db) (mRoom ?m) = []" by (simp add: abs_open store_simps)
  ultimately show ?thesis
    using ingest_unread [OF reliable_open, of ?m 2 plain_options session_New]
    by (simp add: has_event_def) blast
qed

text \<open>C23: a whole run of events, with SQL failures anywhere. Every event ID being
  non-empty, the store invariant holds at the end, the session still lists each room once,
  no room is forgotten or renamed, no room's time goes back, and every message that went
  to clients is free of control bytes.\<close>

theorem run_events_sound:
  assumes "\<And>m. EventMessage m \<in> set evs \<Longrightarrow> mEvent m \<noteq> []"
    and "sq_inv st" and "session_wf s"
    and "Run_events sqlite_store opts bcast evs s st = (bs, s', st')"
  shows "sq_inv st' \<and> session_wf s' \<and> room_grows s s' \<and> list_all broadcast_clean bs"
  using assms
proof (induction evs arbitrary: s st bs)
  case Nil
  then show ?case by (simp add: room_grows_refl)
next
  case (Cons ev evs)
  obtain b1 s1 st1 where h: "handle sqlite_store opts bcast ev s st = (b1, s1, st1)"
    by (metis prod_cases3)
  obtain b2 where r: "Run_events sqlite_store opts bcast evs s1 st1 = (b2, s', st')" and "bs = b1 @ b2"
    using Cons.prems(4) h by (auto split: prod.splits)
  moreover have "sq_inv st1 \<and> list_all broadcast_clean b1"
  proof (cases ev)
    case (EventMessage m)
    with Cons.prems(1,2) h sq.ingest_contract [of st m opts bcast s b1 s1 st1] show ?thesis by simp
  next
    case (EventConnected c)
    with Cons.prems(2) h show ?thesis by auto
  qed
  moreover have "session_wf s1 \<and> room_grows s s1" using handle_wf [OF Cons.prems(3) h] .
  ultimately show ?case using Cons.IH [OF _ _ _ r] Cons.prems(1) room_grows_trans by auto
qed

theorem run_events_sound_witness:
  "case Run_events sqlite_store plain_options True
      [EventMessage (sample_message ''e1'' False), EventConnected True,
       EventMessage (sample_message ''e2'' True)] session_New faulty_db of
     (bs, s', st') \<Rightarrow> sq_inv st' \<and> session_wf s' \<and> list_all broadcast_clean bs"
proof -
  let ?evs = "[EventMessage (sample_message ''e1'' False), EventConnected True,
       EventMessage (sample_message ''e2'' True)]"
  obtain bs s' st' where e: "Run_events sqlite_store plain_options True ?evs session_New faulty_db
      = (bs, s', st')" by (metis prod_cases3)
  have "\<And>m. EventMessage m \<in> set ?evs \<Longrightarrow> mEvent m \<noteq> []" by auto
  from run_events_sound [OF this faulty_inv session_wf_New e]
  show ?thesis unfolding e by simp
qed

lemma ingest_names:
  assumes "s_rooms s (mRoom m) = None" and "ingest S opts bcast m s st = (bs, s1, st1)"
    and "fst (AppendMessage S (normalise opts m) st) = None"
  shows "\<exists>rs. s_rooms s1 (mRoom m) = Some rs \<and> rsDisplay rs = aliasFor opts (mSender m)"
proof -
  obtain st2 where a: "AppendMessage S (normalise opts m) st = (None, st2)"
    using assms(3) by (cases "AppendMessage S (normalise opts m) st") auto
  obtain b2 st3 where "announceRoom S (mRoom m) (touchRoom (normalise opts m) s)
      (markOwn S (normalise opts m) st2) = (b2, st3)" by fastforce
  from ingest_stored [OF a this] assms(2) have "s1 = touchRoom (normalise opts m) s"
    by (auto split: if_splits)
  with touchRoom_lookup [of "normalise opts m" s] assms(1) show ?thesis by auto
qed

lemma Run_events_grows:
  "session_wf s \<Longrightarrow> Run_events S opts bcast evs s st = (bs, s', st') \<Longrightarrow> room_grows s s'"
proof (induction evs arbitrary: s st bs)
  case Nil
  then show ?case by (simp add: room_grows_refl)
next
  case (Cons ev evs)
  obtain b1 s1 st1 where h: "handle S opts bcast ev s st = (b1, s1, st1)" by (metis prod_cases3)
  obtain b2 where r: "Run_events S opts bcast evs s1 st1 = (b2, s', st')"
    using Cons.prems(2) h by (auto split: prod.splits)
  with Cons.IH [of s1] handle_wf [OF Cons.prems(1) h] room_grows_trans show ?case by blast
qed

text \<open>A room the session did not know is named after whoever writes in it first, also
  when that is the user, and no later event changes the name.\<close>

theorem room_named_after_first_sender:
  assumes "session_wf s" and "s_rooms s (mRoom m) = None" and "aliasFor opts (mSender m) \<noteq> []"
    and "fst (AppendMessage S (normalise opts m) st) = None"
    and "Run_events S opts bcast (EventMessage m # evs) s st = (bs, s', st')"
  shows "\<exists>rs. s_rooms s' (mRoom m) = Some rs \<and> rsDisplay rs = aliasFor opts (mSender m)"
proof -
  obtain b1 s1 st1 where i: "ingest S opts bcast m s st = (b1, s1, st1)" by (metis prod_cases3)
  obtain b2 where r: "Run_events S opts bcast evs s1 st1 = (b2, s', st')"
    using assms(5) i by (auto split: prod.splits)
  have "session_wf s1" using handle_wf [of s S opts bcast "EventMessage m"] assms(1) i by simp
  from Run_events_grows [OF this r] ingest_names [OF assms(2) i assms(4)] assms(3)
  show ?thesis by (auto dest: room_growsD)
qed

theorem room_named_after_first_sender_witness:
  "\<exists>rs. s_rooms (fst (snd (Run_events memory_store plain_options True
      [EventMessage (sample_message ''e1'' True), EventMessage (sample_message ''e2'' False)]
      session_New (NewMemory 9)))) ''!r'' = Some rs \<and> rsDisplay rs = ''mia''"
proof -
  let ?m = "sample_message ''e1'' True"
  have a: "aliasFor plain_options (mSender ?m) = ''mia''"
    by (simp add: aliasFor_def plain_options_def sample_message_def localpart_eq TrimPrefix_def
        HasPrefix_def)
  have r: "mRoom ?m = ''!r''" by (simp add: sample_message_def)
  obtain bs s' st' where e: "Run_events memory_store plain_options True
      [EventMessage ?m, EventMessage (sample_message ''e2'' False)] session_New (NewMemory 9)
      = (bs, s', st')" by (metis prod_cases3)
  have "fst (AppendMessage memory_store (normalise plain_options ?m) (NewMemory 9)) = None"
    using mem.append_total [OF mem_inv_New, of "normalise plain_options ?m" 9] by simp
  from room_named_after_first_sender [OF session_wf_New _ _ this e] a r e show ?thesis
    by (simp add: session_New_def del: Run_events.simps)
qed

text \<open>The room list of the session. When the SQL statements succeed, \<open>Rooms\<close> answers with
  every room once, in the order the session met them, each with its name, time and the
  store's unread count; the store's contents are untouched.\<close>

theorem rooms_listing:
  assumes "sq_inv st" and "session_wf s" and "Rooms sqlite_store s st = (Inr rs, st')"
  shows "map rRoom rs = s_order s \<and> distinct (map rRoom rs)
    \<and> set (map rRoom rs) = dom (s_rooms s)
    \<and> list_all (\<lambda>r. truthful (sq_abs st) s (sq_abs st) (BroadcastRoom r)) rs \<and> sq_abs st' = sq_abs st"
  using sq.Rooms_contract [OF assms(1) assms(3) [unfolded Rooms_def]] assms(2)
  by (auto simp: session_wf_def)

theorem rooms_listing_witness:
  "\<exists>r st'. Rooms sqlite_store (snd (ensureRoom ''!r'' ''mia'' session_New)) faulty_db = (Inr [r], st')
     \<and> map rRoom [r] = [''!r'']"
proof -
  let ?s = "snd (ensureRoom ''!r'' ''mia'' session_New)"
  have o: "s_order ?s = [''!r'']" by (simp add: ensureRoom_def session_New_def Let_def)
  have wf: "session_wf ?s"
    using ensureRoom_wf [OF session_wf_New, of "''!r''" "''mia''"] by (metis prod.collapse)
  obtain r st' where e: "Rooms sqlite_store ?s faulty_db = (Inr [r], st')"
    by (simp add: Rooms_def o roomView_def ensureRoom_def session_New_def Let_def faulty_db_def
        sqlite_store_def sq_UnreadCount_def OpenSQLite_def sq_fresh_def sq_stmt_def sql_marker_seq_def)
  with rooms_listing [OF faulty_inv wf e] o show ?thesis by auto
qed

text \<open>C22: marking a room read. When the store fails, the homeserver is not asked. When the
  homeserver refuses, the local marker has moved all the same but clients are told nothing. On success
  the local marker is what was asked for, and clients are told the room with its new count, and only
  that; they are told nothing only if the room is unknown or the count cannot be read.\<close>

theorem mark_read_effect:
  assumes "sq_inv st" and "MarkRead T sqlite_store bcast r ev s st tr = (e, bs, st', tr')"
  shows "sq_inv st' \<and> list_all (truthful (sq_abs st) s (sq_abs st')) bs
    \<and> (case fst (sq_SetReadMarker r ev st) of
         Some err \<Rightarrow> e = Some err \<and> sq_abs st' = sq_abs st \<and> tr' = tr \<and> bs = []
       | None \<Rightarrow> (e, tr') = tMarkRead T r ev tr \<and> sq_abs st' = a_mark r ev (sq_abs st)
           \<and> (if e = None \<and> bcast \<and> Knows r s
                 \<and> \<not> isl (fst (sq_UnreadCount r (snd (sq_SetReadMarker r ev st))))
              then \<exists>v. bs = [BroadcastRoom v] \<and> rRoom v = r \<and> rUnread v = a_unread r (a_mark r ev (sq_abs st))
              else bs = []))"
proof -
  obtain e1 st1 where m: "sq_SetReadMarker r ev st = (e1, st1)" by fastforce
  obtain e2 tr1 where t: "tMarkRead T r ev tr = (e2, tr1)" by fastforce
  obtain x st2 where v: "roomView sqlite_store r s st1 = (x, st2)" by fastforce
  have an: "announceRoom sqlite_store r s st1 = (case x of Inr v \<Rightarrow> [BroadcastRoom v] | Inl _ \<Rightarrow> [], st2)"
    using v by (simp add: announceRoom_def split: sum.split)
  note base = sq.MarkRead_contract [OF assms, where ?a0.0 = "sq_abs st"]
  show ?thesis
  proof (cases e1)
    case (Some x)
    with m base assms sq.mark_err [of st r ev x st1] show ?thesis by (auto simp: MarkRead_def)
  next
    case None
    with m have st1: "sq_inv st1" "sq_abs st1 = a_mark r ev (sq_abs st)"
      using sq.mark_ok [of st r ev st1] assms(1) by auto
    have st2: "sq_abs st2 = sq_abs st1" using sq.announce_contract [OF st1(1) an] by simp
    have count: "UnreadCount sqlite_store = sq_UnreadCount" by (simp add: sqlite_store_def)
    have told: "if Knows r s \<and> \<not> isl (fst (sq_UnreadCount r st1))
        then \<exists>v. x = Inr v \<and> rRoom v = r \<and> rUnread v = a_unread r (sq_abs st1) else isl x"
      using v sq.unread_ok [OF st1(1), of r _ st2]
      by (cases rule: roomView_cases) (auto simp: Knows_def count)
    from None m t an base assms(2) st1(2) st2 told show ?thesis
      by (cases e2; cases x) (auto simp: MarkRead_def split: if_splits)
  qed
qed

definition refusing_transport :: "unit transport" where
  "refusing_transport =
     \<lparr>tStart = (\<lambda>tr. (None, tr)), tSend = (\<lambda>_ _ tr. (Inl (Opaque ''offline''), tr)),
      tMarkRead = (\<lambda>_ _ tr. (Some (Opaque ''offline''), tr)), tRooms = (\<lambda>tr. (Inr [], tr)),
      tClose = (\<lambda>tr. (None, tr))\<rparr>"

definition agreeing_transport :: "unit transport" where
  "agreeing_transport =
     \<lparr>tStart = (\<lambda>tr. (None, tr)), tSend = (\<lambda>_ _ tr. (Inl (Opaque ''offline''), tr)),
      tMarkRead = (\<lambda>_ _ tr. (None, tr)), tRooms = (\<lambda>tr. (Inr [], tr)),
      tClose = (\<lambda>tr. (None, tr))\<rparr>"

theorem mark_read_effect_witness:
  "\<exists>v st'. MarkRead agreeing_transport sqlite_store True ''!r'' ''e1''
       (snd (ensureRoom ''!r'' ''mia'' session_New)) faulty_db () = (None, [BroadcastRoom v], st', ())
     \<and> rRoom v = ''!r'' \<and> sq_abs st' = a_mark ''!r'' ''e1'' (sq_abs faulty_db)"
proof -
  let ?s = "snd (ensureRoom ''!r'' ''mia'' session_New)"
  obtain e bs st' tr' where k: "MarkRead agreeing_transport sqlite_store True ''!r'' ''e1''
      ?s faulty_db () = (e, bs, st', tr')" by (metis prod_cases4)
  have "fst (sq_SetReadMarker ''!r'' ''e1'' faulty_db) = None"
    "\<not> isl (fst (sq_UnreadCount ''!r'' (snd (sq_SetReadMarker ''!r'' ''e1'' faulty_db))))"
    by (simp_all add: sq_SetReadMarker_def sq_store_marker_def faulty_db_def OpenSQLite_def
        sq_fresh_def sq_stmt_def sq_UnreadCount_def sql_marker_seq_def sql_upsert_marker_def)
  moreover have "Knows ''!r'' ?s" by (simp add: Knows_def ensureRoom_def session_New_def Let_def)
  ultimately show ?thesis using mark_read_effect [OF faulty_inv k] k by (auto simp: agreeing_transport_def)
qed

end
