(* ===== verification/ProtoProps.thy ===== *)
theory ProtoProps
  imports Proto
begin

text \<open>
  What a line of the protocol is worth: framing, faithfulness and size of the daemon's
  events, and the decoding of a frontend's commands.
\<close>

section \<open>The text of an event\<close>

lemma itoa_bytes: "c \<in> set (itoa i) \<Longrightarrow> 0x20 \<le> bv c"
proof -
  have "\<forall>c\<in>set (utoa n). 0x20 \<le> bv c" for n
    using utoa_digits [of n] by (auto simp: list_all_iff is_digit_def)
  then show "c \<in> set (itoa i) \<Longrightarrow> 0x20 \<le> bv c" by (auto simp: itoa_def split: if_splits)
qed

lemma join_with_set: "c \<in> set (join_with sep xs) \<Longrightarrow> c = sep \<or> (\<exists>x\<in>set xs. c \<in> set x)"
  by (induction xs rule: induct_list012) auto

lemma jstr_bytes: "c \<in> set (jstr s) \<Longrightarrow> 0x20 \<le> bv c"
  using jstr_body_bytes [of c s] by (auto simp: jstr_def)

lemma marshal_bytes: "int_numbers j \<Longrightarrow> c \<in> set (marshal j) \<Longrightarrow> 0x20 \<le> bv c"
proof (induction j arbitrary: c)
  case (JArr vs)
  have "\<forall>x\<in>set (map marshal vs). \<forall>c\<in>set x. 0x20 \<le> bv c"
    using JArr.IH JArr.prems(1) by (auto simp: list_all_iff)
  with JArr.prems(2) show ?case by (auto dest!: join_with_set)
next
  case (JObj kvs)
  have "\<forall>x\<in>set (map (\<lambda>(k, v). jstr k @ CHR '':'' # marshal v) kvs). \<forall>c\<in>set x. 0x20 \<le> bv c"
  proof
    fix x assume "x \<in> set (map (\<lambda>(k, v). jstr k @ CHR '':'' # marshal v) kvs)"
    then obtain k v where kv: "(k, v) \<in> set kvs" "x = jstr k @ CHR '':'' # marshal v" by auto
    moreover have "\<forall>c\<in>set (marshal v). 0x20 \<le> bv c"
      using JObj.IH [OF kv(1), of v] JObj.prems(1) kv(1) by (auto simp: list_all_iff)
    ultimately show "\<forall>c\<in>set x. 0x20 \<le> bv c" by (auto dest: jstr_bytes)
  qed
  with JObj.prems(2) show ?case by (auto dest!: join_with_set)
qed (auto dest: itoa_bytes jstr_bytes split: if_splits)

lemma newline_not_in: "newline \<notin> set (marshal (event_json e))"
  using marshal_bytes [OF int_numbers_event, of newline e] by (auto simp: newline_def)

text \<open>C20: framing. An encoded event is one line of at most 64 KiB: its only newline is the
  last byte. What precedes it is JSON, and reading it back gives the event's fields as they
  were, invalid UTF-8 bytes becoming U+FFFD.\<close>

theorem encode_one_line:
  assumes "encode e = Inr line"
  shows "\<exists>b. line = b @ [newline] \<and> newline \<notin> set b \<and> int (length line) \<le> MaxLine
    \<and> unmarshal b = Some (jrepair (event_json e))"
  using assms newline_not_in [of e] unmarshal_event [of e]
  by (auto simp: encode_def Let_def split: if_splits)

definition ack_event :: event where
  "ack_event = NewAck ''7'' ''$e1''"

lemma jstr_size: "length (jstr s) \<le> 6 * length s + 2"
  using length_jstr by blast

lemma ack_fits: "\<exists>line. encode ack_event = Inr line"
proof -
  have "length (marshal (event_json ack_event)) \<le> 400"
    using jstr_size [of "''t''"] jstr_size [of "''ack''"] jstr_size [of "''id''"] jstr_size [of "''7''"]
      jstr_size [of "''event''"] jstr_size [of "''$e1''"]
    by (simp add: ack_event_def NewAck_def field_defs EvAck_def)
  then show ?thesis by (simp add: encode_def Let_def MaxLine_def)
qed

theorem encode_one_line_witness:
  "\<exists>b. encode ack_event = Inr (b @ [newline]) \<and> newline \<notin> set b"
proof -
  obtain line where line: "encode ack_event = Inr line" using ack_fits by blast
  from encode_one_line [OF line] line show ?thesis by auto
qed

section \<open>Different events, different lines\<close>

lemma itoa_inject: "itoa i = itoa k \<Longrightarrow> i = k"
proof -
  assume eq: "itoa i = itoa k"
  have d: "hd (utoa n) \<noteq> CHR ''-''" for n
    using utoa_digits [of n] digit_not_minus by (cases "utoa n") auto
  have u: "utoa m = utoa n \<Longrightarrow> m = n" for m n by (metis digits_value_utoa)
  show ?thesis
  proof (cases "i < 0"; cases "k < 0")
    assume "i < 0" "\<not> k < 0"
    with eq have "CHR ''-'' # utoa (nat (- i)) = utoa (nat k)" by (simp add: itoa_def)
    with d [of "nat k"] show ?thesis by (metis list.sel(1))
  next
    assume "\<not> i < 0" "k < 0"
    with eq have "CHR ''-'' # utoa (nat (- k)) = utoa (nat i)" by (simp add: itoa_def)
    with d [of "nat i"] show ?thesis by (metis list.sel(1))
  next
    assume "i < 0" "k < 0"
    with eq u [of "nat (- i)" "nat (- k)"] show ?thesis by (simp add: itoa_def)
  next
    assume "\<not> i < 0" "\<not> k < 0"
    with eq u [of "nat i" "nat k"] show ?thesis by (simp add: itoa_def)
  qed
qed

lemma message_fields_inject: "message_fields m = message_fields n \<Longrightarrow> m = n"
  by (auto simp: message_fields_def field_defs intro: message.equality dest: itoa_inject)

lemma room_fields_inject: "room_fields m = room_fields n \<Longrightarrow> m = n"
  by (auto simp: room_fields_def field_defs intro: room.equality dest: itoa_inject)

lemma event_json_inject: "event_json d = event_json e \<Longrightarrow> d = e"
proof (cases d; cases e)
  fix i rs i' rs' assume "event_json d = event_json e" "d = RoomsReply i rs" "e = RoomsReply i' rs'"
  then show "d = e"
    by (auto simp: field_defs ev_defs inj_on_def dest!: room_fields_inject
        intro!: map_injective [of "\<lambda>r. JObj (room_fields r)"] split: if_splits)
next
  fix i r ms i' r' ms'
  assume "event_json d = event_json e" "d = HistoryReply i r ms" "e = HistoryReply i' r' ms'"
  then show "d = e"
    by (auto simp: field_defs ev_defs inj_on_def dest!: message_fields_inject
        intro!: map_injective [of "\<lambda>m. JObj (message_fields m)"] split: if_splits)
qed (auto simp: field_defs ev_defs split: if_splits
    dest: itoa_inject message_fields_inject room_fields_inject)

fun event_strings :: "event \<Rightarrow> gostring list" where
  "event_strings (Ready i proto daemon connected) = [i, daemon]"
| "event_strings (Message m) = [mRoom m, mEvent m, mSender m, mDisplay m, mBody m, mKind m]"
| "event_strings (Room r) = [rRoom r, rDisplay r]"
| "event_strings (RoomsReply i rs) = i # concat (map (\<lambda>r. [rRoom r, rDisplay r]) rs)"
| "event_strings (HistoryReply i room ms) =
     i # room # concat (map (\<lambda>m. [mRoom m, mEvent m, mSender m, mDisplay m, mBody m, mKind m]) ms)"
| "event_strings (Ack i ev) = [i, ev]"
| "event_strings (Error i code msg) = [i, code, msg]"

lemma jrepair_fields:
  "list_all valid_utf8 [mRoom m, mEvent m, mSender m, mDisplay m, mBody m, mKind m] \<Longrightarrow>
     map (\<lambda>(k, v). (repair k, jrepair v)) (message_fields m) = message_fields m"
  "list_all valid_utf8 [rRoom r, rDisplay r] \<Longrightarrow>
     map (\<lambda>(k, v). (repair k, jrepair v)) (room_fields r) = room_fields r"
  by (simp_all add: message_fields_def room_fields_def field_defs valid_ascii)

lemma jrepair_event: "list_all valid_utf8 (event_strings e) \<Longrightarrow> jrepair (event_json e) = event_json e"
proof (cases e)
  case (RoomsReply i rs)
  assume "list_all valid_utf8 (event_strings e)"
  with RoomsReply show ?thesis
    by (auto simp: field_defs ev_defs valid_ascii list_all_iff intro!: jrepair_fields)
next
  case (HistoryReply i room ms)
  assume "list_all valid_utf8 (event_strings e)"
  with HistoryReply show ?thesis
    by (auto simp: field_defs ev_defs valid_ascii list_all_iff intro!: jrepair_fields)
qed (auto simp: field_defs ev_defs valid_ascii jrepair_fields)

text \<open>No two different events with valid UTF-8 in their strings share a line, so a
  frontend can tell every event from every other.\<close>

theorem encode_injective:
  assumes "encode d = Inr line" and "encode e = Inr line"
    and "list_all valid_utf8 (event_strings d)" and "list_all valid_utf8 (event_strings e)"
  shows "d = e"
proof -
  have "marshal (event_json d) = marshal (event_json e)"
    using assms(1,2) by (auto simp: encode_def Let_def split: if_splits)
  then have "jrepair (event_json d) = jrepair (event_json e)"
    using unmarshal_event [of d] unmarshal_event [of e] by simp
  with assms(3,4) show ?thesis by (intro event_json_inject) (simp add: jrepair_event)
qed

lemma repair_valid_iff: "repair s = s \<Longrightarrow> valid_utf8 s"
  by (simp add: repair_def valid_utf8_def)

theorem encode_injective_witness: "encode ack_event \<noteq> encode (NewAck ''7'' ''$e2'')"
proof
  assume eq: "encode ack_event = encode (NewAck ''7'' ''$e2'')"
  obtain line where l: "encode ack_event = Inr line" using ack_fits by blast
  have "list_all valid_utf8 (event_strings ack_event)"
    "list_all valid_utf8 (event_strings (NewAck ''7'' ''$e2''))"
    by (simp_all add: ack_event_def NewAck_def valid_ascii repair_valid_iff)
  from encode_injective [OF l _ this] eq l show False by (simp add: ack_event_def NewAck_def)
qed

section \<open>Size\<close>

lemma utoa_length: "n < 10 ^ k \<Longrightarrow> 0 < k \<Longrightarrow> length (utoa n) \<le> k"
proof (induction k arbitrary: n)
  case 0
  then show ?case by simp
next
  case (Suc k)
  show ?case
  proof (cases "n < 10")
    case True
    then show ?thesis by (subst utoa.simps) simp
  next
    case False
    then have "0 < k" using Suc.prems by (cases k) auto
    moreover have "n div 10 < 10 ^ k" using Suc.prems(1) by (simp add: div_less_iff_less_mult mult.commute)
    ultimately have "length (utoa (n div 10)) \<le> k" using Suc.IH by simp
    with False show ?thesis by (subst utoa.simps) simp
  qed
qed

lemma itoa_length:
  assumes "- (2 ^ 63) \<le> i" and "i < 2 ^ 63"
  shows "length (itoa i) \<le> 20"
proof (cases "i < 0")
  case True
  then have "nat (- i) < 10 ^ 19" using assms by (simp add: nat_less_iff)
  with True utoa_length [of "nat (- i)" 19] show ?thesis by (simp add: itoa_def)
next
  case False
  then have "nat i < 10 ^ 19" using assms by (simp add: nat_less_iff)
  with False utoa_length [of "nat i" 19] show ?thesis by (simp add: itoa_def)
qed

lemma message_fits:
  assumes "length (mBody m) \<le> 8192"
    and "length (mRoom m) + length (mEvent m) + length (mSender m) + length (mDisplay m)
           + length (mKind m) \<le> 2600"
    and "- (2 ^ 63) \<le> mTS m" and "mTS m < 2 ^ 63"
  shows "\<exists>b. encode (NewMessage m) = Inr (b @ [newline])"
proof -
  have keys: "length (jstr ''t'') + length (jstr EvMessage) + length (jstr ''room'') +
      length (jstr ''event'') + length (jstr ''sender'') + length (jstr ''display'') +
      length (jstr ''body'') + length (jstr ''ts'') + length (jstr ''own'') + length (jstr ''kind'') \<le> 280"
    using jstr_size [of "''t''"] jstr_size [of "EvMessage"] jstr_size [of "''room''"]
      jstr_size [of "''event''"] jstr_size [of "''sender''"] jstr_size [of "''display''"]
      jstr_size [of "''body''"] jstr_size [of "''ts''"] jstr_size [of "''own''"] jstr_size [of "''kind''"]
    by (simp add: EvMessage_def)
  have "length (marshal (event_json (NewMessage m))) \<le> 280 + 100
      + 6 * (length (mRoom m) + length (mEvent m) + length (mSender m) + length (mDisplay m)
           + length (mKind m)) + 6 * length (mBody m)"
    using keys itoa_length [OF assms(3,4)] jstr_size [of "mRoom m"] jstr_size [of "mEvent m"]
      jstr_size [of "mSender m"] jstr_size [of "mDisplay m"] jstr_size [of "mBody m"] jstr_size [of "mKind m"]
    by (simp add: NewMessage_def message_fields_def field_defs split del: if_split)
      (auto split: if_splits)
  with assms(1,2) show ?thesis by (auto simp: encode_def Let_def MaxLine_def)
qed

text \<open>A message event always goes out. With a body of at most 8192 bytes (the session's
  cap), a time that is an \<open>int64\<close> and the identifiers, display name and kind taking at most
  2600 bytes together, it encodes to a line: the limit on lines is never what keeps a
  message from a frontend, whatever needs escaping in it.\<close>

theorem message_line_fits:
  assumes "length (mBody m) \<le> 8192"
    and "length (mRoom m) + length (mEvent m) + length (mSender m) + length (mDisplay m)
           + length (mKind m) \<le> 2600"
    and "- (2 ^ 63) \<le> mTS m" and "mTS m < 2 ^ 63"
  shows "\<exists>b. encode (NewMessage m) = Inr (b @ [newline])"
  using assms by (rule message_fits)

theorem message_line_fits_witness:
  "\<exists>b. encode (NewMessage \<lparr>mRoom = ''!r'', mEvent = ''$e'', mSender = ''@mia:x'', mDisplay = ''mia'',
      mBody = replicate 8192 (CHR ''<''), mTS = 7, mOwn = False, mKind = KindText\<rparr>) = Inr (b @ [newline])"
  by (rule message_line_fits) (simp_all add: KindText_def)

lemma join_with_length: "sum_list (map length xs) \<le> length (join_with sep xs)"
  by (induction xs rule: induct_list012) auto

lemma message_json_length: "length (mBody m) \<le> length (marshal (JObj (message_fields m)))"
  using length_jstr [of "mBody m"]
  by (simp add: message_fields_def field_defs split del: if_split)

lemma history_json_length:
  "sum_list (map (\<lambda>m. length (mBody m)) ms) \<le> length (marshal (event_json (NewHistory i room ms)))"
proof -
  let ?parts = "map marshal (map (\<lambda>m. JObj (message_fields m)) ms)"
  have "sum_list (map (\<lambda>m. length (mBody m)) ms) \<le> sum_list (map length ?parts)"
    unfolding map_map by (rule sum_list_mono) (simp only: comp_def message_json_length)
  also have "\<dots> \<le> length (join_with (CHR '','') ?parts)" by (rule join_with_length)
  also have "\<dots> \<le> length (marshal (event_json (NewHistory i room ms)))"
    by (simp add: NewHistory_def field_defs del: map_map)
  finally show ?thesis .
qed

text \<open>A history whose bodies alone fill a line has no encoding.\<close>

lemma history_too_long:
  assumes "65536 \<le> sum_list (map (\<lambda>m. length (mBody m)) ms)"
  shows "\<exists>err. encode (NewHistory i room ms) = Inl err"
  using assms history_json_length [where ms = ms and i = i and room = room]
  by (simp add: encode_def Let_def MaxLine_def)

section \<open>Commands\<close>

definition command_strings :: "Command \<Rightarrow> gostring list" where
  "command_strings c = [cT c, cID c, cClient c, cRoom c, cBody c, cEvent c]"

definition int64 :: "int \<Rightarrow> bool" where
  "int64 i \<longleftrightarrow> - (2 ^ 63) \<le> i \<and> i < 2 ^ 63"

lemma lower_keys:
  "map lower ''t'' = ''t''" "map lower ''id'' = ''id''" "map lower ''proto'' = ''proto''"
  "map lower ''client'' = ''client''" "map lower ''room'' = ''room''" "map lower ''body'' = ''body''"
  "map lower ''event'' = ''event''" "map lower ''limit'' = ''limit''"
  by (simp_all add: lower_def)

lemma unmarshal_command:
  assumes "list_all valid_utf8 (command_strings c)"
  shows "unmarshal (marshal (command_json c)) = Some (command_json c)"
proof -
  have "jrepair (command_json c) = command_json c"
    using assms by (simp add: command_json_def command_strings_def field_defs valid_ascii)
  moreover have "int_numbers (command_json c)" "nesting (command_json c) \<le> 1"
    by (auto simp: command_json_def field_defs)
  ultimately show ?thesis using unmarshal_marshal [of "command_json c"] by (simp add: maxNestingDepth_def)
qed

lemma set_fields_append:
  "set_fields (xs @ ys) c = (case set_fields xs c of None \<Rightarrow> None | Some c \<Rightarrow> set_fields ys c)"
proof (induction xs arbitrary: c)
  case Nil
  then show ?case by simp
next
  case (Cons x xs)
  then show ?case by (cases x) (simp split: option.split)
qed

lemma decode_marshal:
  assumes "list_all valid_utf8 (command_strings c)" and "int64 (cProto c)" and "int64 (cLimit c)"
  shows "decode_command (marshal (command_json c)) = Some c"
proof -
  have i: "ParseInt64 (itoa (cProto c)) = Some (cProto c)" "ParseInt64 (itoa (cLimit c)) = Some (cLimit c)"
    using assms by (simp_all add: int64_def ParseInt64_itoa)
  have step: "cID d = [] \<Longrightarrow> set_fields (opt_str ''id'' s) d = Some (d\<lparr>cID := s\<rparr>)"
    "cClient d = [] \<Longrightarrow> set_fields (opt_str ''client'' s) d = Some (d\<lparr>cClient := s\<rparr>)"
    "cRoom d = [] \<Longrightarrow> set_fields (opt_str ''room'' s) d = Some (d\<lparr>cRoom := s\<rparr>)"
    "cBody d = [] \<Longrightarrow> set_fields (opt_str ''body'' s) d = Some (d\<lparr>cBody := s\<rparr>)"
    "cEvent d = [] \<Longrightarrow> set_fields (opt_str ''event'' s) d = Some (d\<lparr>cEvent := s\<rparr>)"
    "cProto d = 0 \<Longrightarrow>
       set_fields (opt_int ''proto'' (cProto c)) d = Some (d\<lparr>cProto := cProto c\<rparr>)"
    "cLimit d = 0 \<Longrightarrow>
       set_fields (opt_int ''limit'' (cLimit c)) d = Some (d\<lparr>cLimit := cLimit c\<rparr>)"
    "set_field ''t'' (JStr s) d = Some (d\<lparr>cT := s\<rparr>)" for s and d :: Command
    using i by (simp_all add: field_defs set_field_def set_str_def set_int_def lower_keys [simplified])
  have "decode_command (marshal (command_json c)) =
      set_fields (str_field ''t'' (cT c) # opt_str ''id'' (cID c) @ opt_int ''proto'' (cProto c)
       @ opt_str ''client'' (cClient c) @ opt_str ''room'' (cRoom c) @ opt_str ''body'' (cBody c)
       @ opt_str ''event'' (cEvent c) @ opt_int ''limit'' (cLimit c)) zero_command"
    using unmarshal_command [OF assms(1)] by (simp add: decode_command_def command_json_def)
  also have "\<dots> = Some c"
    by (simp add: set_fields_append step str_field_def zero_command_def)
  finally show ?thesis .
qed

text \<open>C21: the daemon reads back exactly the command a frontend marshalled: every field, with
  the omitted ones zero, for valid UTF-8 strings and 64-bit integers.\<close>

theorem decode_command_marshal:
  assumes "list_all valid_utf8 (command_strings c)" and "int64 (cProto c)" and "int64 (cLimit c)"
  shows "decode_command (marshal (command_json c)) = Some c"
  using assms by (rule decode_marshal)

definition history_command :: Command where
  "history_command = \<lparr>cT = CmdHistory, cID = ''9'', cProto = 0, cClient = [], cRoom = ''!r'',
     cBody = [], cEvent = [], cLimit = 50\<rparr>"

lemma history_command_ok:
  "list_all valid_utf8 (command_strings history_command)" "int64 (cProto history_command)"
  "int64 (cLimit history_command)"
  by (simp_all add: history_command_def command_strings_def int64_def CmdHistory_def valid_ascii
      repair_valid_iff)

lemmas history_command_decodes = decode_marshal [OF history_command_ok]

theorem decode_command_marshal_witness:
  "decode_command (marshal (command_json history_command)) = Some history_command"
  by (rule decode_command_marshal) (rule history_command_ok)+

end
