(* ===== verification/ServerProps.thy ===== *)
theory ServerProps
  imports Server SessionProps ProtoProps
begin

text \<open>
  The hub's promises, for whatever handler it is given: the slow-client rule, the hello
  guard, what is replied to a command, unknown rooms stopped before the handler. The laws the
  server needs of its handler are the locale \<open>ipc_handler\<close>; the session over the SQLite
  store provides them.
\<close>

section \<open>Queues\<close>

definition queue_ok :: "client \<Rightarrow> bool" where
  "queue_ok c \<longleftrightarrow> length (c_out c) \<le> clientQueue"

definition queues_ok :: "clients \<Rightarrow> bool" where
  "queues_ok cs \<longleftrightarrow> (\<forall>i c. cs i = Some c \<longrightarrow> queue_ok c)"

lemma enqueue_loop_eq:
  assumes "queue_ok c"
  shows "enqueue_loop line c =
    c\<lparr>c_out := lastn clientQueue (c_out c @ [line]),
      c_dropped := c_dropped c + (if length (c_out c) < clientQueue then 0 else 1)\<rparr>"
proof (cases "length (c_out c) < clientQueue")
  case True
  then show ?thesis by (subst enqueue_loop.simps) simp
next
  case False
  with assms have len: "length (c_out c) = clientQueue" by (simp add: queue_ok_def)
  then have "c_out c \<noteq> []" by (auto simp: clientQueue_def)
  then have "lastn clientQueue (c_out c @ [line]) = tl (c_out c) @ [line]"
    using len by (cases "c_out c") (simp_all add: lastn_def)
  moreover have "0 < clientQueue" by (simp add: clientQueue_def)
  ultimately show ?thesis using len \<open>c_out c \<noteq> []\<close>
    by (subst enqueue_loop.simps, subst enqueue_loop.simps) simp
qed

lemma enqueue_ok: "queue_ok c \<Longrightarrow> queue_ok (enqueue line c)"
  by (simp add: enqueue_def enqueue_loop_eq) (simp add: queue_ok_def)

lemma enqueue_flags [simp]:
  "queue_ok c \<Longrightarrow> c_hello (enqueue line c) = c_hello c"
  "queue_ok c \<Longrightarrow> c_closed (enqueue line c) = c_closed c"
  "queue_ok c \<Longrightarrow> c_shutdown (enqueue line c) = c_shutdown c"
  by (simp_all add: enqueue_def enqueue_loop_eq)

text \<open>C15: a slow client costs nobody else anything. However many lines are queued for an
  open client whose writer takes none, enqueuing always returns, the queue holds the
  newest 64 of them in order, and the counter says how many were dropped.\<close>

theorem enqueue_keeps_newest:
  assumes "\<not> c_closed c" and "length (c_out c) \<le> clientQueue"
  shows "c_out (fold enqueue lines c) = lastn clientQueue (c_out c @ lines)
    \<and> c_dropped (fold enqueue lines c) + clientQueue =
        c_dropped c + max clientQueue (length (c_out c) + length lines)"
  using assms
proof (induction lines arbitrary: c)
  case Nil
  then show ?case by simp
next
  case (Cons line lines)
  have ok: "queue_ok c" using Cons.prems(2) by (simp add: queue_ok_def)
  have e: "enqueue line c = c\<lparr>c_out := lastn clientQueue (c_out c @ [line]),
      c_dropped := c_dropped c + (if length (c_out c) < clientQueue then 0 else 1)\<rparr>"
    using Cons.prems(1) ok by (simp add: enqueue_def enqueue_loop_eq)
  have "lastn clientQueue (lastn clientQueue (c_out c @ [line]) @ lines) =
      lastn clientQueue (c_out c @ line # lines)"
    by (simp add: lastn_lastn_append)
  with Cons.IH [of "enqueue line c"] Cons.prems show ?case by (auto simp: e)
qed

theorem enqueue_keeps_newest_witness:
  "c_out (fold enqueue [''a'', ''b''] (newClient\<lparr>c_out := replicate 64 ''x''\<rparr>)) =
     replicate 62 ''x'' @ [''a'', ''b''] \<and>
   c_dropped (fold enqueue [''a'', ''b''] (newClient\<lparr>c_out := replicate 64 ''x''\<rparr>)) = 2"
  using enqueue_keeps_newest [of "newClient\<lparr>c_out := replicate 64 ''x''\<rparr>" "[''a'', ''b'']"]
  by (simp add: newClient_def clientQueue_def lastn_def)

lemma on_client_ok: "queues_ok cs \<Longrightarrow> (\<And>c. queue_ok c \<Longrightarrow> queue_ok (f c)) \<Longrightarrow> queues_ok (on_client i f cs)"
  by (auto simp: queues_ok_def on_client_def split: option.splits)

lemma send_ok: "queues_ok cs \<Longrightarrow> queues_ok (send i v cs)"
  by (auto simp: send_def intro: on_client_ok enqueue_ok split: sum.splits)

lemma broadcast_line_ok: "queues_ok cs \<Longrightarrow> queues_ok (broadcast_line v cs)"
  by (auto simp: queues_ok_def broadcast_line_def enqueue_ok split: sum.splits option.splits)

lemma broadcasts_ok: "queues_ok cs \<Longrightarrow> queues_ok (broadcasts bs cs)"
  by (induction bs arbitrary: cs) (simp_all add: broadcast_line_ok)

lemma handleHello_greet_ok: "queues_ok cs \<Longrightarrow> queues_ok (handleHello_greet i cs)"
  by (auto simp: handleHello_greet_def queue_ok_def intro!: on_client_ok)

lemma dispatch_ok: "queues_ok cs \<Longrightarrow> dispatch H v i line cs h = (ok, cs', h') \<Longrightarrow> queues_ok cs'"
  by (auto simp: dispatch_def handleHello_def handleSend_def handleMarkRead_def handleHistory_def
      handleRooms_def send_ok broadcasts_ok handleHello_greet_ok
      split: option.splits if_splits prod.splits sum.splits)

lemma send_dom [simp]: "dom (send i v cs) = dom cs"
  by (auto simp: send_def on_client_def split: sum.splits option.splits if_splits)

lemma send_other: "j \<noteq> i \<Longrightarrow> send i v cs j = cs j"
  by (simp add: send_def on_client_def split: sum.split option.split)

section \<open>Commands\<close>


text \<open>The commands that are carried out: a hello of protocol 1; from a greeted client a \<open>send\<close> of a
  body to a known room while connected, a \<open>mark_read\<close> of a known room, a \<open>history\<close> of a named room, or
  \<open>rooms\<close>, when the handler's answer is no error.\<close>

definition clamped :: "int \<Rightarrow> int" where
  "clamped limit = (if limit \<le> 0 then 20 else min limit 200)"



lemma history_limit_clamped: "history_limit l = clamped l"
  by (simp add: history_limit_def clamped_def DefaultHistoryLimit_def MaxHistoryLimit_def Let_def min_def)



text \<open>A handler whose answers are fixed, for concrete runs.\<close>

definition still_handler :: "goerr + message list \<Rightarrow> unit handler" where
  "still_handler answer =
     \<lparr>hSend = (\<lambda>_ _ h. (Inl (Opaque ''no''), h)), hMarkRead = (\<lambda>_ _ h. (None, [], h)),
      hHistory = (\<lambda>_ _ h. (answer, h)), hRooms = (\<lambda>h. (Inr [], h)),
      hKnows = (\<lambda>_ _. True), hConnected = (\<lambda>_. True)\<rparr>"

definition greeted_client :: client where
  "greeted_client = newClient\<lparr>c_hello := True\<rparr>"

definition history_line :: gostring where
  "history_line = marshal (command_json history_command)"





text \<open>C13: what a client must have done and named before the handler is asked to act. If a
  line changes the handler's state, the client has said hello, and the line is a \<open>send\<close> of
  a non-empty body to a known room while connected, a \<open>mark_read\<close> of a known room, a \<open>history\<close> of a
  named room (whether it is known is the handler's to say) with the limit it asked for, 20 when that
  is not positive and never more than 200, or \<open>rooms\<close>; the new state is that call's.\<close>

theorem dispatch_guards:
  assumes "dispatch H v i line cs h = (ok, cs', h')" and "h' \<noteq> h"
  shows "is_greeted i cs \<and> ok \<and> (\<exists>cmd. decode_command line = Some cmd \<and>
    (cT cmd = CmdSend \<and> cRoom cmd \<noteq> [] \<and> cBody cmd \<noteq> [] \<and> hKnows H (cRoom cmd) h \<and> hConnected H h
       \<and> h' = snd (hSend H (cRoom cmd) (cBody cmd) h)
     \<or> cT cmd = CmdMarkRead \<and> cRoom cmd \<noteq> [] \<and> hKnows H (cRoom cmd) h
       \<and> h' = snd (snd (hMarkRead H (cRoom cmd) (cEvent cmd) h))
     \<or> cT cmd = CmdHistory \<and> cRoom cmd \<noteq> []
       \<and> h' = snd (hHistory H (cRoom cmd) (if cLimit cmd \<le> 0 then 20 else min (cLimit cmd) 200) h)
     \<or> cT cmd = CmdRooms \<and> h' = snd (hRooms H h)))"
proof -
  obtain cmd where cmd: "decode_command line = Some cmd"
    using assms by (cases "decode_command line") (simp_all add: dispatch_def)
  have g: "cT cmd \<noteq> CmdHello" "is_greeted i cs"
    using assms cmd by (auto simp: dispatch_def split: if_splits prod.splits)
  have d: "(ok, cs', h') = (True, if cT cmd = CmdSend then handleSend H i cmd cs h
      else if cT cmd = CmdMarkRead then handleMarkRead H i cmd cs h
      else if cT cmd = CmdHistory then handleHistory H i cmd cs h
      else if cT cmd = CmdRooms then handleRooms H i cmd cs h
      else (send i (NewError (cID cmd) ErrBadRequest (''unknown command '' @ cT cmd)) cs, h))"
    using assms(1) cmd g by (simp add: dispatch_def split: if_splits)
  consider "cT cmd = CmdSend" | "cT cmd = CmdMarkRead" | "cT cmd = CmdHistory" | "cT cmd = CmdRooms"
    using d assms(2) by (auto split: if_splits)
  then show ?thesis
  proof cases
    case 1
    then show ?thesis using d assms(2) cmd g
      by (auto simp: handleSend_def split: if_splits prod.splits sum.splits)
  next
    case 2
    then show ?thesis using d assms(2) cmd g
      by (auto simp: handleMarkRead_def split: if_splits prod.splits option.splits)
  next
    case 3
    then have "(cs', h') = handleHistory H i cmd cs h" "ok" using d by simp_all
    then have "cRoom cmd \<noteq> []" "h' = snd (hHistory H (cRoom cmd) (history_limit (cLimit cmd)) h)"
      using assms(2) by (auto simp: handleHistory_def split: if_splits prod.splits sum.splits)
    with 3 cmd g \<open>ok\<close> show ?thesis unfolding history_limit_clamped clamped_def by blast
  next
    case 4
    then show ?thesis using d cmd g
      by (auto simp: handleRooms_def split: prod.splits sum.splits)
  qed
qed

text \<open>A handler that counts the calls it gets.\<close>

definition counting_handler :: "nat handler" where
  "counting_handler =
     \<lparr>hSend = (\<lambda>_ _ h. (Inr ''$s'', Suc h)), hMarkRead = (\<lambda>_ _ h. (None, [], Suc h)),
      hHistory = (\<lambda>_ _ h. (Inr [], Suc h)), hRooms = (\<lambda>h. (Inr [], Suc h)),
      hKnows = (\<lambda>_ _. True), hConnected = (\<lambda>_. True)\<rparr>"

theorem dispatch_guards_witness:
  "\<exists>cs'. dispatch counting_handler [] 1 history_line [1 \<mapsto> greeted_client] 0 = (True, cs', 1)
     \<and> is_greeted 1 [1 \<mapsto> greeted_client]"
proof -
  obtain cs' where d: "dispatch counting_handler [] 1 history_line [1 \<mapsto> greeted_client] 0 = (True, cs', 1)"
    using history_command_decodes
    by (simp add: dispatch_def history_line_def is_greeted_def greeted_def greeted_client_def
        history_command_def handleHistory_def counting_handler_def)
  from dispatch_guards [OF d] d show ?thesis by simp
qed

lemma send_hello:
  "queues_ok cs \<Longrightarrow> is_greeted j (send i v cs) = is_greeted j cs"
  by (auto simp: send_def on_client_def is_greeted_def greeted_def queues_ok_def
      split: sum.split option.split)

lemma greet_hello: "cs i = Some c \<Longrightarrow> is_greeted i (handleHello_greet i cs)"
  by (simp add: handleHello_greet_def on_client_def is_greeted_def greeted_def)

lemma greet_other: "j \<noteq> i \<Longrightarrow> handleHello_greet i cs j = cs j"
  by (simp add: handleHello_greet_def on_client_def split: option.split)

text \<open>C12: the hello guard. Until a client has said hello, a line of it changes no handler
  state and no other client; the conversation goes on exactly when the line is a hello
  with protocol version 1, and exactly then the client counts as greeted.\<close>

theorem hello_guard:
  assumes "queues_ok cs" and "cs i = Some c" and "\<not> c_hello c"
    and "dispatch H v i line cs h = (ok, cs', h')"
  shows "h' = h \<and> (\<forall>j. j \<noteq> i \<longrightarrow> cs' j = cs j) \<and> is_greeted i cs' = ok
    \<and> (ok \<longleftrightarrow> (\<exists>cmd. decode_command line = Some cmd \<and> cT cmd = CmdHello \<and> cProto cmd = 1))"
proof -
  have g: "\<not> is_greeted i cs" using assms(2,3) by (simp add: is_greeted_def greeted_def)
  have q: "queues_ok (handleHello_greet i cs)" by (rule handleHello_greet_ok [OF assms(1)])
  consider (bad) "decode_command line = None"
    | (other) cmd where "decode_command line = Some cmd" "cT cmd \<noteq> CmdHello"
    | (proto) cmd where "decode_command line = Some cmd" "cT cmd = CmdHello" "cProto cmd \<noteq> 1"
    | (hello) cmd where "decode_command line = Some cmd" "cT cmd = CmdHello" "cProto cmd = 1"
    by (cases "decode_command line") auto
  then show ?thesis
  proof cases
    case hello
    then have "ok \<and> h' = h \<and> cs' = send i (NewReady (cID cmd) (hConnected H h) v) (handleHello_greet i cs)"
      using assms(4) by (auto simp: dispatch_def handleHello_def ProtoVersion_def)
    with hello show ?thesis
      by (simp add: send_other greet_other send_hello [OF q] greet_hello [of cs i c, OF assms(2)])
  qed (use assms(4) g in \<open>auto simp: dispatch_def handleHello_def ProtoVersion_def
      send_other send_hello [OF assms(1)]\<close>)
qed

theorem hello_guard_witness:
  "\<exists>cs'. dispatch counting_handler [] 1 history_line [1 \<mapsto> newClient] 0 = (False, cs', 0)"
proof -
  have q: "queues_ok [1 \<mapsto> newClient]" by (simp add: queues_ok_def queue_ok_def newClient_def)
  obtain ok cs' h' where d: "dispatch counting_handler [] 1 history_line [1 \<mapsto> newClient] 0 = (ok, cs', h')"
    by (metis prod_cases3)
  have "\<not> c_hello newClient" by (simp add: newClient_def)
  from hello_guard [OF q _ this d] have "h' = 0"
    "ok \<longleftrightarrow> (\<exists>cmd. decode_command history_line = Some cmd \<and> cT cmd = CmdHello \<and> cProto cmd = 1)"
    by simp_all
  with d show ?thesis using history_command_decodes
    by (simp add: history_line_def history_command_def)
qed

text \<open>C24: a history reply that does not fit a line is not sent, and no error takes its place.
  When the handler's messages have bodies of 64 KiB or more in all (eight at the session's
  cap are enough), the client's request is never answered.\<close>

theorem history_reply_lost:
  assumes "decode_command line = Some cmd" and "cT cmd = CmdHistory" and "cRoom cmd \<noteq> []"
    and "is_greeted i cs" and "hHistory H (cRoom cmd) (history_limit (cLimit cmd)) h = (Inr msgs, h')"
    and "65536 \<le> sum_list (map (\<lambda>m. length (mBody m)) msgs)"
  shows "dispatch H v i line cs h = (True, cs, h')"
proof -
  obtain err where "encode (NewHistory (cID cmd) (cRoom cmd) msgs) = Inl err"
    using history_too_long [OF assms(6)] by blast
  with assms show ?thesis by (simp add: dispatch_def handleHistory_def send_def)
qed

definition long_message :: message where
  "long_message = \<lparr>mRoom = ''!r'', mEvent = ''$e'', mSender = ''@mia:x'', mDisplay = ''mia'',
     mBody = replicate 8192 (CHR ''a''), mTS = 7, mOwn = False, mKind = KindText\<rparr>"

lemma long_message_size: "length (mBody long_message) = 8192"
  by (simp add: long_message_def)

theorem history_reply_lost_witness:
  "dispatch (still_handler (Inr (replicate 8 long_message))) [] 1 history_line [1 \<mapsto> greeted_client] () =
     (True, [1 \<mapsto> greeted_client], ())"
proof (rule history_reply_lost [OF history_command_decodes [folded history_line_def]])
  have "sum_list (map (\<lambda>m. length (mBody m)) (replicate n long_message)) = n * 8192" for n
    by (induction n) (simp_all add: long_message_size)
  then show "65536 \<le> sum_list (map (\<lambda>m. length (mBody m)) (replicate 8 long_message))" by simp
qed (simp_all add: history_command_def is_greeted_def greeted_def greeted_client_def still_handler_def)

end
