(* ===== verification/Hub.thy ===== *)
theory Hub
  imports ServerProps
begin

text \<open>
  The session behind the hub: \<open>session_handler\<close> is the \<open>Handler\<close> the daemon's \<open>main\<close> gives
  the IPC server. What the server relies on is the locale \<open>ipc_handler\<close>; the session over
  any store that keeps its contract meets it, whatever the transport does and whichever
  statement fails.
\<close>

definition session_handler ::
  "'tr transport \<Rightarrow> 'st store \<Rightarrow> (session \<times> 'st \<times> 'tr) handler" where
  "session_handler T S =
     \<lparr>hSend = (\<lambda>r b (s, st, tr). case Send T r b s tr of (x, tr) \<Rightarrow> (x, (s, st, tr))),
      hMarkRead = (\<lambda>r ev (s, st, tr).
        case MarkRead T S True r ev s st tr of (e, bs, st, tr) \<Rightarrow> (e, bs, (s, st, tr))),
      hHistory = (\<lambda>r limit (s, st, tr). case History S r limit s st of (x, st) \<Rightarrow> (x, (s, st, tr))),
      hRooms = (\<lambda>(s, st, tr). case Rooms S s st of (x, st) \<Rightarrow> (x, (s, st, tr))),
      hKnows = (\<lambda>r (s, st, tr). Knows r s),
      hConnected = (\<lambda>(s, st, tr). Connected s)\<rparr>"

section \<open>The interface\<close>

locale ipc_handler =
  fixes H :: "'h handler" and inv :: "'h \<Rightarrow> bool"
  assumes send_inv: "inv h \<Longrightarrow> hSend H r b h = (x, h') \<Longrightarrow> inv h'"
    and mark_inv: "inv h \<Longrightarrow> hMarkRead H r ev h = (e, bs, h') \<Longrightarrow> inv h'"
    and history_inv: "inv h \<Longrightarrow> hHistory H r limit h = (y, h') \<Longrightarrow> inv h'"
    and rooms_inv: "inv h \<Longrightarrow> hRooms H h = (z, h') \<Longrightarrow> inv h'"
    and history_unknown: "inv h \<Longrightarrow> \<not> hKnows H r h \<Longrightarrow> hHistory H r limit h = (Inl ErrUnknownRoom, h)"
begin

lemma dispatch_inv: "inv h \<Longrightarrow> dispatch H v i line cs h = (ok, cs', h') \<Longrightarrow> inv h'"
  by (auto simp: dispatch_def handleHello_def handleSend_def handleMarkRead_def handleHistory_def
      handleRooms_def dest: send_inv mark_inv history_inv rooms_inv
      split: option.splits if_splits prod.splits sum.splits)

lemma serve_inv:
  "inv h \<Longrightarrow> queues_ok cs \<Longrightarrow> serve_lines H v i ls cs h = (cs', h') \<Longrightarrow> inv h' \<and> queues_ok cs'"
proof (induction ls arbitrary: cs h)
  case Nil
  then show ?case by simp
next
  case (Cons line ls)
  obtain ok cs1 h1 where d: "dispatch H v i line cs h = (ok, cs1, h1)" by (metis prod_cases3)
  from dispatch_inv [OF Cons.prems(1) d] dispatch_ok [OF Cons.prems(2) d]
  show ?case using Cons.prems Cons.IH [of h cs] Cons.IH [of h1 cs1] d
    by (auto split: if_splits)
qed

lemma dispatch_unknown_room:
  assumes "inv h" and "decode_command line = Some cmd" and "is_greeted i cs"
    and "cT cmd \<in> {CmdSend, CmdMarkRead, CmdHistory}" and "cRoom cmd \<noteq> []"
    and "cT cmd = CmdSend \<Longrightarrow> cBody cmd \<noteq> []" and "\<not> hKnows H (cRoom cmd) h"
  shows "\<exists>msg. dispatch H v i line cs h =
    (True, send i (NewError (cID cmd) CodeUnknownRoom msg) cs, h)"
  using assms history_unknown [OF assms(1,7)]
  by (auto simp: dispatch_def handleSend_def handleMarkRead_def handleHistory_def codeFor_def)

end

section \<open>The session provides it\<close>

text \<open>Client commands leave the session's state, the store's capacity and every room's history as
  they are. Whatever store keeps its contract, the session over it is such a handler.\<close>

definition handler_inv ::
  "('st \<Rightarrow> bool) \<Rightarrow> ('st \<Rightarrow> nat) \<Rightarrow> ('st \<Rightarrow> astore) \<Rightarrow> session \<Rightarrow> (gostring \<Rightarrow> message list) \<Rightarrow> nat
     \<Rightarrow> session \<times> 'st \<times> 'tr \<Rightarrow> bool" where
  "handler_inv ok size_of view base logs c h \<longleftrightarrow>
     fst h = base \<and> ok (fst (snd h)) \<and> size_of (fst (snd h)) = c \<and> a_log (view (fst (snd h))) = logs"

context store_contract
begin

lemma mark_frame:
  assumes "inv st" and "MarkRead T ops b r ev s st tr = (e, bs, st', tr')"
  shows "inv st' \<and> cap st' = cap st \<and> a_log (abs st') = a_log (abs st)"
proof -
  obtain e1 st1 where m: "SetReadMarker ops r ev st = (e1, st1)" by fastforce
  obtain e2 tr1 where t: "tMarkRead T r ev tr = (e2, tr1)" by fastforce
  obtain bs1 st2 where an: "announceRoom ops r s st1 = (bs1, st2)" by fastforce
  have one: "inv st1" "cap st1 = cap st" "a_log (abs st1) = a_log (abs st)"
    using m assms(1) mark_ok [of st r ev st1] mark_err [of st r ev _ st1]
    by (cases e1; auto simp: a_log_mark intro!: ext)+
  from announce_contract [OF one(1) an] one m t an assms(2) show ?thesis
    by (auto simp: MarkRead_def split: option.splits if_splits)
qed

lemma rooms_frame:
  "inv st \<Longrightarrow> rooms_loop ops ids out s st = (x, st') \<Longrightarrow>
     inv st' \<and> cap st' = cap st \<and> abs st' = abs st"
proof (induction ids arbitrary: out st)
  case Nil
  then show ?case by simp
next
  case (Cons i ids)
  obtain y st1 where v: "roomView ops i s st = (y, st1)" by fastforce
  have "inv st1 \<and> cap st1 = cap st \<and> abs st1 = abs st"
    using v Cons.prems(1) by (cases rule: roomView_cases) (auto dest: unread_ok unread_err)
  with Cons.IH [of st1] Cons.prems(2) v show ?case by (cases y) auto
qed

end

sublocale store_contract \<subseteq> over: ipc_handler "session_handler T ops" "handler_inv inv cap abs base logs c"
  for T :: "'tr transport" and base logs c
proof (unfold_locales, goal_cases)
  case (1 h r b x h')
  then show ?case by (auto simp: session_handler_def handler_inv_def split: prod.splits)
next
  case (2 h r ev e bs h')
  then show ?case
    by (auto simp: session_handler_def handler_inv_def split: prod.splits dest: mark_frame)
next
  case (3 h r limit y h')
  then show ?case
    by (auto simp: session_handler_def handler_inv_def History_def split: prod.splits if_splits
        dest: recent_frame)
next
  case (4 h z h')
  then show ?case
    by (auto simp: session_handler_def handler_inv_def Rooms_def split: prod.splits dest: rooms_frame)
next
  case (5 h r limit)
  then show ?case by (auto simp: session_handler_def History_def split: prod.splits)
qed

interpretation hub: ipc_handler "session_handler T sqlite_store" "handler_inv sq_inv sq_cap sq_abs base logs c"
  for T :: "'tr transport" and base logs c
  by (rule sq.over.ipc_handler_axioms)

section \<open>Properties\<close>

text \<open>C10: a frontend can ask for anything and change only read positions. Whatever lines a
  connection carries, whatever the transport answers and whichever SQL statement fails,
  serving them leaves the session's rooms and every room's history as they were, keeps the
  store invariant, and leaves no queue over its bound.\<close>

theorem client_cannot_alter_history:
  assumes "sq_inv st" and "queues_ok cs"
    and "serve_lines (session_handler T sqlite_store) v i ls cs (s, st, tr) = (cs', (s', st', tr'))"
  shows "s' = s \<and> sq_inv st' \<and> a_log (sq_abs st') = a_log (sq_abs st) \<and> queues_ok cs'"
  using sq.over.serve_inv [where base = s and logs = "a_log (sq_abs st)" and c = "sq_cap st", OF _ assms(2,3)] assms(1)
  by (simp add: handler_inv_def)

theorem client_cannot_alter_history_witness:
  "case serve_lines (session_handler refusing_transport sqlite_store) [] 1
      [''garbage'', history_line] [1 \<mapsto> greeted_client] (session_New, faulty_db, ()) of
     (cs', (s', st', tr')) \<Rightarrow> s' = session_New \<and> a_log (sq_abs st') = a_log (sq_abs faulty_db)"
proof -
  have q: "queues_ok [1 \<mapsto> greeted_client]"
    by (simp add: queues_ok_def queue_ok_def greeted_client_def newClient_def)
  obtain cs' s' st' tr' where r: "serve_lines (session_handler refusing_transport sqlite_store) [] 1
      [''garbage'', history_line] [1 \<mapsto> greeted_client] (session_New, faulty_db, ())
      = (cs', (s', st', tr'))" by (metis prod_cases4)
  from client_cannot_alter_history [OF faulty_inv q r] show ?thesis unfolding r by simp
qed

text \<open>Commands act on known rooms only. A complete \<open>send\<close>, \<open>mark_read\<close> or \<open>history\<close> of a
  greeted client for a room the session does not know is answered with the error
  \<open>unknown_room\<close>; neither the transport nor the store is asked.\<close>

theorem unknown_room_refused:
  assumes "decode_command line = Some cmd" and "is_greeted i cs"
    and "cT cmd \<in> {CmdSend, CmdMarkRead, CmdHistory}" and "cRoom cmd \<noteq> []"
    and "cT cmd = CmdSend \<Longrightarrow> cBody cmd \<noteq> []" and "\<not> Knows (cRoom cmd) s" and "sq_inv st"
  shows "\<exists>msg. dispatch (session_handler T sqlite_store) v i line cs (s, st, tr) =
    (True, send i (NewError (cID cmd) CodeUnknownRoom msg) cs, (s, st, tr))"
  using sq.over.dispatch_unknown_room [where base = s and logs = "a_log (sq_abs st)" and c = "sq_cap st"
      and h = "(s, st, tr)", OF _ assms(1-5)] assms(6,7)
  by (simp add: handler_inv_def session_handler_def)

theorem unknown_room_refused_witness:
  "\<exists>msg. dispatch (session_handler refusing_transport sqlite_store) [] 1 history_line
       [1 \<mapsto> greeted_client] (session_New, faulty_db, ()) =
     (True, send 1 (NewError ''9'' CodeUnknownRoom msg) [1 \<mapsto> greeted_client], (session_New, faulty_db, ()))"
proof -
  have g: "is_greeted 1 [1 \<mapsto> greeted_client]"
    by (simp add: is_greeted_def greeted_def greeted_client_def)
  have k: "\<not> Knows (cRoom history_command) session_New" by (simp add: Knows_def session_New_def)
  have c: "cT history_command \<in> {CmdSend, CmdMarkRead, CmdHistory}" "cRoom history_command \<noteq> []"
    "cT history_command = CmdSend \<Longrightarrow> cBody history_command \<noteq> []" "cID history_command = ''9''"
    by (simp_all add: history_command_def)
  from unknown_room_refused [OF history_command_decodes [folded history_line_def] g c(1,2,3) k faulty_inv]
  show ?thesis by (simp add: c(4))
qed

end
