(* ===== verification/Schema.thy ===== *)
theory Schema
  imports ProtoProps
begin

text \<open>
  The types of the wire protocol (\<open>docs/design/03-ipc-protocol.md\<close>): a small language of types
  for JSON values, the type of each of the seven events with their fields, and the proof that
  an event of \<open>proto.go\<close> has the type of its tag.
\<close>

section \<open>Types of JSON values\<close>

text \<open>A field has a name, may be optional, and has a type; an object has no other fields and none
  twice.\<close>

datatype jtype =
    TText
  | TOneOf "gostring list"
  | TWhole
  | TFlag
  | TList jtype
  | TFields "(gostring \<times> bool \<times> jtype) list"

definition whole :: "gostring \<Rightarrow> bool" where
  "whole lit \<longleftrightarrow>
     (case lit of
        [] \<Rightarrow> False
      | c # ds \<Rightarrow> if c = CHR ''-'' then ds \<noteq> [] \<and> list_all is_digit ds else list_all is_digit lit)"

fun has_type :: "jtype \<Rightarrow> json \<Rightarrow> bool" where
  "has_type TText v \<longleftrightarrow> (case v of JStr s \<Rightarrow> valid_utf8 s | _ \<Rightarrow> False)"
| "has_type (TOneOf ss) v \<longleftrightarrow> (case v of JStr s \<Rightarrow> s \<in> set ss | _ \<Rightarrow> False)"
| "has_type TWhole v \<longleftrightarrow> (case v of JNum lit \<Rightarrow> whole lit | _ \<Rightarrow> False)"
| "has_type TFlag v \<longleftrightarrow> (case v of JBool b \<Rightarrow> True | _ \<Rightarrow> False)"
| "has_type (TList t) v \<longleftrightarrow> (case v of JArr vs \<Rightarrow> list_all (has_type t) vs | _ \<Rightarrow> False)"
| "has_type (TFields fs) v \<longleftrightarrow>
     (case v of
        JObj kvs \<Rightarrow>
          distinct (map fst kvs) \<and> list_all (\<lambda>k. k \<in> fst ` set fs) (map fst kvs)
          \<and> list_all (\<lambda>(k, optional, t).
              case map_of kvs k of None \<Rightarrow> optional | Some w \<Rightarrow> has_type t w) fs
      | _ \<Rightarrow> False)"

section \<open>The protocol\<close>

definition message_type :: "(gostring \<times> bool \<times> jtype) list" where
  "message_type =
     [(''room'', False, TText), (''event'', False, TText), (''sender'', False, TText),
      (''display'', False, TText), (''body'', False, TText), (''ts'', False, TWhole),
      (''own'', False, TFlag), (''kind'', False, TText)]"

definition room_type :: "(gostring \<times> bool \<times> jtype) list" where
  "room_type =
     [(''room'', False, TText), (''display'', False, TText), (''unread'', False, TWhole),
      (''last_ts'', False, TWhole)]"

definition errorCodes :: "gostring list" where
  "errorCodes = [ErrBadProto, ErrBadRequest, CodeUnknownRoom, ErrOffline, ErrInternal]"

definition event_type_of :: "gostring \<Rightarrow> (gostring \<times> bool \<times> jtype) list \<Rightarrow> jtype" where
  "event_type_of tag fs = TFields ((''t'', False, TOneOf [tag]) # fs)"

definition protocol :: "jtype list" where
  "protocol =
     [event_type_of EvReady [(''id'', True, TText), (''proto'', False, TWhole), (''daemon'', False, TText),
        (''connected'', False, TFlag)],
      event_type_of EvMessage message_type, event_type_of EvRoom room_type,
      event_type_of EvRooms [(''id'', True, TText), (''rooms'', False, TList (TFields room_type))],
      event_type_of EvHistory [(''id'', True, TText), (''room'', False, TText),
        (''messages'', False, TList (TFields message_type))],
      event_type_of EvAck [(''id'', True, TText), (''event'', True, TText)],
      event_type_of EvError [(''id'', True, TText), (''code'', False, TOneOf errorCodes),
        (''msg'', False, TText)]]"

text \<open>The events the daemon makes: an error has one of the documented codes.\<close>

fun proper_event :: "event \<Rightarrow> bool" where
  "proper_event (Error i code msg) \<longleftrightarrow> code \<in> set errorCodes"
| "proper_event _ \<longleftrightarrow> True"

section \<open>Events have their types\<close>

lemma whole_utoa: "whole (utoa n)" "whole (CHR ''-'' # utoa n)"
proof -
  have n: "utoa n \<noteq> []" "list_all is_digit (utoa n)" using utoa_digits by blast+
  then show "whole (CHR ''-'' # utoa n)" by (simp add: whole_def)
  obtain c cs where "utoa n = c # cs" using n(1) by (cases "utoa n") auto
  moreover from this n(2) have "c \<noteq> CHR ''-''" by (auto simp: is_digit_def)
  ultimately show "whole (utoa n)" using n(2) by (simp add: whole_def)
qed

lemma whole_itoa: "whole (itoa i)"
  by (simp add: itoa_def whole_utoa)

lemma valid_repair: "valid_utf8 (repair s)"
  by (simp add: repair_def valid_utf8_encode runes_valid)

lemma errorCodes_ascii: "code \<in> set errorCodes \<Longrightarrow> repair code = code"
  by (auto simp: errorCodes_def ErrBadProto_def ErrBadRequest_def CodeUnknownRoom_def ErrOffline_def
      ErrInternal_def valid_ascii)

lemmas typed = field_defs ev_defs valid_repair valid_ascii whole_itoa

lemma fields_typed:
  "has_type (TFields message_type) (jrepair (JObj (message_fields m)))"
  "has_type (TFields room_type) (jrepair (JObj (room_fields r)))"
  by (simp_all add: message_type_def message_fields_def room_type_def room_fields_def typed)

lemma tagged_typed:
  "has_type (event_type_of EvMessage message_type) (jrepair (event_json (Message m)))"
  "has_type (event_type_of EvRoom room_type) (jrepair (event_json (Room r)))"
  by (simp_all add: event_type_of_def message_type_def message_fields_def room_type_def room_fields_def typed)

lemma list_typed:
  "has_type (TList (TFields message_type)) (jrepair (JArr (map (\<lambda>m. JObj (message_fields m)) ms)))"
  "has_type (TList (TFields room_type)) (jrepair (JArr (map (\<lambda>r. JObj (room_fields r)) rs)))"
  using fields_typed by (simp_all add: list_all_iff del: has_type.simps(6) jrepair.simps(6))

lemma proper_event_typed: "proper_event e \<Longrightarrow> \<exists>t\<in>set protocol. has_type t (jrepair (event_json e))"
proof (cases e)
  case (Ready i proto daemon connected)
  then show ?thesis by (simp add: protocol_def event_type_of_def typed)
next
  case (Message m)
  then show ?thesis using tagged_typed(1) [of m] by (auto simp: protocol_def simp del: has_type.simps)
next
  case (Room r)
  then show ?thesis using tagged_typed(2) [of r] by (auto simp: protocol_def simp del: has_type.simps)
next
  case (RoomsReply i rs)
  have "has_type (event_type_of EvRooms [(''id'', True, TText), (''rooms'', False, TList (TFields room_type))])
      (jrepair (event_json e))"
    using list_typed(2) [of rs]
    by (simp add: RoomsReply event_type_of_def typed del: has_type.simps(5) jrepair.simps(5))
  then show ?thesis by (simp add: protocol_def)
next
  case (HistoryReply i r ms)
  have "has_type (event_type_of EvHistory [(''id'', True, TText), (''room'', False, TText),
      (''messages'', False, TList (TFields message_type))]) (jrepair (event_json e))"
    using list_typed(1) [of ms]
    by (simp add: HistoryReply event_type_of_def typed del: has_type.simps(5) jrepair.simps(2))
  then show ?thesis by (simp add: protocol_def)
next
  case (Ack i ev)
  then show ?thesis by (simp add: protocol_def event_type_of_def typed)
next
  case (Error i code msg)
  assume "proper_event e"
  with Error have "code \<in> set errorCodes" by simp
  with errorCodes_ascii [OF this] Error show ?thesis
    by (simp add: protocol_def event_type_of_def typed)
qed

text \<open>The types exclude each other: they ask for different tags.\<close>

lemma typed_tag:
  "has_type (event_type_of tag fs) j \<Longrightarrow> \<exists>kvs. j = JObj kvs \<and> map_of kvs ''t'' = Some (JStr tag)"
  by (auto simp: event_type_of_def split: json.splits option.splits)

lemma protocol_exclusive:
  assumes "t \<in> set protocol" and "u \<in> set protocol" and "has_type t j" and "has_type u j"
  shows "t = u"
proof -
  have tags: "\<exists>tag fs. v = event_type_of tag fs" if "v \<in> set protocol" for v
    using that by (auto simp: protocol_def)
  then obtain a fs b gs where v: "t = event_type_of a fs" "u = event_type_of b gs" using assms(1,2) by blast
  with typed_tag [of a fs j] typed_tag [of b gs j] assms(3,4) have "a = b" by auto
  with assms(1,2) v show ?thesis by (auto simp: protocol_def event_type_of_def ev_defs)
qed

lemma encoded_typed:
  assumes "encode e = Inr line" and "proper_event e"
  shows "\<exists>b j. line = b @ [newline] \<and> newline \<notin> set b \<and> unmarshal b = Some j
    \<and> (\<exists>!t. t \<in> set protocol \<and> has_type t j)"
proof -
  obtain b where b: "line = b @ [newline]" "newline \<notin> set b" "unmarshal b = Some (jrepair (event_json e))"
    using assms(1) newline_not_in [of e] unmarshal_event [of e]
    by (auto simp: encode_def Let_def split: if_splits)
  with proper_event_typed [OF assms(2)] protocol_exclusive show ?thesis by blast
qed

end
