(* ===== verification/Daemon.thy ===== *)
theory Daemon
  imports Hub Schema
begin

text \<open>
  The daemon as a whole: the goroutines of \<open>main.go\<close>, \<open>session.go\<close> and \<open>server.go\<close> as
  steps of one state machine. A step is one thing a goroutine does to shared state (the calls of
  the store within one are taken together; \<open>Interleaving\<close> takes them apart): the
  session takes an event of the transport (its broadcasts are then queued one by one), a
  connection is accepted, a reader handles a line (a hello in two steps, as the flag is
  set before the reply is queued), a writer writes a queued line, a connection ends. The
  constants of a run are the transport's methods, the session's options and the version.
\<close>

section \<open>State and steps\<close>

datatype reader = Reading | Greeting Command | Ended

record 'tr daemon =
  d_session :: session
  d_store :: sqlite
  d_transport :: 'tr
  d_pending :: "broadcast list"
  d_clients :: clients
  d_reader :: "nat \<Rightarrow> reader option"
  d_written :: "nat \<Rightarrow> gostring list"

definition daemon_init :: "'tr transport \<Rightarrow> session_options \<Rightarrow> sqlite \<Rightarrow> 'tr \<Rightarrow> 'tr daemon" where
  "daemon_init T opts db tr =
     (case Run_start T opts session_New tr of
        (err, s, tr) \<Rightarrow>
          \<lparr>d_session = s, d_store = db, d_transport = tr, d_pending = [], d_clients = Map.empty,
           d_reader = (\<lambda>_. None), d_written = (\<lambda>_. [])\<rparr>)"

text \<open>A transport event the daemon can get: messages have an event ID.\<close>

fun event_ok :: "transport_event \<Rightarrow> bool" where
  "event_ok (EventMessage m) \<longleftrightarrow> mEvent m \<noteq> []"
| "event_ok (EventConnected c) \<longleftrightarrow> True"

text \<open>A line that is a hello in the daemon's version is handled in two steps.\<close>

definition good_hello :: "gostring \<Rightarrow> Command option" where
  "good_hello line =
     (case decode_command line of
        None \<Rightarrow> None
      | Some cmd \<Rightarrow> if cT cmd = CmdHello \<and> cProto cmd = ProtoVersion then Some cmd else None)"

text \<open>A step is labelled with the transport event it takes, if it takes one.\<close>

inductive daemon_step ::
  "'tr transport \<Rightarrow> session_options \<Rightarrow> gostring \<Rightarrow> 'tr daemon \<Rightarrow> transport_event option \<Rightarrow> 'tr daemon \<Rightarrow> bool"
  for T opts version where
  Event: "d_pending d = [] \<Longrightarrow> event_ok ev \<Longrightarrow>
    handle sqlite_store opts True ev (d_session d) (d_store d) = (bs, s, st) \<Longrightarrow>
    daemon_step T opts version d (Some ev) (d\<lparr>d_session := s, d_store := st, d_pending := bs\<rparr>)"
| Broadcast: "d_pending d = b # bs \<Longrightarrow>
    daemon_step T opts version d None
      (d\<lparr>d_pending := bs, d_clients := broadcast_line (broadcast_event b) (d_clients d)\<rparr>)"
| Accept: "d_reader d i = None \<Longrightarrow> d_clients d i = None \<Longrightarrow>
    daemon_step T opts version d None
      (d\<lparr>d_clients := (d_clients d)(i \<mapsto> newClient), d_reader := (d_reader d)(i \<mapsto> Reading)\<rparr>)"
| Line: "d_reader d i = Some Reading \<Longrightarrow> line \<noteq> [] \<Longrightarrow> good_hello line = None \<Longrightarrow>
    dispatch (session_handler T sqlite_store) version i line (d_clients d)
      (d_session d, d_store d, d_transport d) = (ok, cs, (s, st, tr)) \<Longrightarrow>
    daemon_step T opts version d None
      (d\<lparr>d_clients := cs, d_session := s, d_store := st, d_transport := tr,
         d_reader := (d_reader d)(i \<mapsto> (if ok then Reading else Ended))\<rparr>)"
| Hello: "d_reader d i = Some Reading \<Longrightarrow> good_hello line = Some cmd \<Longrightarrow>
    daemon_step T opts version d None
      (d\<lparr>d_clients := handleHello_greet i (d_clients d),
         d_reader := (d_reader d)(i \<mapsto> Greeting cmd)\<rparr>)"
| ReadyReply: "d_reader d i = Some (Greeting cmd) \<Longrightarrow>
    daemon_step T opts version d None
      (d\<lparr>d_clients := send i (NewReady (cID cmd) (Connected (d_session d)) version) (d_clients d),
         d_reader := (d_reader d)(i \<mapsto> Reading)\<rparr>)"
| Write: "d_clients d i = Some c \<Longrightarrow> c_out c = line # ls \<Longrightarrow>
    daemon_step T opts version d None
      (d\<lparr>d_clients := (d_clients d)(i \<mapsto> c\<lparr>c_out := ls\<rparr>),
         d_written := (d_written d)(i := d_written d i @ [line])\<rparr>)"
| EndOfInput: "d_reader d i = Some Reading \<Longrightarrow>
    daemon_step T opts version d None (d\<lparr>d_reader := (d_reader d)(i \<mapsto> Ended)\<rparr>)"
| StopWriting: "d_reader d i = Some Ended \<Longrightarrow>
    daemon_step T opts version d None (d\<lparr>d_clients := on_client i stopWriting (d_clients d)\<rparr>)"
| Remove: "d_reader d i = Some Ended \<Longrightarrow> d_clients d i = Some c \<Longrightarrow> c_shutdown c \<Longrightarrow>
    daemon_step T opts version d None (d\<lparr>d_clients := (d_clients d)(i := None)\<rparr>)"

inductive daemon_reaches ::
  "'tr transport \<Rightarrow> session_options \<Rightarrow> gostring \<Rightarrow> 'tr daemon \<Rightarrow> 'tr daemon \<Rightarrow> bool"
  for T opts version where
  Start: "daemon_reaches T opts version d d"
| Next: "daemon_reaches T opts version d e \<Longrightarrow> daemon_step T opts version e l f \<Longrightarrow>
    daemon_reaches T opts version d f"

text \<open>The same with the events taken on the way, in order.\<close>

inductive daemon_trace ::
  "'tr transport \<Rightarrow> session_options \<Rightarrow> gostring \<Rightarrow> 'tr daemon \<Rightarrow> transport_event list \<Rightarrow> 'tr daemon \<Rightarrow> bool"
  for T opts version where
  Quiet: "daemon_trace T opts version d [] d"
| Silent: "daemon_trace T opts version d evs e \<Longrightarrow> daemon_step T opts version e None f \<Longrightarrow>
    daemon_trace T opts version d evs f"
| Taken: "daemon_trace T opts version d evs e \<Longrightarrow> daemon_step T opts version e (Some ev) f \<Longrightarrow>
    daemon_trace T opts version d (evs @ [ev]) f"

lemma daemon_trace_reaches: "daemon_trace T opts version d evs e \<Longrightarrow> daemon_reaches T opts version d e"
  by (induction rule: daemon_trace.induct) (auto intro: Start Next)

inductive_cases daemon_stepE: "daemon_step T opts version d l e"

text \<open>The two steps of a good hello are \<open>handleHello\<close>, when nothing comes between them.\<close>

lemma hello_in_two_steps:
  assumes "good_hello line = Some cmd"
  shows "dispatch (session_handler T sqlite_store) version i line cs (s, st, tr) =
    (True, send i (NewReady (cID cmd) (Connected s) version) (handleHello_greet i cs), (s, st, tr))"
  using assms
  by (auto simp: good_hello_def dispatch_def handleHello_def session_handler_def
      split: option.splits if_splits)

section \<open>The invariant\<close>

text \<open>Every line for a client is the encoding of a proper event; a client that has not said hello
  has only been sent errors.\<close>

definition is_line :: "gostring \<Rightarrow> bool" where
  "is_line l \<longleftrightarrow> (\<exists>e. proper_event e \<and> encode e = Inr l)"

definition is_error_line :: "gostring \<Rightarrow> bool" where
  "is_error_line l \<longleftrightarrow> (\<exists>i code msg. code \<in> set errorCodes \<and> encode (NewError i code msg) = Inr l)"

definition client_ok :: "client \<Rightarrow> gostring list \<Rightarrow> bool" where
  "client_ok c written \<longleftrightarrow> queue_ok c \<and> (\<forall>l\<in>set (written @ c_out c). is_line l)
     \<and> (\<not> c_hello c \<longrightarrow> (\<forall>l\<in>set (written @ c_out c). is_error_line l))"

definition clients_ok :: "clients \<Rightarrow> (nat \<Rightarrow> gostring list) \<Rightarrow> bool" where
  "clients_ok cs written \<longleftrightarrow> (\<forall>i c. cs i = Some c \<longrightarrow> client_ok c (written i))"

definition daemon_inv :: "'tr daemon \<Rightarrow> bool" where
  "daemon_inv d \<longleftrightarrow> sq_inv (d_store d) \<and> session_wf (d_session d)
     \<and> list_all broadcast_clean (d_pending d) \<and> clients_ok (d_clients d) (d_written d)
     \<and> (\<forall>i. d_reader d i = None \<longrightarrow> d_clients d i = None \<and> d_written d i = [])
     \<and> (\<forall>i cmd. d_reader d i = Some (Greeting cmd) \<longrightarrow> is_greeted i (d_clients d))
     \<and> (\<forall>i. d_reader d i = Some Reading \<longrightarrow> d_clients d i \<noteq> None)"

lemma clients_queues: "clients_ok cs w \<Longrightarrow> queues_ok cs"
  by (auto simp: clients_ok_def client_ok_def queues_ok_def)

lemma enqueue_client_ok:
  assumes "client_ok c w" and "is_line l" and "\<not> c_hello c \<Longrightarrow> is_error_line l"
  shows "client_ok (enqueue l c) w"
proof -
  have q: "queue_ok c" using assms(1) by (simp add: client_ok_def)
  have "set (c_out (enqueue l c)) \<subseteq> insert l (set (c_out c))"
    using q set_lastn_subset [of clientQueue "c_out c @ [l]"] by (auto simp: enqueue_def enqueue_loop_eq)
  with assms q show ?thesis by (fastforce simp: client_ok_def enqueue_ok)
qed

lemma send_clients_ok:
  assumes "clients_ok cs w" and "proper_event v" and "(\<exists>i c m. v = NewError i c m) \<or> is_greeted i cs"
  shows "clients_ok (send i v cs) w"
proof (cases "encode v")
  case (Inl err)
  with assms show ?thesis by (simp add: send_def)
next
  case (Inr l)
  with assms(2) have "is_line l" by (auto simp: is_line_def)
  moreover have "cs i = Some c \<Longrightarrow> \<not> c_hello c \<Longrightarrow> is_error_line l" for c
    using assms(2,3) Inr by (auto simp: is_error_line_def is_greeted_def greeted_def NewError_def) blast
  ultimately show ?thesis
    using assms(1) Inr
    by (auto simp: send_def clients_ok_def on_client_def enqueue_client_ok split: option.splits)
qed

lemma broadcast_clients_ok:
  assumes "clients_ok cs w" and "proper_event v"
  shows "clients_ok (broadcast_line v cs) w"
proof (cases "encode v")
  case (Inr l)
  with assms(2) have "is_line l" by (auto simp: is_line_def)
  then show ?thesis
    using assms Inr by (auto simp: broadcast_line_def clients_ok_def greeted_def
        split: option.splits intro!: enqueue_client_ok)
qed (simp add: broadcast_line_def assms)

lemma proper_events [simp]:
  "proper_event (broadcast_event b)" "proper_event (NewReady i c d)" "proper_event (NewAck i ev)"
  "proper_event (NewRooms i rs)" "proper_event (NewHistory i r ms)" "proper_event (NewError i ErrBadProto msg)"
  "proper_event (NewError i ErrBadRequest msg)" "proper_event (NewError i CodeUnknownRoom msg)"
  "proper_event (NewError i ErrOffline msg)" "proper_event (NewError i ErrInternal msg)"
  "proper_event (NewError i (codeFor err) msg)"
  by (cases b) (simp_all add: new_defs errorCodes_def codeFor_def split: goerr.split)

lemma broadcasts_clients_ok: "clients_ok cs w \<Longrightarrow> clients_ok (broadcasts bs cs) w"
  by (induction bs arbitrary: cs) (simp_all add: broadcast_clients_ok)

lemma broadcast_line_greeted: "queues_ok cs \<Longrightarrow> is_greeted i (broadcast_line v cs) = is_greeted i cs"
  by (auto simp: broadcast_line_def is_greeted_def greeted_def queues_ok_def
      split: sum.split option.split)

lemma broadcasts_greeted: "queues_ok cs \<Longrightarrow> is_greeted i (broadcasts bs cs) = is_greeted i cs"
  by (induction bs arbitrary: cs) (simp_all add: broadcast_line_greeted broadcast_line_ok)

lemma greet_clients_ok: "clients_ok cs w \<Longrightarrow> clients_ok (handleHello_greet i cs) w"
  by (auto simp: handleHello_greet_def on_client_def clients_ok_def client_ok_def queue_ok_def
      split: option.splits)

lemma dispatch_clients_ok:
  assumes "clients_ok cs w" and "good_hello line = None"
    and "dispatch H v i line cs h = (ok, cs', h')"
  shows "clients_ok cs' w"
proof (cases "is_greeted i cs")
  case True
  then have g: "is_greeted i (broadcasts bs cs)" for bs
    using broadcasts_greeted [OF clients_queues [OF assms(1)]] by simp
  show ?thesis using assms True g
    by (auto simp: dispatch_def good_hello_def handleHello_def handleSend_def handleMarkRead_def
        handleHistory_def handleRooms_def broadcasts_clients_ok intro!: send_clients_ok
        split: option.splits if_splits prod.splits sum.splits)
next
  case False
  with assms show ?thesis
    by (auto simp: dispatch_def good_hello_def handleHello_def intro!: send_clients_ok
        split: option.splits if_splits)
qed

lemma on_client_None [simp]: "on_client i f cs j = None \<longleftrightarrow> cs j = None"
  by (auto simp: on_client_def split: option.splits)

lemma send_None [simp]: "send i v cs j = None \<longleftrightarrow> cs j = None"
  by (simp add: send_def split: sum.split)

lemma broadcast_line_None [simp]: "broadcast_line v cs j = None \<longleftrightarrow> cs j = None"
  by (simp add: broadcast_line_def split: sum.split option.split)

lemma broadcasts_None [simp]: "broadcasts bs cs j = None \<longleftrightarrow> cs j = None"
  by (induction bs arbitrary: cs) simp_all

lemma greet_None [simp]: "handleHello_greet i cs j = None \<longleftrightarrow> cs j = None"
  by (simp add: handleHello_greet_def)

lemma dispatch_None:
  "dispatch H v i line cs h = (ok, cs', h') \<Longrightarrow> cs' j = None \<longleftrightarrow> cs j = None"
  by (auto simp: dispatch_def handleHello_def handleSend_def handleMarkRead_def handleHistory_def
      handleRooms_def split: option.splits if_splits prod.splits sum.splits)

lemma dispatch_greeted:
  assumes "queues_ok cs" and "good_hello line = None" and "dispatch H v i line cs h = (ok, cs', h')"
  shows "is_greeted j cs' = is_greeted j cs"
  using assms
  by (auto simp: dispatch_def good_hello_def handleHello_def handleSend_def handleMarkRead_def
      handleHistory_def handleRooms_def send_hello broadcasts_greeted broadcasts_ok
      split: option.splits if_splits prod.splits sum.splits)

lemma dispatch_hub:
  assumes "sq_inv st" and
    "dispatch (session_handler T sqlite_store) v i line cs (s, st, tr) = (ok, cs', (s', st', tr'))"
  shows "s' = s \<and> sq_inv st'"
  using sq.over.dispatch_inv [where base = s and logs = "a_log (sq_abs st)" and c = "sq_cap st", OF _ assms(2)] assms(1)
  by (simp add: handler_inv_def)

lemma greeted_upd: "is_greeted i (cs(j \<mapsto> c)) = (if i = j then c_hello c else is_greeted i cs)"
  by (simp add: is_greeted_def greeted_def)

lemma clients_ok_upd:
  "clients_ok cs w \<Longrightarrow> client_ok c (w i) \<Longrightarrow> clients_ok (cs(i \<mapsto> c)) w"
  by (simp add: clients_ok_def)

lemma is_greeted_on_client:
  "(\<And>c. c_hello (f c) = c_hello c) \<Longrightarrow> is_greeted j (on_client i f cs) = is_greeted j cs"
  by (simp add: is_greeted_def greeted_def on_client_def split: option.split)

lemma is_greeted_None: "is_greeted i cs \<Longrightarrow> cs i \<noteq> None"
  by (auto simp: is_greeted_def split: option.splits)

lemma stop_clients_ok: "clients_ok cs w \<Longrightarrow> clients_ok (on_client i stopWriting cs) w"
  by (auto simp: clients_ok_def on_client_def client_ok_def queue_ok_def stopWriting_def
      split: option.splits)

lemma daemon_step_inv:
  assumes "daemon_step T opts version d l e" and "daemon_inv d"
  shows "daemon_inv e"
  using assms
proof (induction rule: daemon_step.induct)
  case (Event d ev bs s st)
  then have st: "sq_inv (d_store d)" "session_wf (d_session d)" by (simp_all add: daemon_inv_def)
  have "sq_inv st \<and> list_all broadcast_clean bs"
  proof (cases ev)
    case (EventMessage m)
    with Event st show ?thesis
      using sq.ingest_contract [of "d_store d" m opts True "d_session d" bs s st] by simp
  next
    case (EventConnected c)
    with Event st show ?thesis by auto
  qed
  moreover have "session_wf s" using handle_wf [OF st(2) Event(3)] by simp
  ultimately show ?case using Event by (simp add: daemon_inv_def)
next
  case (Broadcast d b bs)
  then have "queues_ok (d_clients d)" by (auto simp: daemon_inv_def dest: clients_queues)
  with Broadcast show ?case
    by (auto simp: daemon_inv_def broadcast_clients_ok broadcast_line_greeted)
next
  case (Accept d i)
  then show ?case
    by (auto simp: daemon_inv_def greeted_upd client_ok_def queue_ok_def newClient_def
        intro!: clients_ok_upd)
next
  case (Line d i line ok cs s st tr)
  then have q: "queues_ok (d_clients d)" by (auto simp: daemon_inv_def dest: clients_queues)
  have "s = d_session d \<and> sq_inv st" using dispatch_hub [OF _ Line(4)] Line(5) by (simp add: daemon_inv_def)
  moreover have "clients_ok cs (d_written d)"
    using dispatch_clients_ok [OF _ Line(3,4)] Line(5) by (simp add: daemon_inv_def)
  moreover note dispatch_greeted [OF q Line(3,4)] dispatch_None [OF Line(4)]
  ultimately show ?case using Line(1,5) by (auto simp: daemon_inv_def split: if_splits)
next
  case (Hello d i line cmd)
  then obtain c where "d_clients d i = Some c" by (auto simp: daemon_inv_def)
  note g = greet_hello [of "d_clients d" i, OF this] greet_other [of _ i "d_clients d"]
  have "is_greeted j (handleHello_greet i (d_clients d)) \<longleftrightarrow> j = i \<or> is_greeted j (d_clients d)" for j
    using g by (cases "j = i") (simp_all add: is_greeted_def)
  with Hello show ?case by (auto simp: daemon_inv_def greet_clients_ok)
next
  case (ReadyReply d i cmd)
  then have q: "queues_ok (d_clients d)" by (auto simp: daemon_inv_def dest: clients_queues)
  have "is_greeted i (d_clients d)" using ReadyReply by (auto simp: daemon_inv_def)
  with ReadyReply q show ?case
    using is_greeted_None [of i "d_clients d"]
    by (auto simp: daemon_inv_def send_hello intro!: send_clients_ok)
next
  case (Write d i c line ls)
  then have "client_ok c (d_written d i)" by (auto simp: daemon_inv_def clients_ok_def)
  then have "client_ok (c\<lparr>c_out := ls\<rparr>) (d_written d i @ [line])"
    using Write(2) by (auto simp: client_ok_def queue_ok_def)
  moreover have "c_hello c \<longleftrightarrow> is_greeted i (d_clients d)" using Write(1) by (simp add: is_greeted_def greeted_def)
  moreover have "d_reader d i \<noteq> None" using Write by (auto simp: daemon_inv_def)
  ultimately show ?case
    using Write by (auto simp: daemon_inv_def clients_ok_def greeted_upd)
next
  case (EndOfInput d i)
  then show ?case by (auto simp: daemon_inv_def)
next
  case (StopWriting d i)
  then show ?case
    by (auto simp: daemon_inv_def is_greeted_on_client stopWriting_def stop_clients_ok)
next
  case (Remove d i c)
  then show ?case by (auto simp: daemon_inv_def clients_ok_def is_greeted_def)
qed

lemma daemon_inv_init: "sq_inv db \<Longrightarrow> daemon_inv (daemon_init T opts db tr)"
  by (auto simp: daemon_init_def daemon_inv_def Run_start_def clients_ok_def session_wf_New Let_def
      intro!: register_rooms_wf split: prod.split sum.split option.split)

lemma daemon_reaches_inv: "daemon_reaches T opts version d e \<Longrightarrow> daemon_inv d \<Longrightarrow> daemon_inv e"
  by (induction rule: daemon_reaches.induct) (auto dest: daemon_step_inv)

section \<open>Properties\<close>

text \<open>C1: in every state the daemon can reach, by any interleaving of its goroutines, with any
  client input, any transport and SQL failures anywhere: the store's tables are consistent,
  the session lists each room once, no client has more than 64 lines waiting, everything
  sent to a client is a whole line of the protocol, and a connection that has not said
  hello has been sent nothing but errors.\<close>

theorem daemon_safe:
  assumes "sq_inv db" and "daemon_reaches T opts version (daemon_init T opts db tr) d"
  shows "sq_inv (d_store d) \<and> session_wf (d_session d)
    \<and> (\<forall>i c. d_clients d i = Some c \<longrightarrow> length (c_out c) \<le> 64
         \<and> list_all is_line (d_written d i @ c_out c)
         \<and> (\<not> c_hello c \<longrightarrow> list_all is_error_line (d_written d i @ c_out c)))"
  using daemon_reaches_inv [OF assms(2) daemon_inv_init [OF assms(1)]]
  by (auto simp: daemon_inv_def clients_ok_def client_ok_def queue_ok_def clientQueue_def list_all_iff)

definition hello_command :: Command where
  "hello_command = \<lparr>cT = CmdHello, cID = ''1'', cProto = 1, cClient = ''x'', cRoom = [], cBody = [],
     cEvent = [], cLimit = 0\<rparr>"

lemma hello_decodes:
  "good_hello (marshal (command_json hello_command)) = Some hello_command"
proof -
  have "decode_command (marshal (command_json hello_command)) = Some hello_command"
    by (rule decode_marshal)
      (simp_all add: hello_command_def command_strings_def int64_def CmdHello_def valid_ascii
        repair_valid_iff)
  then show ?thesis by (simp add: good_hello_def hello_command_def ProtoVersion_def)
qed

definition quiet_db :: sqlite where
  "quiet_db = OpenSQLite 2 (sq_fresh (\<lambda>_. None))"

definition first_message :: message where
  "first_message = normalise plain_options (sample_message ''e1'' False)"

lemma first_message_line: "\<exists>b. encode (NewMessage first_message) = Inr (b @ [newline])"
proof (rule message_fits)
  have "body_cap (SanitizeOpts plain_options) = 8192" by (simp add: body_cap_def plain_options_def DefaultMaxBody_def)
  then show "length (mBody first_message) \<le> 8192"
    using normalise_length [of plain_options "sample_message ''e1'' False"]
    by (simp add: first_message_def)
  have "aliasFor plain_options (mSender (sample_message ''e1'' False)) = ''mia''"
    by (simp add: aliasFor_def plain_options_def sample_message_def localpart_eq TrimPrefix_def
        HasPrefix_def)
  then show "length (mRoom first_message) + length (mEvent first_message) +
      length (mSender first_message) + length (mDisplay first_message) + length (mKind first_message) \<le> 2600"
    by (simp add: first_message_def sample_message_def KindText_def)
qed (simp_all add: first_message_def sample_message_def)

lemma first_message_handled:
  "\<exists>b s st. handle sqlite_store plain_options True (EventMessage (sample_message ''e1'' False)) base quiet_db
     = ([BroadcastMessage first_message, b], s, st)"
  using sqr.ingest_effect [OF reliable_open [of 2], where m = "sample_message ''e1'' False"
      and opts = plain_options and s = base]
  by (auto simp: quiet_db_def first_message_def)

text \<open>\<open>ready\<close> need not be the first event. The reader sets the client's hello flag and only
  then queues the reply, so a message broadcast in between goes first: there is a run in
  which a client that only said hello has a message event waiting before anything else.\<close>

theorem ready_not_first:
  "\<exists>d c line. daemon_reaches refusing_transport plain_options []
       (daemon_init refusing_transport plain_options quiet_db ()) d
     \<and> encode (NewMessage first_message) = Inr line
     \<and> d_clients d 1 = Some c \<and> c_out c = [line] \<and> d_written d 1 = []
     \<and> d_reader d 1 = Some (Greeting hello_command)"
proof -
  let ?reach = "daemon_reaches refusing_transport plain_options []"
  let ?d0 = "daemon_init refusing_transport plain_options quiet_db ()"
  obtain s0 where d0: "?d0 = \<lparr>d_session = s0, d_store = quiet_db, d_transport = (), d_pending = [],
      d_clients = Map.empty, d_reader = (\<lambda>_. None), d_written = (\<lambda>_. [])\<rparr>"
    by (simp add: daemon_init_def Run_start_def refusing_transport_def)
  obtain b s st where h: "handle sqlite_store plain_options True
      (EventMessage (sample_message ''e1'' False)) s0 quiet_db
      = ([BroadcastMessage first_message, b], s, st)" using first_message_handled by blast
  obtain line where line: "encode (NewMessage first_message) = Inr line"
    using first_message_line by blast
  let ?hi = "newClient\<lparr>c_hello := True\<rparr>"
  let ?d1 = "?d0\<lparr>d_clients := [1 \<mapsto> newClient], d_reader := [1 \<mapsto> Reading]\<rparr>"
  let ?d2 = "?d1\<lparr>d_session := s, d_store := st, d_pending := [BroadcastMessage first_message, b]\<rparr>"
  let ?d3 = "?d2\<lparr>d_clients := [1 \<mapsto> ?hi], d_reader := [1 \<mapsto> Greeting hello_command]\<rparr>"
  let ?d4 = "?d3\<lparr>d_pending := [b], d_clients := [1 \<mapsto> ?hi\<lparr>c_out := [line]\<rparr>]\<rparr>"
  have "?reach ?d0 ?d1"
    using Accept [of ?d0 1 refusing_transport plain_options "[]"] Start [of _ _ _ ?d0]
    by (auto simp: d0 intro: Next)
  moreover have "daemon_step refusing_transport plain_options [] ?d1 (Some (EventMessage (sample_message ''e1'' False))) ?d2"
    using Event [of ?d1 "EventMessage (sample_message ''e1'' False)"] h by (simp add: d0)
  moreover have "daemon_step refusing_transport plain_options [] ?d2 None ?d3"
    using Hello [of ?d2 1 _ hello_command] hello_decodes
    by (simp add: d0 handleHello_greet_def on_client_def)
  moreover have "broadcast_line (NewMessage first_message) [1 \<mapsto> ?hi] = [1 \<mapsto> ?hi\<lparr>c_out := [line]\<rparr>]"
    by (auto simp: broadcast_line_def line greeted_def enqueue_def newClient_def enqueue_loop.simps
        clientQueue_def)
  then have "daemon_step refusing_transport plain_options [] ?d3 None ?d4"
    using Broadcast [of ?d3 "BroadcastMessage first_message" "[b]"] by simp
  ultimately have "?reach ?d0 ?d4" by (blast intro: Next)
  moreover have "d_clients ?d4 1 = Some (?hi\<lparr>c_out := [line]\<rparr>)" "d_written ?d4 1 = []"
    "d_reader ?d4 1 = Some (Greeting hello_command)" by (simp_all add: d0)
  ultimately show ?thesis using line by fastforce
qed

text \<open>\<open>daemon_safe\<close> in that state: a client with a line waiting.\<close>

theorem daemon_safe_witness:
  "\<exists>d c line. daemon_reaches refusing_transport plain_options []
       (daemon_init refusing_transport plain_options quiet_db ()) d
     \<and> d_clients d 1 = Some c \<and> c_out c = [line] \<and> is_line line \<and> sq_inv (d_store d)
     \<and> session_wf (d_session d)"
proof -
  obtain d c line where d: "daemon_reaches refusing_transport plain_options []
      (daemon_init refusing_transport plain_options quiet_db ()) d"
    "d_clients d 1 = Some c" "c_out c = [line]"
    using ready_not_first by blast
  have "sq_inv quiet_db" using reliable_open [of 2] by (simp add: quiet_db_def sq_reliable_def)
  note safe = daemon_safe [OF this d(1)]
  have "is_line line" "sq_inv (d_store d)" "session_wf (d_session d)"
    using safe [THEN conjunct2, THEN conjunct2, rule_format, OF d(2)] safe d(3) by simp_all
  with d show ?thesis by (intro exI [of _ d] exI [of _ c] exI [of _ line]) simp
qed

text \<open>C38: the wire is typed. In every state the daemon can reach, every line written or waiting for
  a client is one line of JSON that a reader of JSON accepts, and its value has exactly one of
  the seven types of the protocol: the fields its tag asks for and no others, each of its type,
  every string valid UTF-8, and an error's code one of the documented five.\<close>

theorem wire_typed:
  assumes "sq_inv db" and "daemon_reaches T opts version (daemon_init T opts db tr) d"
    and "d_clients d i = Some c" and "line \<in> set (d_written d i @ c_out c)"
  shows "\<exists>b j. line = b @ [newline] \<and> newline \<notin> set b \<and> unmarshal b = Some j
    \<and> (\<exists>!t. t \<in> set protocol \<and> has_type t j)"
proof -
  have "is_line line"
    using daemon_reaches_inv [OF assms(2) daemon_inv_init [OF assms(1)]] assms(3,4)
    by (auto simp: daemon_inv_def clients_ok_def client_ok_def)
  with encoded_typed show ?thesis by (auto simp: is_line_def)
qed

theorem wire_typed_witness:
  "\<exists>line b j. encode (NewMessage first_message) = Inr line \<and> line = b @ [newline]
     \<and> unmarshal b = Some j \<and> (\<exists>!t. t \<in> set protocol \<and> has_type t j)"
proof -
  obtain d c line where d: "daemon_reaches refusing_transport plain_options []
      (daemon_init refusing_transport plain_options quiet_db ()) d"
    "encode (NewMessage first_message) = Inr line" "d_clients d 1 = Some c" "c_out c = [line]"
    using ready_not_first by blast
  have "sq_inv quiet_db" using reliable_open [of 2] by (simp add: quiet_db_def sq_reliable_def)
  from wire_typed [OF this d(1,3), of line] d(2,4) show ?thesis by auto
qed

end
