(* ===== verification/GoStd.thy ===== *)
theory GoStd
  imports GoErrors
begin

text \<open>
  More of Go's standard library, as far as the configuration and the set-up code use it:
  \<open>strings.TrimSpace\<close>, \<open>Split\<close>, \<open>Join\<close>, \<open>CutPrefix\<close> and \<open>HasSuffix\<close>, and the lexical part
  of \<open>path/filepath\<close> on Unix (\<open>Clean\<close>, \<open>Dir\<close>, \<open>Join\<close>).
\<close>

section \<open>\<open>strings\<close>\<close>

text \<open>A string cut into the byte sequences its runes were decoded from.\<close>

function chunks :: "gostring \<Rightarrow> (rune \<times> gostring) list" where
  "chunks [] = []"
| "chunks (c # cs) =
     (let (r, w) = decode_rune c cs in (r, take w (c # cs)) # chunks (drop (w - 1) cs))"
  by pat_completeness auto
termination
  by (relation "measure length") auto

definition IsSpace :: "rune \<Rightarrow> bool" where
  "IsSpace r \<longleftrightarrow> r \<in> {0x09, 0x0A, 0x0B, 0x0C, 0x0D, 0x20, 0x85, 0xA0, 0x1680, 0x2028, 0x2029, 0x202F,
     0x205F, 0x3000} \<or> (0x2000 \<le> r \<and> r \<le> 0x200A)"

definition TrimSpace :: "gostring \<Rightarrow> gostring" where
  "TrimSpace s =
     (let trim = dropWhile (\<lambda>(r, bs). IsSpace r)
      in concat (map snd (rev (trim (rev (trim (chunks s)))))))"

text \<open>\<open>strings.Split\<close> at a one-byte separator: always at least one part.\<close>

fun Split :: "gostring \<Rightarrow> char \<Rightarrow> gostring list" where
  "Split [] sep = [[]]"
| "Split (c # cs) sep =
     (if c = sep then [] # Split cs sep
      else case Split cs sep of [] \<Rightarrow> [[c]] | p # ps \<Rightarrow> (c # p) # ps)"

fun StrJoin :: "gostring list \<Rightarrow> gostring \<Rightarrow> gostring" where
  "StrJoin [] sep = []"
| "StrJoin [s] sep = s"
| "StrJoin (s # t # ss) sep = s @ sep @ StrJoin (t # ss) sep"

definition CutPrefix :: "gostring \<Rightarrow> gostring \<Rightarrow> gostring option" where
  "CutPrefix s p = (if HasPrefix s p then Some (drop (length p) s) else None)"

definition HasSuffix :: "gostring \<Rightarrow> gostring \<Rightarrow> bool" where
  "HasSuffix s p \<longleftrightarrow> length p \<le> length s \<and> drop (length s - length p) s = p"

lemma Split_not_Nil [simp]: "Split s sep \<noteq> []"
  by (induction s) (auto split: list.split)

lemma StrJoin_Cons: "ss \<noteq> [] \<Longrightarrow> StrJoin (s # ss) sep = s @ sep @ StrJoin ss sep"
  by (cases ss) simp_all

lemma StrJoin_Split: "StrJoin (Split s sep) [sep] = s"
proof (induction s)
  case Nil
  then show ?case by simp
next
  case (Cons c cs)
  obtain p ps where p: "Split cs sep = p # ps" by (cases "Split cs sep") auto
  with Cons show ?case by (cases ps) (auto simp: StrJoin_Cons)
qed

lemma Split_parts: "p \<in> set (Split s sep) \<Longrightarrow> sep \<notin> set p"
  by (induction s arbitrary: p) (fastforce split: list.splits if_splits)+

lemma Split_clean: "sep \<notin> set s \<Longrightarrow> Split s sep = [s]"
  by (induction s) auto

lemma Split_append_sep: "sep \<notin> set s \<Longrightarrow> Split (s @ sep # t) sep = s # Split t sep"
  by (induction s) auto

lemma Split_StrJoin:
  "ss \<noteq> [] \<Longrightarrow> (\<And>s. s \<in> set ss \<Longrightarrow> sep \<notin> set s) \<Longrightarrow> Split (StrJoin ss [sep]) sep = ss"
proof (induction ss rule: induct_list012)
  case (3 s t ss)
  have "Split (StrJoin (t # ss) [sep]) sep = t # ss" by (rule 3(2)) (use 3 in auto)
  with 3(4) [of s] show ?case by (simp add: Split_append_sep)
qed (simp_all add: Split_clean)

section \<open>\<open>filepath\<close>\<close>

text \<open>\<open>Clean\<close>: path elements from left to right; empty elements and \<open>.\<close> go, \<open>..\<close> removes the
  element before it, or stays at the front of a relative path. The accumulator is reversed.\<close>

fun clean_step :: "bool \<Rightarrow> gostring list \<Rightarrow> gostring \<Rightarrow> gostring list" where
  "clean_step rooted acc e =
     (if e = [] \<or> e = ''.'' then acc
      else if e = ''..'' then
        (case acc of
           [] \<Rightarrow> if rooted then [] else [''..'']
         | x # xs \<Rightarrow> if x = ''..'' then ''..'' # acc else xs)
      else e # acc)"

definition Clean :: "gostring \<Rightarrow> gostring" where
  "Clean path =
     (let rooted = HasPrefix path ''/'';
          parts = rev (foldl (clean_step rooted) [] (Split path (CHR ''/'')));
          body = StrJoin parts ''/''
      in if rooted then CHR ''/'' # body else if body = [] then ''.'' else body)"

text \<open>\<open>Dir\<close>: everything up to the last slash, cleaned.\<close>

definition PathDir :: "gostring \<Rightarrow> gostring" where
  "PathDir path = Clean (rev (dropWhile (\<lambda>c. c \<noteq> CHR ''/'') (rev path)))"

definition PathJoin :: "gostring list \<Rightarrow> gostring" where
  "PathJoin parts =
     (let parts = dropWhile (\<lambda>p. p = []) parts
      in if parts = [] then [] else Clean (StrJoin parts ''/''))"

end
