(* ===== verification/Config.thy ===== *)
theory Config
  imports GoStd Json
begin

unbundle bit_operations_syntax

text \<open>
  \<open>internal/config\<close>: the daemon's configuration. The records are the structs; the alias map
  is an association list with distinct keys, as TOML gives it. What is not under src/ is a
  parameter: the TOML decoder (a function from the file's text to an error or the decoded
  value with the set of keys the file defines), the operating system (the record \<open>os\<close> of
  environment, files and directories) and \<open>time.ParseDuration\<close>. Each \<open>fmt.Errorf\<close> is a
  constructor of \<open>config_error\<close> that keeps its arguments.
\<close>

section \<open>The configuration\<close>

record daemon_config =
  dc_Socket :: gostring
  dc_HistoryCapacity :: int
  dc_Store :: gostring
  dc_StateDB :: gostring

record matrix_config =
  xc_Homeserver :: gostring
  xc_UserID :: gostring
  xc_DeviceID :: gostring
  xc_TokenFile :: gostring
  xc_Encrypt :: bool
  xc_SessionDB :: gostring
  xc_PickleKeyFile :: gostring

record sanitize_config =
  sc_StripEmoji :: bool
  sc_MaxBody :: int

record mock_room =
  kr_ID :: gostring
  kr_Display :: gostring

record mock_message =
  km_Room :: gostring
  km_Sender :: gostring
  km_Body :: gostring
  km_Kind :: gostring
  km_Own :: bool
  km_After :: gostring

record mock_config =
  kc_Loop :: bool
  kc_Rooms :: "mock_room list"
  kc_Msgs :: "mock_message list"

record config =
  cfg_Daemon :: daemon_config
  cfg_Kind :: gostring
  cfg_Matrix :: matrix_config
  cfg_Aliases :: "(gostring \<times> gostring) list"
  cfg_Sanitize :: sanitize_config
  cfg_Mock :: mock_config

datatype config_error =
    ReadConfig goerr
  | ParseConfig goerr
  | UnknownStore gostring
  | UnknownTransport gostring
  | MockRoomNoID gostring
  | MockMessageNoRoom gostring
  | MockMessageUndeclared gostring gostring
  | NeedsHomeserver
  | NeedsUserID
  | NoAccessToken
  | ReadTokenFile goerr
  | TokenFileMode gostring nat
  | TokenFileEmpty gostring

text \<open>Durations in nanoseconds.\<close>

definition Delay :: "(gostring \<Rightarrow> goerr + int) \<Rightarrow> mock_message \<Rightarrow> int" where
  "Delay ParseDuration m =
     (if km_After m = [] then 30 * 10 ^ 9
      else case ParseDuration (km_After m) of
             Inl err \<Rightarrow> 30 * 10 ^ 9
           | Inr d \<Rightarrow> if d < 0 then 30 * 10 ^ 9 else d)"

section \<open>Defaults\<close>

definition demo_room :: gostring where
  "demo_room = ''!demo:localhost''"

definition demo_message :: "rune list \<Rightarrow> gostring \<Rightarrow> mock_message" where
  "demo_message body after =
     \<lparr>km_Room = demo_room, km_Sender = ''@mia:localhost'', km_Body = encode_runes body, km_Kind = [],
      km_Own = False, km_After = after\<rparr>"

definition defaultMock :: mock_config where
  "defaultMock =
     \<lparr>kc_Loop = True,
      kc_Rooms = [\<lparr>kr_ID = demo_room, kr_Display = ''m.chen''\<rparr>],
      kc_Msgs =
        [demo_message [0x665A, 0x4E0A, 0x8981, 0x5403, 0x4EC0, 0x9EBC] ''20s'',
         demo_message [0x9084, 0x662F, 0x8001, 0x6A23, 0x5B50, 0x90A3, 0x9593, 0x62C9, 0x9EB5, 0xFF1F] ''45s'',
         demo_message [0x4E03, 0x9EDE, 0x6211, 0x5148, 0x53BB, 0x6392, 0x968A] ''60s'']\<rparr>"

definition Default :: config where
  "Default =
     \<lparr>cfg_Daemon = \<lparr>dc_Socket = [], dc_HistoryCapacity = 500, dc_Store = ''sqlite'', dc_StateDB = []\<rparr>,
      cfg_Kind = ''mock'',
      cfg_Matrix = \<lparr>xc_Homeserver = [], xc_UserID = [], xc_DeviceID = [], xc_TokenFile = [],
        xc_Encrypt = True, xc_SessionDB = [], xc_PickleKeyFile = []\<rparr>,
      cfg_Aliases = [],
      cfg_Sanitize = \<lparr>sc_StripEmoji = True, sc_MaxBody = 8192\<rparr>,
      cfg_Mock = defaultMock\<rparr>"

section \<open>Loading\<close>

text \<open>A field of the file when it is set, else of the base.\<close>

definition set_or :: "gostring \<Rightarrow> gostring \<Rightarrow> gostring" where
  "set_or file base = (if file \<noteq> [] then file else base)"

definition mergeMatrix :: "matrix_config \<Rightarrow> matrix_config \<Rightarrow> matrix_config" where
  "mergeMatrix base file =
     base\<lparr>xc_Homeserver := set_or (xc_Homeserver file) (xc_Homeserver base),
          xc_UserID := set_or (xc_UserID file) (xc_UserID base),
          xc_DeviceID := set_or (xc_DeviceID file) (xc_DeviceID base),
          xc_TokenFile := set_or (xc_TokenFile file) (xc_TokenFile base),
          xc_SessionDB := set_or (xc_SessionDB file) (xc_SessionDB base),
          xc_PickleKeyFile := set_or (xc_PickleKeyFile file) (xc_PickleKeyFile base)\<rparr>"

definition mergeDaemon :: "daemon_config \<Rightarrow> daemon_config \<Rightarrow> daemon_config" where
  "mergeDaemon base file =
     base\<lparr>dc_Socket := set_or (dc_Socket file) (dc_Socket base),
          dc_HistoryCapacity :=
            (if dc_HistoryCapacity file > 0 then dc_HistoryCapacity file else dc_HistoryCapacity base),
          dc_Store := set_or (dc_Store file) (dc_Store base),
          dc_StateDB := set_or (dc_StateDB file) (dc_StateDB base)\<rparr>"

definition merge :: "config \<Rightarrow> config \<Rightarrow> config" where
  "merge base file =
     base\<lparr>cfg_Daemon := mergeDaemon (cfg_Daemon base) (cfg_Daemon file),
          cfg_Kind := set_or (cfg_Kind file) (cfg_Kind base),
          cfg_Matrix := mergeMatrix (cfg_Matrix base) (cfg_Matrix file),
          cfg_Aliases := (if cfg_Aliases file \<noteq> [] then cfg_Aliases file else cfg_Aliases base),
          cfg_Sanitize := (if sc_MaxBody (cfg_Sanitize file) > 0
            then (cfg_Sanitize base)\<lparr>sc_MaxBody := sc_MaxBody (cfg_Sanitize file)\<rparr>
            else cfg_Sanitize base),
          cfg_Mock := (if kc_Rooms (cfg_Mock file) \<noteq> [] \<or> kc_Msgs (cfg_Mock file) \<noteq> []
            then cfg_Mock file else cfg_Mock base)\<rparr>"

text \<open>The decoder answers with the value and whether a key is defined in the file.\<close>

type_synonym toml_decoder = "gostring \<Rightarrow> goerr + (config \<times> (gostring list \<Rightarrow> bool))"

definition overlay :: "config \<Rightarrow> (gostring list \<Rightarrow> bool) \<Rightarrow> config" where
  "overlay file defined =
     (let out = merge Default file;
          out = (if defined [''sanitize'', ''strip_emoji'']
                 then out\<lparr>cfg_Sanitize := (cfg_Sanitize out)\<lparr>sc_StripEmoji := sc_StripEmoji (cfg_Sanitize file)\<rparr>\<rparr>
                 else out);
          out = (if defined [''mock'', ''loop'']
                 then out\<lparr>cfg_Mock := (cfg_Mock out)\<lparr>kc_Loop := kc_Loop (cfg_Mock file)\<rparr>\<rparr> else out)
      in if defined [''matrix'', ''encrypt'']
         then out\<lparr>cfg_Matrix := (cfg_Matrix out)\<lparr>xc_Encrypt := xc_Encrypt (cfg_Matrix file)\<rparr>\<rparr> else out)"

definition Load ::
  "toml_decoder \<Rightarrow> (gostring \<Rightarrow> goerr + gostring) \<Rightarrow> gostring \<Rightarrow> config \<times> config_error option" where
  "Load Decode ReadFile path =
     (if path = [] then (Default, None)
      else case ReadFile path of
             Inl err \<Rightarrow> if is_not_exist err then (Default, None) else (Default, Some (ReadConfig err))
           | Inr data \<Rightarrow>
               (case Decode data of
                  Inl err \<Rightarrow> (Default, Some (ParseConfig err))
                | Inr (file, defined) \<Rightarrow> (overlay file defined, None)))"

section \<open>Validation\<close>

fun validate_rooms :: "mock_room list \<Rightarrow> gostring list \<Rightarrow> config_error + gostring list" where
  "validate_rooms [] declared = Inr declared"
| "validate_rooms (r # rs) declared =
     (if kr_ID r = [] then Inl (MockRoomNoID (kr_Display r))
      else validate_rooms rs (kr_ID r # declared))"

fun validate_msgs :: "mock_message list \<Rightarrow> gostring list \<Rightarrow> config_error option" where
  "validate_msgs [] declared = None"
| "validate_msgs (m # ms) declared =
     (if km_Room m = [] then Some (MockMessageNoRoom (km_Body m))
      else if km_Room m \<notin> set declared then Some (MockMessageUndeclared (km_Body m) (km_Room m))
      else validate_msgs ms declared)"

definition Validate :: "config \<Rightarrow> config_error option" where
  "Validate c =
     (if dc_Store (cfg_Daemon c) \<noteq> ''sqlite'' \<and> dc_Store (cfg_Daemon c) \<noteq> ''memory''
      then Some (UnknownStore (dc_Store (cfg_Daemon c)))
      else if cfg_Kind c = ''mock''
      then (case validate_rooms (kc_Rooms (cfg_Mock c)) [] of
              Inl err \<Rightarrow> Some err
            | Inr declared \<Rightarrow> validate_msgs (kc_Msgs (cfg_Mock c)) declared)
      else if cfg_Kind c = ''matrix''
      then (if xc_Homeserver (cfg_Matrix c) = [] then Some NeedsHomeserver
            else if xc_UserID (cfg_Matrix c) = [] then Some NeedsUserID else None)
      else Some (UnknownTransport (cfg_Kind c)))"

section \<open>The access token and the paths\<close>

record os =
  Getenv :: "gostring \<Rightarrow> gostring"
  Getuid :: nat
  StatPerm :: "gostring \<Rightarrow> goerr + nat"
  IsDirectory :: "gostring \<Rightarrow> bool"
  ReadFile :: "gostring \<Rightarrow> goerr + gostring"
  UserHomeDir :: "goerr + gostring"
  TempDir :: gostring

definition TokenEnv :: gostring where
  "TokenEnv = ''QUIETDM_TOKEN''"

text \<open>The permission mask is octal 077: any bit of group or others.\<close>

definition MatrixToken :: "os \<Rightarrow> config \<Rightarrow> config_error + gostring" where
  "MatrixToken sys c =
     (let token = TrimSpace (Getenv sys TokenEnv);
          path = xc_TokenFile (cfg_Matrix c)
      in if token \<noteq> [] then Inr token
         else if path = [] then Inl NoAccessToken
         else case StatPerm sys path of
                Inl err \<Rightarrow> Inl (ReadTokenFile err)
              | Inr perm \<Rightarrow>
                  if perm AND 0x3F \<noteq> 0 then Inl (TokenFileMode path perm)
                  else case ReadFile sys path of
                         Inl err \<Rightarrow> Inl (ReadTokenFile err)
                       | Inr data \<Rightarrow>
                           let token = TrimSpace data
                           in if token = [] then Inl (TokenFileEmpty path) else Inr token)"

definition runtimeDir :: "os \<Rightarrow> gostring" where
  "runtimeDir sys =
     (let dir = Getenv sys ''XDG_RUNTIME_DIR'';
          candidate = ''/run/user/'' @ itoa (int (Getuid sys))
      in if dir \<noteq> [] then dir else if IsDirectory sys candidate then candidate else TempDir sys)"

definition SocketPath :: "os \<Rightarrow> config \<Rightarrow> gostring" where
  "SocketPath sys c =
     (if dc_Socket (cfg_Daemon c) \<noteq> [] then dc_Socket (cfg_Daemon c)
      else PathJoin [runtimeDir sys, ''quietdm'', ''sock''])"

definition StateDir :: "os \<Rightarrow> gostring" where
  "StateDir sys =
     (let dir = Getenv sys ''XDG_STATE_HOME'' in
      if dir \<noteq> [] then PathJoin [dir, ''quietdm'']
      else case UserHomeDir sys of
             Inl err \<Rightarrow> PathJoin [TempDir sys, ''quietdm'']
           | Inr home \<Rightarrow> PathJoin [home, ''.local'', ''state'', ''quietdm''])"

definition SelfHostDir :: "os \<Rightarrow> gostring" where
  "SelfHostDir sys =
     (let dir = Getenv sys ''XDG_DATA_HOME'' in
      if dir \<noteq> [] then PathJoin [dir, ''quietdm'', ''selfhost'']
      else case UserHomeDir sys of
             Inl err \<Rightarrow> PathJoin [TempDir sys, ''quietdm'', ''selfhost'']
           | Inr home \<Rightarrow> PathJoin [home, ''.local'', ''share'', ''quietdm'', ''selfhost''])"

definition DefaultConfigPath :: "os \<Rightarrow> gostring" where
  "DefaultConfigPath sys =
     (let dir = Getenv sys ''XDG_CONFIG_HOME'' in
      if dir \<noteq> [] then PathJoin [dir, ''quietdm'', ''config.toml'']
      else case UserHomeDir sys of
             Inl err \<Rightarrow> []
           | Inr home \<Rightarrow> PathJoin [home, ''.config'', ''quietdm'', ''config.toml''])"

definition StateDBPath :: "os \<Rightarrow> config \<Rightarrow> gostring" where
  "StateDBPath sys c =
     (if dc_StateDB (cfg_Daemon c) \<noteq> [] then dc_StateDB (cfg_Daemon c)
      else PathJoin [StateDir sys, ''state.db''])"

definition MatrixSessionDBPath :: "os \<Rightarrow> config \<Rightarrow> gostring" where
  "MatrixSessionDBPath sys c =
     (if xc_SessionDB (cfg_Matrix c) \<noteq> [] then xc_SessionDB (cfg_Matrix c)
      else PathJoin [StateDir sys, ''matrix.db''])"

definition PickleKeyPath :: "os \<Rightarrow> config \<Rightarrow> gostring" where
  "PickleKeyPath sys c =
     (if xc_PickleKeyFile (cfg_Matrix c) \<noteq> [] then xc_PickleKeyFile (cfg_Matrix c)
      else PathJoin [StateDir sys, ''pickle.key''])"

end
