(* ===== verification/Mock.thy ===== *)
theory Mock
  imports Config SessionProps Hub
begin

text \<open>
  \<open>internal/transport/mock.go\<close>: the scripted transport. Its state is the struct, less the
  locks; what happens around it is part of the state too: \<open>mk_env n\<close> says, for the n-th
  send into the event sink, whether it was delivered, what \<open>ctx.Err()\<close> is afterwards, and
  the clock's reading; \<open>mk_out\<close> collects the events delivered. The replay loop runs for a
  given number of rounds of the script, since a looping script never ends.
\<close>

section \<open>Definitions\<close>

record mock_env =
  env_delivered :: bool
  env_err :: "goerr option"
  env_now :: int
  env_slept :: bool

record mock =
  mk_script :: "mock_message list"
  mk_loop :: bool
  mk_rooms :: "troom list"
  mk_started :: bool
  mk_closed :: bool
  mk_seq :: int
  mk_env :: "nat \<Rightarrow> mock_env"
  mk_sends :: nat
  mk_out :: "transport_event list"

definition NewMock :: "(nat \<Rightarrow> mock_env) \<Rightarrow> mock_config \<Rightarrow> mock" where
  "NewMock env cfg =
     \<lparr>mk_script = kc_Msgs cfg, mk_loop = kc_Loop cfg,
      mk_rooms = map (\<lambda>r. \<lparr>trID = kr_ID r, trDisplay = kr_Display r\<rparr>) (kc_Rooms cfg), mk_started = False,
      mk_closed = False, mk_seq = 0, mk_env = env, mk_sends = 0, mk_out = []\<rparr>"

text \<open>A send into the sink: delivered or not, and the surroundings afterwards. A closed sink takes
  nothing.\<close>

definition sink_send :: "transport_event \<Rightarrow> mock \<Rightarrow> bool \<times> mock" where
  "sink_send ev m =
     (let ok = (env_delivered (mk_env m (mk_sends m)) \<and> \<not> mk_closed m)
      in (ok, m\<lparr>mk_sends := Suc (mk_sends m), mk_out := mk_out m @ (if ok then [ev] else [])\<rparr>))"

definition nextEventID :: "mock \<Rightarrow> gostring \<times> mock" where
  "nextEventID m = (''$mock'' @ itoa (mk_seq m + 1), m\<lparr>mk_seq := mk_seq m + 1\<rparr>)"

definition mock_knows :: "gostring \<Rightarrow> mock \<Rightarrow> bool" where
  "mock_knows r m \<longleftrightarrow> list_ex (\<lambda>x. trID x = r) (mk_rooms m)"

definition script_step :: "mock_message \<Rightarrow> mock \<Rightarrow> bool \<times> mock" where
  "script_step s m =
     (let env = mk_env m (mk_sends m) in
      if \<not> env_slept env then (False, m)
      else
        (let kind = (if km_Kind s = [] then KindText else km_Kind s);
             (i, m) = nextEventID m
         in sink_send (EventMessage
              \<lparr>mRoom = km_Room s, mEvent = i, mSender = km_Sender s, mDisplay = km_Sender s,
               mBody = km_Body s, mTS = env_now env, mOwn = km_Own s, mKind = kind\<rparr>) m))"

fun script_round :: "mock_message list \<Rightarrow> mock \<Rightarrow> bool \<times> mock" where
  "script_round [] m = (True, m)"
| "script_round (s # ss) m =
     (case script_step s m of (ok, m) \<Rightarrow> if ok then script_round ss m else (False, m))"

fun script_rounds :: "nat \<Rightarrow> mock \<Rightarrow> mock" where
  "script_rounds 0 m = m"
| "script_rounds (Suc n) m =
     (case script_round (mk_script m) m of
        (ok, m) \<Rightarrow>
          if \<not> ok then m
          else if \<not> mk_loop m \<or> mk_script m = [] then m
          else script_rounds n m)"

definition mock_run :: "nat \<Rightarrow> mock \<Rightarrow> mock" where
  "mock_run n m = script_rounds n (snd (sink_send (EventConnected True) m))"

definition mock_Send :: "gostring \<Rightarrow> gostring \<Rightarrow> mock \<Rightarrow> (goerr + gostring) \<times> mock" where
  "mock_Send roomID body m =
     (if \<not> mock_knows roomID m then (Inl (Wrap [] ErrUnknownRoom ('': '' @ roomID)), m)
      else
        (let env = mk_env m (mk_sends m);
             (i, m) = nextEventID m;
             (ok, m) = sink_send (EventMessage
               \<lparr>mRoom = roomID, mEvent = i, mSender = ''@me:localhost'', mDisplay = ''you'', mBody = body,
                mTS = env_now env, mOwn = True, mKind = KindText\<rparr>) m
         in if \<not> ok
            then (case env_err env of Some err \<Rightarrow> (Inl err, m) | None \<Rightarrow> (Inr [], m))
            else (Inr i, m)))"

definition mock_MarkRead :: "gostring \<Rightarrow> gostring \<Rightarrow> mock \<Rightarrow> goerr option \<times> mock" where
  "mock_MarkRead roomID eventID m =
     (if \<not> mock_knows roomID m then (Some (Wrap [] ErrUnknownRoom ('': '' @ roomID)), m) else (None, m))"

definition mock_Rooms :: "mock \<Rightarrow> (goerr + troom list) \<times> mock" where
  "mock_Rooms m = (Inr (mk_rooms m), m)"

text \<open>\<open>Start\<close> sets the replay going; \<open>Close\<close> closes the sink.\<close>

definition mock_Start :: "mock \<Rightarrow> goerr option \<times> mock" where
  "mock_Start m = (None, m\<lparr>mk_started := True\<rparr>)"

definition mock_Close :: "mock \<Rightarrow> goerr option \<times> mock" where
  "mock_Close m = (None, m\<lparr>mk_closed := True\<rparr>)"

definition mock_transport :: "mock transport" where
  "mock_transport =
     \<lparr>tStart = mock_Start, tSend = mock_Send, tMarkRead = mock_MarkRead, tRooms = mock_Rooms,
      tClose = mock_Close\<rparr>"

section \<open>Event IDs\<close>

definition out_messages :: "mock \<Rightarrow> message list" where
  "out_messages m = concat (map (\<lambda>ev. case ev of EventMessage x \<Rightarrow> [x] | _ \<Rightarrow> []) (mk_out m))"

text \<open>Every ID given out so far is \<open>$mock\<close> and a number up to the counter, each used once.\<close>

definition issued :: "int \<Rightarrow> gostring \<Rightarrow> bool" where
  "issued n ev \<longleftrightarrow> (\<exists>k. 1 \<le> k \<and> k \<le> n \<and> ev = ''$mock'' @ itoa k)"

definition mock_inv :: "mock \<Rightarrow> bool" where
  "mock_inv m \<longleftrightarrow> 0 \<le> mk_seq m \<and> distinct (map mEvent (out_messages m))
     \<and> (\<forall>x\<in>set (out_messages m). issued (mk_seq m) (mEvent x))"

lemma out_messages_send:
  "out_messages (snd (sink_send ev m)) = out_messages m @
     (if env_delivered (mk_env m (mk_sends m)) \<and> \<not> mk_closed m then (case ev of EventMessage x \<Rightarrow> [x] | _ \<Rightarrow> []) else [])"
  by (auto simp: sink_send_def out_messages_def Let_def)

lemma sink_send_seq [simp]: "mk_seq (snd (sink_send ev m)) = mk_seq m"
  by (simp add: sink_send_def Let_def)

lemma itoa_eq_iff [simp]: "itoa i = itoa k \<longleftrightarrow> i = k"
  using itoa_inject by auto

lemma issued_mono: "issued n ev \<Longrightarrow> issued (n + 1) ev"
  by (force simp: issued_def)

lemma mock_inv_emit:
  assumes "mock_inv m" and "nextEventID m = (i, m1)" and "mEvent x = i"
  shows "mock_inv (snd (sink_send (EventMessage x) m1))"
proof -
  have m1: "m1 = m\<lparr>mk_seq := mk_seq m + 1\<rparr>" "i = ''$mock'' @ itoa (mk_seq m + 1)"
    using assms(2) by (simp_all add: nextEventID_def)
  have out: "out_messages m1 = out_messages m" by (simp add: m1 out_messages_def)
  have new: "issued (mk_seq m + 1) i" "\<not> issued (mk_seq m) i"
    using assms(1) by (auto simp: issued_def m1(2) mock_inv_def)
  then have "i \<notin> mEvent ` set (out_messages m)"
    using assms(1) by (auto simp: mock_inv_def)
  moreover have "\<forall>y\<in>set (out_messages m). issued (mk_seq m + 1) (mEvent y)"
    using assms(1) issued_mono by (auto simp: mock_inv_def)
  ultimately have add: "distinct (map mEvent (out_messages m @ [x]))"
    "\<forall>y\<in>set (out_messages m @ [x]). issued (mk_seq m + 1) (mEvent y)"
    and keep: "distinct (map mEvent (out_messages m))" "0 \<le> mk_seq m + 1"
    "\<forall>y\<in>set (out_messages m). issued (mk_seq m + 1) (mEvent y)"
    using assms(1,3) new by (simp_all add: mock_inv_def)
  have seq: "mk_seq m1 = mk_seq m + 1" by (simp add: m1(1))
  have "out_messages (snd (sink_send (EventMessage x) m1)) = out_messages m @ [x]
      \<or> out_messages (snd (sink_send (EventMessage x) m1)) = out_messages m"
    by (simp add: out_messages_send out)
  then show ?thesis
    unfolding mock_inv_def sink_send_seq seq using add keep by (elim disjE) (simp_all only:)
qed

lemma out_messages_connected [simp]:
  "out_messages (snd (sink_send (EventConnected c) m)) = out_messages m"
  by (simp add: out_messages_send)

lemma mock_inv_connected: "mock_inv m \<Longrightarrow> mock_inv (snd (sink_send (EventConnected c) m))"
  unfolding mock_inv_def sink_send_seq out_messages_connected by assumption

lemma script_step_inv:
  assumes "mock_inv m"
  shows "mock_inv (snd (script_step s m))"
proof -
  obtain i m1 where n: "nextEventID m = (i, m1)" by fastforce
  from assms mock_inv_emit [OF assms n] show ?thesis by (simp add: script_step_def Let_def n)
qed

lemma script_round_inv: "mock_inv m \<Longrightarrow> mock_inv (snd (script_round ss m))"
proof (induction ss arbitrary: m)
  case Nil
  then show ?case by simp
next
  case (Cons s ss)
  with script_step_inv [of m s] show ?case by (cases "script_step s m") simp
qed

lemma script_rounds_inv: "mock_inv m \<Longrightarrow> mock_inv (script_rounds n m)"
proof (induction n arbitrary: m)
  case 0
  then show ?case by simp
next
  case (Suc n)
  with script_round_inv [of m "mk_script m"] show ?case
    by (cases "script_round (mk_script m) m") simp
qed

lemma mock_Send_inv:
  assumes "mock_inv m"
  shows "mock_inv (snd (mock_Send r body m))"
proof -
  obtain i m1 where n: "nextEventID m = (i, m1)" by fastforce
  let ?x = "\<lparr>mRoom = r, mEvent = i, mSender = ''@me:localhost'', mDisplay = ''you'', mBody = body,
      mTS = env_now (mk_env m (mk_sends m)), mOwn = True, mKind = KindText\<rparr>"
  obtain ok m2 where s: "sink_send (EventMessage ?x) m1 = (ok, m2)" by fastforce
  have "mock_inv m2" using mock_inv_emit [OF assms n, of ?x] s by simp
  with assms show ?thesis by (simp add: mock_Send_def Let_def n s split: option.split)
qed

lemma mock_inv_New: "mock_inv (NewMock env cfg)"
  by (simp add: mock_inv_def NewMock_def out_messages_def)

text \<open>What a mock does between start and now: replays and sends, in any order.\<close>

datatype mock_action = Replay nat | Reply gostring gostring

fun mock_acts :: "mock_action list \<Rightarrow> mock \<Rightarrow> mock" where
  "mock_acts [] m = m"
| "mock_acts (Replay n # as) m = mock_acts as (script_rounds n m)"
| "mock_acts (Reply r body # as) m = mock_acts as (snd (mock_Send r body m))"

lemma mock_acts_inv: "mock_inv m \<Longrightarrow> mock_inv (mock_acts as m)"
proof (induction as arbitrary: m)
  case Nil
  then show ?case by simp
next
  case (Cons a as)
  then show ?case by (cases a) (auto simp: script_rounds_inv mock_Send_inv)
qed

section \<open>Properties\<close>

text \<open>The mock's event IDs. Whatever the script, however often it is replayed and however
  many replies are sent in between, every message it delivers has an event ID, and no two
  share one, so the store takes none of them for a duplicate of another.\<close>

theorem mock_ids_distinct:
  "distinct (map mEvent (out_messages (mock_acts as (NewMock env cfg))))
   \<and> list_all (\<lambda>x. mEvent x \<noteq> []) (out_messages (mock_acts as (NewMock env cfg)))"
proof -
  have "mock_inv (mock_acts as (NewMock env cfg))" by (rule mock_acts_inv [OF mock_inv_New])
  then show ?thesis by (auto simp: mock_inv_def issued_def list_all_iff)
qed

lemma script_first_event:
  assumes "env_slept (env 0)" and "env_delivered (env 0)"
  shows "\<exists>x. mk_out (snd (script_step s (NewMock env cfg))) = [EventMessage x]
    \<and> mEvent x = ''$mock1'' \<and> mRoom x = km_Room s \<and> mOwn x = km_Own s"
proof -
  have "char_of (bv (CHR ''1'')) = CHR ''1''" by (rule char_of_char)
  then have "itoa 1 = ''1''" by (simp add: itoa_def utoa.simps digit_def)
  with assms show ?thesis
    by (simp add: script_step_def NewMock_def nextEventID_def sink_send_def Let_def)
qed

text \<open>But a new daemon starts counting again. The first scripted message after a start
  always has the ID \<open>$mock1\<close>. With a SQLite store that kept this event from an earlier run
  (mock and sqlite are the default configuration), the message is broadcast, yet the
  room's history and unread count stay as they were.\<close>

theorem mock_restart_repeats_ids:
  assumes "env_slept (env 0)" and "env_delivered (env 0)" and "\<not> km_Own msg"
    and "sq_reliable st" and "has_event ''$mock1'' (a_log (sq_abs st) (km_Room msg))"
  shows "\<exists>x r s' st'. mk_out (snd (script_step msg (NewMock env cfg))) = [EventMessage x]
    \<and> ingest sqlite_store opts True x s st =
        ([BroadcastMessage (normalise opts x), BroadcastRoom r], s', st')
    \<and> sq_abs st' = sq_abs st \<and> rUnread r = a_unread (km_Room msg) (sq_abs st)"
proof -
  obtain x where x: "mk_out (snd (script_step msg (NewMock env cfg))) = [EventMessage x]"
    "mEvent x = ''$mock1''" "mRoom x = km_Room msg" "mOwn x = km_Own msg"
    using script_first_event [where env = env, OF assms(1,2)] by blast
  have "a_append (sq_cap st) (normalise opts x) (sq_abs st) = sq_abs st"
    using assms(5) x by (simp add: a_append_def)
  with sqr.ingest_effect [OF assms(4), where m = x and opts = opts and s = s] x assms(3)
  show ?thesis by auto
qed

definition mock_line :: mock_message where
  "mock_line = demo_message [0x68] ''1s''"

definition good_env :: "nat \<Rightarrow> mock_env" where
  "good_env = (\<lambda>_. \<lparr>env_delivered = True, env_err = None, env_now = 7, env_slept = True\<rparr>)"

definition kept_db :: sqlite where
  "kept_db = snd (sq_AppendMessage \<lparr>mRoom = demo_room, mEvent = ''$mock1'', mSender = [], mDisplay = [],
     mBody = [], mTS = 1, mOwn = False, mKind = KindText\<rparr> (OpenSQLite 2 (sq_fresh (\<lambda>_. None))))"

lemma kept_db_ok: "sq_reliable kept_db" "has_event ''$mock1'' (a_log (sq_abs kept_db) demo_room)"
proof -
  let ?m = "\<lparr>mRoom = demo_room, mEvent = ''$mock1'', mSender = [], mDisplay = [],
     mBody = [], mTS = 1, mOwn = False, mKind = KindText\<rparr>"
  obtain e db where a: "AppendMessage sqlite_store ?m (OpenSQLite 2 (sq_fresh (\<lambda>_. None))) = (e, db)"
    by fastforce
  have e: "e = None" using sqr.append_total [OF reliable_open [of 2], of ?m] a by simp
  note ok = sqr.append_ok [OF reliable_open [of 2] _ a [unfolded e]]
  have k: "kept_db = db" using a by (simp add: kept_db_def sqlite_store_def)
  show "sq_reliable kept_db" using ok k by simp
  show "has_event ''$mock1'' (a_log (sq_abs kept_db) demo_room)"
    using ok k a_append_has_event [of "sq_cap (OpenSQLite 2 (sq_fresh (\<lambda>_. None)))" ?m]
      sqr.cap_pos [OF reliable_open [of 2]] by simp
qed

theorem mock_restart_repeats_ids_witness:
  "\<exists>x r s' st'. mk_out (snd (script_step mock_line (NewMock good_env defaultMock))) = [EventMessage x]
     \<and> ingest sqlite_store plain_options True x session_New kept_db =
         ([BroadcastMessage (normalise plain_options x), BroadcastRoom r], s', st')
     \<and> sq_abs st' = sq_abs kept_db"
proof -
  have "env_slept (good_env 0)" "env_delivered (good_env 0)" "\<not> km_Own mock_line"
    "km_Room mock_line = demo_room"
    by (simp_all add: good_env_def mock_line_def demo_message_def)
  with mock_restart_repeats_ids [of good_env mock_line kept_db defaultMock plain_options session_New]
    kept_db_ok show ?thesis by auto
qed

text \<open>A reply can be lost without an error. If the event sink is closed while the command's
  context is still live, the mock's \<open>Send\<close> answers with an empty event ID and no error, so
  the frontend gets an ack for a message that nobody will ever see.\<close>

theorem mock_send_lost:
  assumes "mock_knows (cRoom cmd) tr" and "Knows (cRoom cmd) s" and "Connected s"
    and "cRoom cmd \<noteq> []" and "cBody cmd \<noteq> []"
    and "\<not> env_delivered (mk_env tr (mk_sends tr))" and "env_err (mk_env tr (mk_sends tr)) = None"
  shows "\<exists>tr'. handleSend (session_handler mock_transport S) i cmd cs (s, st, tr) =
    (send i (NewAck (cID cmd) []) cs, (s, st, tr')) \<and> mk_out tr' = mk_out tr"
  using assms
  by (simp add: handleSend_def session_handler_def Send_def mock_transport_def mock_Send_def
      nextEventID_def sink_send_def Let_def)

definition send_command :: Command where
  "send_command = \<lparr>cT = CmdSend, cID = ''4'', cProto = 0, cClient = [], cRoom = demo_room,
     cBody = ''hi'', cEvent = [], cLimit = 0\<rparr>"

theorem mock_send_lost_witness:
  "\<exists>tr'. handleSend (session_handler mock_transport memory_store) 1 send_command [1 \<mapsto> greeted_client]
       ((snd (ensureRoom demo_room ''m.chen'' session_New))\<lparr>s_connected := True\<rparr>, NewMemory 1,
        NewMock (\<lambda>_. \<lparr>env_delivered = False, env_err = None, env_now = 7, env_slept = True\<rparr>) defaultMock) =
     (send 1 (NewAck ''4'' []) [1 \<mapsto> greeted_client],
      ((snd (ensureRoom demo_room ''m.chen'' session_New))\<lparr>s_connected := True\<rparr>, NewMemory 1, tr'))"
proof -
  let ?tr = "NewMock (\<lambda>_. \<lparr>env_delivered = False, env_err = None, env_now = 7, env_slept = True\<rparr>) defaultMock"
  let ?s = "(snd (ensureRoom demo_room ''m.chen'' session_New))\<lparr>s_connected := True\<rparr>"
  have c: "cRoom send_command = demo_room" "cBody send_command = ''hi''" "cID send_command = ''4''"
    by (simp_all add: send_command_def)
  have "mock_knows demo_room ?tr" "demo_room \<noteq> []"
    by (simp_all add: mock_knows_def NewMock_def defaultMock_def demo_room_def)
  moreover have "Knows demo_room ?s" "Connected ?s"
    by (simp_all add: Knows_def Connected_def ensureRoom_def session_New_def Let_def)
  moreover have "\<not> env_delivered (mk_env ?tr (mk_sends ?tr))" "env_err (mk_env ?tr (mk_sends ?tr)) = None"
    by (simp_all add: NewMock_def)
  ultimately show ?thesis
    using mock_send_lost [of send_command ?tr ?s memory_store 1 "[1 \<mapsto> greeted_client]" "NewMemory 1"]
    by (auto simp: c)
qed

end
