(* ===== verification/Boot.thy ===== *)
theory Boot
  imports Mock
begin

text \<open>
  What \<open>main.go\<close> makes of a configuration (the store, the session's options) and what the
  configuration loader promises the rest of the daemon.
\<close>

section \<open>Definitions\<close>

datatype opened_store =
    OpenedMemory memory
  | OpenedSQLite sqlite

text \<open>The database the path names, with whatever it holds, is an argument; so is the error of
  opening it.\<close>

definition newStore ::
  "(gostring \<Rightarrow> goerr + sqlite) \<Rightarrow> os \<Rightarrow> config \<Rightarrow> goerr + opened_store" where
  "newStore open_db sys cfg =
     (if dc_Store (cfg_Daemon cfg) = ''memory''
      then Inr (OpenedMemory (NewMemory (dc_HistoryCapacity (cfg_Daemon cfg))))
      else if dc_Store (cfg_Daemon cfg) = ''sqlite''
      then (case open_db (StateDBPath sys cfg) of
              Inl err \<Rightarrow> Inl err
            | Inr db \<Rightarrow> Inr (OpenedSQLite (OpenSQLite (dc_HistoryCapacity (cfg_Daemon cfg)) db)))
      else Inl (Opaque (''unsupported store '' @ dc_Store (cfg_Daemon cfg))))"

definition sessionOptions :: "config \<Rightarrow> session_options" where
  "sessionOptions cfg =
     \<lparr>Aliases = map_of (cfg_Aliases cfg),
      SanitizeOpts = \<lparr>StripEmoji = sc_StripEmoji (cfg_Sanitize cfg), MaxBody = sc_MaxBody (cfg_Sanitize cfg)\<rparr>\<rparr>"

section \<open>Lemmas\<close>

lemma overlay_fields:
  "sc_MaxBody (cfg_Sanitize (overlay file defined)) =
     (if sc_MaxBody (cfg_Sanitize file) > 0 then sc_MaxBody (cfg_Sanitize file) else 8192)"
  "cfg_Daemon (overlay file defined) = mergeDaemon (cfg_Daemon Default) (cfg_Daemon file)"
  "cfg_Kind (overlay file defined) = set_or (cfg_Kind file) ''mock''"
  "cfg_Aliases (overlay file defined) = cfg_Aliases file"
  by (simp_all add: overlay_def merge_def Default_def Let_def set_or_def)

lemma Load_cases:
  assumes "Load Decode RF path = (c, None)"
  shows "c = Default \<or> (\<exists>file defined. c = overlay file defined)"
  using assms by (auto simp: Load_def split: if_splits sum.splits prod.splits)

lemma validate_rooms_declared:
  "validate_rooms rs d = Inr declared \<Longrightarrow> set declared = set d \<union> kr_ID ` set rs"
  by (induction rs d rule: validate_rooms.induct) (auto split: if_splits)

lemma validate_msgs_declared:
  "validate_msgs ms declared = None \<Longrightarrow> m \<in> set ms \<Longrightarrow> km_Room m \<in> set declared \<and> km_Room m \<noteq> []"
  by (induction ms declared rule: validate_msgs.induct) (auto split: if_splits)

lemma Default_valid: "Validate Default = None"
  by (simp add: Validate_def Default_def defaultMock_def demo_message_def demo_room_def)

lemma runes_replicate: "bv c < 0x80 \<Longrightarrow> runes (replicate n c) = replicate n (bv c)"
  by (induction n) (simp_all add: decode_rune_def)

lemma encode_replicate: "bv c < 0x80 \<Longrightarrow> encode_runes (replicate n (bv c)) = replicate n c"
  by (induction n) (simp_all add: encode_rune_def)

lemma Text_letters:
  assumes "int n \<le> MaxBody opts" and "0 < n"
  shows "Text (replicate n (CHR ''a'')) opts = replicate n (CHR ''a'')"
proof -
  let ?rs = "replicate n (97::rune)"
  have "runes (replicate n (CHR ''a'')) = ?rs" using runes_replicate [of "CHR ''a''" n] by simp
  moreover have "\<not> pictograph 97" using pictograph_ge [of 97] by auto
  then have "concat (map strip_runes ?rs) = ?rs" by (intro concat_strip_plain) auto
  moreover have "rune_words ?rs = [?rs]"
    using assms(2) by (intro rune_words_word) (auto simp: list_all_iff is_sep_def IsControl_def)
  ultimately have "clean_runes (replicate n (CHR ''a'')) opts = ?rs" by (simp add: clean_runes_def)
  moreover have "encode_runes ?rs = replicate n (CHR ''a'')" using encode_replicate [of "CHR ''a''" n] by simp
  moreover have "body_cap opts = MaxBody opts" using assms by (simp add: body_cap_def)
  ultimately show ?thesis using assms(1) by (simp add: Text_eq kept_runes_def take_fit_all)
qed

section \<open>Properties\<close>

text \<open>A configuration that loads without error has what the rest of the daemon needs: a
  positive body cap and history capacity, a store and a transport named, whatever the file
  says; and the configuration of a missing file is valid as it is.\<close>

theorem loaded_config_bounds:
  assumes "Load Decode RF path = (c, None)"
  shows "0 < sc_MaxBody (cfg_Sanitize c) \<and> 0 < dc_HistoryCapacity (cfg_Daemon c)
    \<and> dc_Store (cfg_Daemon c) \<noteq> [] \<and> cfg_Kind c \<noteq> [] \<and> Validate Default = None"
proof (cases "c = Default")
  case True
  then show ?thesis using Default_valid by (simp add: Default_def)
next
  case False
  with Load_cases [OF assms] obtain f defined where c: "c = overlay f defined" by blast
  show ?thesis
    unfolding c overlay_fields using Default_valid by (simp add: mergeDaemon_def set_or_def Default_def)
qed

theorem loaded_config_bounds_witness:
  "0 < sc_MaxBody (cfg_Sanitize (fst (Load (\<lambda>_. Inl (Opaque ''bad'')) (\<lambda>p. Inl (ErrNotExist p)) ''x'')))"
proof -
  have "Load (\<lambda>_. Inl (Opaque ''bad'')) (\<lambda>p. Inl (ErrNotExist p)) ''x'' = (Default, None)"
    by (simp add: Load_def is_not_exist_def)
  from loaded_config_bounds [OF this] this show ?thesis by simp
qed

text \<open>With the mock transport, a configuration that passes validation gives a daemon that
  knows the room of every scripted message before the first one arrives, so no reply to
  it is refused as \<open>unknown_room\<close>.\<close>

theorem validated_mock_rooms_known:
  assumes "Validate c = None" and "cfg_Kind c = ''mock''" and "msg \<in> set (kc_Msgs (cfg_Mock c))"
    and "Run_start mock_transport opts session_New (NewMock env (cfg_Mock c)) = (err, s, tr)"
  shows "err = None \<and> Knows (km_Room msg) s \<and> mock_knows (km_Room msg) tr"
proof -
  obtain declared where d: "validate_rooms (kc_Rooms (cfg_Mock c)) [] = Inr declared"
    "validate_msgs (kc_Msgs (cfg_Mock c)) declared = None"
    using assms(1,2) by (auto simp: Validate_def split: if_splits sum.splits)
  have "km_Room msg \<in> kr_ID ` set (kc_Rooms (cfg_Mock c))"
    using validate_rooms_declared [OF d(1)] validate_msgs_declared [OF d(2) assms(3)] by auto
  moreover have "err = None" "mk_rooms tr = mk_rooms (NewMock env (cfg_Mock c))"
    "s = register_rooms opts (mk_rooms (NewMock env (cfg_Mock c))) session_New"
    using assms(4) by (auto simp: Run_start_def mock_transport_def mock_Rooms_def mock_Start_def)
  ultimately show ?thesis
    by (auto simp: Knows_iff register_rooms_known mock_knows_def NewMock_def list_ex_iff image_image
        simp del: domIff)
qed

theorem validated_mock_rooms_known_witness:
  "\<exists>s tr. Run_start mock_transport plain_options session_New (NewMock good_env defaultMock) = (None, s, tr)
     \<and> Knows demo_room s"
proof -
  obtain err s tr where r: "Run_start mock_transport plain_options session_New
      (NewMock good_env (cfg_Mock Default)) = (err, s, tr)" by (metis prod_cases3)
  have m: "demo_message [0x665A, 0x4E0A, 0x8981, 0x5403, 0x4EC0, 0x9EBC] ''20s''
      \<in> set (kc_Msgs (cfg_Mock Default))" by (simp add: Default_def defaultMock_def)
  have "cfg_Kind Default = ''mock''" by (simp add: Default_def)
  from validated_mock_rooms_known [OF Default_valid this m r] r show ?thesis
    by (simp add: Default_def demo_message_def)
qed

lemma message_too_long:
  assumes "65536 \<le> length (mBody m)"
  shows "\<exists>err. encode (NewMessage m) = Inl err"
proof -
  have "length (mBody m) + 1 \<le> length (marshal (event_json (NewMessage m)))"
    using length_jstr [of "mBody m"]
    by (simp add: NewMessage_def message_fields_def field_defs split del: if_split)
  with assms show ?thesis by (simp add: encode_def Let_def MaxLine_def)
qed

text \<open>Validation does not bound \<open>max_body\<close>. With a valid configuration whose cap is beyond
  the line limit, a message with a body of 64 KiB or more within that cap passes the
  sanitiser whole and then reaches no frontend at all: its broadcast is dropped.\<close>

theorem large_max_body_loses_messages:
  assumes "65536 \<le> n" and "int n \<le> sc_MaxBody (cfg_Sanitize c)"
    and "mBody m = replicate n (CHR ''a'')" and "mKind m = KindText"
  shows "broadcast_line (broadcast_event (BroadcastMessage (normalise (sessionOptions c) m))) cs = cs"
proof -
  have "placeholder KindText = None" by (simp add: placeholder_def kind_defs)
  then have "mBody (normalise (sessionOptions c) m) = replicate n (CHR ''a'')"
    using Text_letters [of n "SanitizeOpts (sessionOptions c)"] assms
    by (simp add: normalise_def Let_def sanitize_Message_def sessionOptions_def kind_defs)
  with message_too_long [of "normalise (sessionOptions c) m"] assms(1)
  show ?thesis by (auto simp: broadcast_line_def)
qed

definition wide_config :: config where
  "wide_config = Default\<lparr>cfg_Sanitize := \<lparr>sc_StripEmoji = True, sc_MaxBody = 100000\<rparr>\<rparr>"

theorem large_max_body_loses_messages_witness:
  "Validate wide_config = None \<and>
   broadcast_line (broadcast_event (BroadcastMessage (normalise (sessionOptions wide_config)
     (long_message\<lparr>mBody := replicate 65536 (CHR ''a'')\<rparr>)))) [1 \<mapsto> greeted_client] = [1 \<mapsto> greeted_client]"
proof
  show "Validate wide_config = None"
    by (simp add: wide_config_def Validate_def Default_def defaultMock_def demo_message_def demo_room_def)
  show "broadcast_line (broadcast_event (BroadcastMessage (normalise (sessionOptions wide_config)
     (long_message\<lparr>mBody := replicate 65536 (CHR ''a'')\<rparr>)))) [1 \<mapsto> greeted_client] = [1 \<mapsto> greeted_client]"
    by (rule large_max_body_loses_messages) (simp_all add: wide_config_def long_message_def)
qed

text \<open>Where the access token comes from. A token the daemon accepts is never empty, and it
  is either the environment's or read from the token file while that file gives no
  permission to group or others; when it does, its contents make no difference.\<close>

theorem matrix_token_private:
  assumes "MatrixToken sys c = Inr token"
  shows "token \<noteq> [] \<and> (token = TrimSpace (Getenv sys TokenEnv)
    \<or> (\<exists>perm data. StatPerm sys (xc_TokenFile (cfg_Matrix c)) = Inr perm \<and> perm AND 0x3F = 0
         \<and> ReadFile sys (xc_TokenFile (cfg_Matrix c)) = Inr data \<and> token = TrimSpace data))"
  using assms by (auto simp: MatrixToken_def Let_def split: if_splits sum.splits)

definition token_os :: "nat \<Rightarrow> os" where
  "token_os perm =
     \<lparr>Getenv = (\<lambda>_. []), Getuid = 1000, StatPerm = (\<lambda>_. Inr perm), IsDirectory = (\<lambda>_. True),
      ReadFile = (\<lambda>_. Inr ''t''), UserHomeDir = Inr ''/home/u'', TempDir = ''/tmp''\<rparr>"

definition token_config :: config where
  "token_config = Default\<lparr>cfg_Matrix := (cfg_Matrix Default)\<lparr>xc_TokenFile := ''/t''\<rparr>\<rparr>"

theorem matrix_token_private_witness:
  "MatrixToken (token_os 0x180) token_config = Inr ''t''
   \<and> MatrixToken (token_os 0x1A4) token_config = Inl (TokenFileMode ''/t'' 0x1A4)
   \<and> (\<exists>perm data. StatPerm (token_os 0x180) ''/t'' = Inr perm \<and> perm AND 0x3F = 0
        \<and> ReadFile (token_os 0x180) ''/t'' = Inr data)"
proof -
  have trim: "TrimSpace ''t'' = ''t''" "TrimSpace [] = []"
    by (simp_all add: TrimSpace_def decode_rune_def IsSpace_def)
  have f: "xc_TokenFile (cfg_Matrix token_config) = ''/t''" by (simp add: token_config_def)
  have a: "MatrixToken (token_os 0x180) token_config = Inr ''t''"
    by (simp add: MatrixToken_def trim f) (simp add: token_os_def trim)
  have b: "MatrixToken (token_os 0x1A4) token_config = Inl (TokenFileMode ''/t'' 0x1A4)"
    by (simp add: MatrixToken_def trim f) (simp add: token_os_def trim)
  from matrix_token_private [OF a] have "TrimSpace (Getenv (token_os 0x180) TokenEnv) = ''t''
      \<or> (\<exists>perm data. StatPerm (token_os 0x180) ''/t'' = Inr perm \<and> perm AND 0x3F = 0
        \<and> ReadFile (token_os 0x180) ''/t'' = Inr data)" by (auto simp: f)
  moreover have "TrimSpace (Getenv (token_os 0x180) TokenEnv) = []" by (simp add: token_os_def trim)
  ultimately show ?thesis using a b by auto
qed

end
