(* ===== verification/Matrix.thy ===== *)
theory Matrix
  imports Boot "HOL-Library.Word"
begin

text \<open>
  \<open>internal/transport/matrix.go\<close> and \<open>matrix_session.go\<close>: what the daemon does around the
  mautrix client. The client is not under src/: what it answers to each call and what its
  sync loop reports are arguments (\<open>attempt\<close>, \<open>sync_report\<close>), in the order they happen.
  The state is the struct; \<open>mt_offered\<close> are the events handed to the event sink. The run
  loop takes the list of attempts the homeserver's answers make of it. A
  \<open>time.Duration\<close> is an int64 count of nanoseconds: \<open>twice\<close> is the doubling of the two
  backoffs, with its wrap-around.
\<close>

section \<open>Definitions\<close>

definition defaultMinBackoff :: int where "defaultMinBackoff = 2 * 10 ^ 9"
definition defaultMaxBackoff :: int where "defaultMaxBackoff = 60 * 10 ^ 9"

definition twice :: "int \<Rightarrow> int" where
  "twice d = sint (word_of_int (d * 2) :: 64 word)"

definition pickleKeySize :: nat where "pickleKeySize = 32"

record matrix_options =
  mo_Homeserver :: gostring
  mo_UserID :: gostring
  mo_DeviceID :: gostring
  mo_Token :: gostring
  mo_Encrypt :: bool
  mo_SessionDB :: gostring
  mo_PickleKeyFile :: gostring
  mo_MinBackoff :: int
  mo_MaxBackoff :: int

text \<open>The key file: its content if it exists. Reading can fail otherwise, as can making the
  directory, the random source and writing, which may leave part of a file behind.\<close>

record key_file =
  kf_content :: "gostring option"
  kf_read_err :: "goerr option"
  kf_mkdir_err :: "goerr option"
  kf_write_err :: "goerr option"
  kf_left :: "gostring option"

definition pickle_err :: "goerr \<Rightarrow> goerr" where
  "pickle_err err = Wrap ''matrix: pickle key: '' err []"

definition loadOrCreatePickleKey ::
  "goerr + gostring \<Rightarrow> gostring \<Rightarrow> key_file \<Rightarrow> (goerr + gostring) \<times> key_file" where
  "loadOrCreatePickleKey random path f =
     (if path = [] then (Inl (Opaque ''matrix: no pickle key file configured''), f)
      else case kf_read_err f of
        Some err \<Rightarrow> (Inl (pickle_err err), f)
      | None \<Rightarrow>
          (case kf_content f of
             Some key \<Rightarrow>
               if length key = pickleKeySize then (Inr key, f)
               else (Inl (Opaque (''matrix: pickle key '' @ path @ '' is '' @ itoa (int (length key))
                      @ '' bytes, expected '' @ itoa (int pickleKeySize))), f)
           | None \<Rightarrow>
               (case (if PathDir path \<noteq> [] \<and> PathDir path \<noteq> ''.'' then kf_mkdir_err f else None) of
                  Some err \<Rightarrow> (Inl (pickle_err err), f)
                | None \<Rightarrow>
                    (case random of
                       Inl err \<Rightarrow> (Inl (pickle_err err), f)
                     | Inr key \<Rightarrow>
                         (case kf_write_err f of
                            Some err \<Rightarrow> (Inl (pickle_err err), f\<lparr>kf_content := kf_left f\<rparr>)
                          | None \<Rightarrow> (Inr key, f\<lparr>kf_content := Some key\<rparr>))))))"

record matrix =
  mt_opts :: matrix_options
  mt_device :: gostring
  mt_crypto :: bool
  mt_closed :: bool
  mt_key :: key_file
  mt_sawConnected :: bool
  mt_connected :: bool
  mt_rooms :: "troom list"
  mt_syncBackoff :: int
  mt_offered :: "transport_event list"

text \<open>Opening the session database. The steps the operating system and the driver may refuse
  are arguments: making the directory, creating the file, opening the database, wrapping it.
  Nothing is kept of it but whether it failed.\<close>

definition openSessionDB ::
  "(gostring \<Rightarrow> goerr option) \<Rightarrow> (gostring \<Rightarrow> goerr option) \<Rightarrow> goerr option \<Rightarrow> goerr option
     \<Rightarrow> gostring \<Rightarrow> goerr option" where
  "openSessionDB MkdirAll OpenFile sql_Open NewWithDB path =
     (if path = [] then Some (Opaque ''matrix: no session database configured'')
      else case (if PathDir path \<noteq> [] \<and> PathDir path \<noteq> ''.'' then MkdirAll (PathDir path) else None) of
        Some err \<Rightarrow> Some (Wrap ''matrix: session dir: '' err [])
      | None \<Rightarrow>
          (case OpenFile path of
             Some err \<Rightarrow> Some (Wrap ''matrix: session db: '' err [])
           | None \<Rightarrow>
               (case sql_Open of
                  Some err \<Rightarrow> Some (Wrap ''matrix: session db: '' err [])
                | None \<Rightarrow>
                    (case NewWithDB of
                       Some err \<Rightarrow> Some (Wrap ''matrix: session db: '' err [])
                     | None \<Rightarrow> None))))"

definition newSyncStore :: "goerr option \<Rightarrow> goerr option" where
  "newSyncStore exec =
     (case exec of Some err \<Rightarrow> Some (Wrap ''matrix: sync store: '' err []) | None \<Rightarrow> None)"

text \<open>\<open>NewMatrix\<close>: the client's constructor and the two steps that open the session database
  may fail.\<close>

definition normalise_options :: "matrix_options \<Rightarrow> matrix_options" where
  "normalise_options opts =
     (let opts = (if mo_MinBackoff opts \<le> 0 then opts\<lparr>mo_MinBackoff := defaultMinBackoff\<rparr> else opts)
      in if mo_MaxBackoff opts < mo_MinBackoff opts
         then opts\<lparr>mo_MaxBackoff := max defaultMaxBackoff (mo_MinBackoff opts)\<rparr> else opts)"

definition NewMatrix ::
  "(matrix_options \<Rightarrow> goerr option) \<Rightarrow> (gostring \<Rightarrow> goerr option) \<Rightarrow> goerr option \<Rightarrow> key_file
     \<Rightarrow> matrix_options \<Rightarrow> goerr + matrix" where
  "NewMatrix NewClient open_db create_table key opts =
     (if mo_Homeserver opts = [] then Inl (Opaque ''matrix: no homeserver configured'')
      else if mo_UserID opts = [] then Inl (Opaque ''matrix: no user_id configured'')
      else if mo_Token opts = []
      then Inl (Opaque ''matrix: no access token (set $QUIETDM_TOKEN or token_file)'')
      else
        (let opts = normalise_options opts in
         case NewClient opts of
           Some err \<Rightarrow> Inl (Wrap ''matrix: '' err [])
         | None \<Rightarrow>
             (case open_db (mo_SessionDB opts) of
                Some err \<Rightarrow> Inl err
              | None \<Rightarrow>
                  (case newSyncStore create_table of
                     Some err \<Rightarrow> Inl err
                   | None \<Rightarrow>
                       Inr \<lparr>mt_opts = opts, mt_device = mo_DeviceID opts, mt_crypto = False, mt_closed = False, mt_key = key,
                            mt_sawConnected = False, mt_connected = False, mt_rooms = [],
                            mt_syncBackoff = mo_MinBackoff opts, mt_offered = []\<rparr>))))"

definition setConnected :: "bool \<Rightarrow> matrix \<Rightarrow> matrix" where
  "setConnected state m =
     (let m = (if state then m\<lparr>mt_sawConnected := True\<rparr> else m);
          changed = (mt_connected m \<noteq> state);
          m = m\<lparr>mt_connected := state\<rparr>
      in if changed then m\<lparr>mt_offered := mt_offered m @ [EventConnected state]\<rparr> else m)"

text \<open>Timeline events, with the event and message types the code tells apart.\<close>

datatype event_type = RoomMessage | Sticker

datatype msg_type = MsgText | MsgNotice | MsgEmote | MsgImage | MsgAudio | MsgVideo | MsgOther gostring

record timeline_event =
  te_room :: gostring
  te_id :: gostring
  te_sender :: gostring
  te_type :: event_type
  te_timestamp :: int
  te_content :: "(msg_type \<times> gostring) option"

definition kindOf :: "timeline_event \<Rightarrow> msg_type \<Rightarrow> gostring" where
  "kindOf evt mt =
     (if te_type evt = Sticker then KindSticker
      else case mt of
             MsgText \<Rightarrow> KindText | MsgNotice \<Rightarrow> KindText | MsgEmote \<Rightarrow> KindText
           | MsgImage \<Rightarrow> KindImage | MsgAudio \<Rightarrow> KindAudio | MsgVideo \<Rightarrow> KindAudio
           | MsgOther _ \<Rightarrow> KindOther)"

text \<open>Go's integer division truncates towards zero.\<close>

definition go_div :: "int \<Rightarrow> int \<Rightarrow> int" where
  "go_div a b = sgn a * sgn b * (\<bar>a\<bar> div \<bar>b\<bar>)"

definition onMessage :: "gostring \<Rightarrow> timeline_event \<Rightarrow> matrix \<Rightarrow> matrix" where
  "onMessage since evt m =
     (if since = [] then m
      else case te_content evt of
             None \<Rightarrow> m
           | Some (mt, body) \<Rightarrow>
               m\<lparr>mt_offered := mt_offered m @ [EventMessage
                  \<lparr>mRoom = te_room evt, mEvent = te_id evt, mSender = te_sender evt, mDisplay = [],
                   mBody = body, mTS = go_div (te_timestamp evt) 1000,
                   mOwn = (te_sender evt = mo_UserID (mt_opts m)), mKind = kindOf evt mt\<rparr>]\<rparr>)"

definition OnSync :: "matrix \<Rightarrow> matrix" where
  "OnSync m = setConnected True (m\<lparr>mt_syncBackoff := mo_MinBackoff (mt_opts m)\<rparr>)"

definition OnFailedSync :: "goerr \<Rightarrow> matrix \<Rightarrow> (goerr + int) \<times> matrix" where
  "OnFailedSync err m =
     (let m = setConnected False m in
      if is_unknown_token err then (Inl err, m)
      else (Inr (mt_syncBackoff m),
            m\<lparr>mt_syncBackoff := min (twice (mt_syncBackoff m)) (mo_MaxBackoff (mt_opts m))\<rparr>))"

text \<open>What the client's sync loop reports, one callback at a time.\<close>

datatype sync_report =
    Synced
  | SyncFailed goerr
  | Timeline gostring timeline_event

fun on_report :: "sync_report \<Rightarrow> matrix \<Rightarrow> matrix" where
  "on_report Synced m = OnSync m"
| "on_report (SyncFailed err) m = snd (OnFailedSync err m)"
| "on_report (Timeline since evt) m = onMessage since evt m"

text \<open>One pass of the run loop: the client's answers to \<open>Whoami\<close>, what the random source, the
  crypto helper's constructor and its \<open>Init\<close> answer, what the sync loop reports and returns, then whether the context has ended and whether the wait
  was sat out.\<close>

record attempt =
  at_whoami :: "goerr + gostring"
  at_random :: "goerr + gostring"
  at_helper :: "goerr option"
  at_init :: "goerr option"
  at_reports :: "sync_report list"
  at_err :: goerr
  at_cancelled :: bool
  at_slept :: bool

definition startCrypto :: "attempt \<Rightarrow> matrix \<Rightarrow> goerr option \<times> matrix" where
  "startCrypto a m =
     (case loadOrCreatePickleKey (at_random a) (mo_PickleKeyFile (mt_opts m)) (mt_key m) of
        (Inl err, f) \<Rightarrow> (Some err, m\<lparr>mt_key := f\<rparr>)
      | (Inr key, f) \<Rightarrow>
          (case at_helper a of
             Some err \<Rightarrow> (Some (Wrap ''matrix: crypto: '' err []), m\<lparr>mt_key := f\<rparr>)
           | None \<Rightarrow>
               (case at_init a of
                  Some err \<Rightarrow> (Some (Wrap ''matrix: crypto: '' err []), m\<lparr>mt_key := f\<rparr>)
                | None \<Rightarrow> (None, m\<lparr>mt_key := f, mt_crypto := True\<rparr>))))"

definition connect :: "attempt \<Rightarrow> matrix \<Rightarrow> goerr \<times> matrix" where
  "connect a m =
     (case (if mt_device m = [] then at_whoami a else Inr (mt_device m)) of
        Inl err \<Rightarrow> (Wrap ''matrix: whoami: '' err [], m)
      | Inr dev \<Rightarrow>
          (let m = m\<lparr>mt_device := dev\<rparr>
           in case (if mo_Encrypt (mt_opts m) \<and> \<not> mt_crypto m then startCrypto a m else (None, m)) of
                (Some err, m) \<Rightarrow> (err, m)
              | (None, m) \<Rightarrow> (at_err a, fold on_report (at_reports a) m)))"

fun run_loop :: "attempt list \<Rightarrow> int \<Rightarrow> matrix \<Rightarrow> int list \<times> matrix" where
  "run_loop [] backoff m = ([], m)"
| "run_loop (a # as) backoff m =
     (case connect a m of
        (err, m) \<Rightarrow>
          if at_cancelled a then ([], m)
          else
            (let m = setConnected False m in
             if is_unknown_token err then ([], m)
             else
               (let backoff = (if mt_sawConnected m then mo_MinBackoff (mt_opts m) else backoff);
                    m = m\<lparr>mt_sawConnected := False\<rparr>
                in if \<not> at_slept a then ([backoff], m)
                   else
                     (case run_loop as (min (twice backoff) (mo_MaxBackoff (mt_opts m))) m of
                        (waits, m) \<Rightarrow> (backoff # waits, m)))))"

definition matrix_run :: "attempt list \<Rightarrow> matrix \<Rightarrow> int list \<times> matrix" where
  "matrix_run as m = run_loop as (mo_MinBackoff (mt_opts m)) m"

text \<open>The methods of the transport, with the client's answer as an argument.\<close>

definition matrix_Send ::
  "(gostring \<Rightarrow> gostring \<Rightarrow> goerr + gostring) \<Rightarrow> gostring \<Rightarrow> gostring \<Rightarrow> goerr + gostring" where
  "matrix_Send SendMessageEvent roomID body =
     (case SendMessageEvent roomID body of
        Inl err \<Rightarrow> Inl (Wrap ''matrix: send: '' err []) | Inr ev \<Rightarrow> Inr ev)"

definition matrix_MarkRead ::
  "(gostring \<Rightarrow> gostring \<Rightarrow> goerr option) \<Rightarrow> gostring \<Rightarrow> gostring \<Rightarrow> goerr option" where
  "matrix_MarkRead ask roomID eventID =
     (if eventID = [] then None
      else case ask roomID eventID of
             Some err \<Rightarrow> Some (Wrap ''matrix: mark read: '' err []) | None \<Rightarrow> None)"

text \<open>The client's map of joined members comes in any order; so does the list here.\<close>

definition roomDisplay ::
  "(gostring \<Rightarrow> goerr + gostring list) \<Rightarrow> (gostring \<Rightarrow> goerr + gostring) \<Rightarrow> gostring \<Rightarrow> gostring
     \<Rightarrow> gostring" where
  "roomDisplay JoinedMembers RoomName me roomID =
     (let other = (case JoinedMembers roomID of
                     Inr members \<Rightarrow> if length members \<le> 2 then find (\<lambda>uid. uid \<noteq> me) members else None
                   | Inl err \<Rightarrow> None)
      in case other of
           Some uid \<Rightarrow> uid
         | None \<Rightarrow>
             (case RoomName roomID of
                Inr name \<Rightarrow> if name \<noteq> [] then name else roomID
              | Inl err \<Rightarrow> roomID))"

definition matrix_Rooms ::
  "goerr + gostring list \<Rightarrow> (gostring \<Rightarrow> gostring) \<Rightarrow> matrix \<Rightarrow> (goerr + troom list) \<times> matrix" where
  "matrix_Rooms JoinedRooms display m =
     (case JoinedRooms of
        Inl err \<Rightarrow> (Inr (mt_rooms m), m)
      | Inr ids \<Rightarrow>
          (let out = map (\<lambda>i. \<lparr>trID = i, trDisplay = display i\<rparr>) ids
           in (Inr out, m\<lparr>mt_rooms := out\<rparr>)))"

text \<open>\<open>Close\<close> closes the crypto helper, when there is one, and the session database, once; both are
  closed whatever the first answers, whose error wins. The sink is left to the run loop.\<close>

definition matrix_Close :: "goerr option \<Rightarrow> goerr option \<Rightarrow> matrix \<Rightarrow> goerr option \<times> matrix" where
  "matrix_Close crypto_err db_err m =
     (if mt_closed m then (None, m)
      else
        (let err = (if mt_crypto m then crypto_err else None);
             err = (if err = None then db_err else err)
         in (err, m\<lparr>mt_closed := True\<rparr>)))"

text \<open>The transport, over a client that answers as the record says; \<open>Start\<close> sets the run loop
  going and cannot fail.\<close>

record matrix_client =
  mx_Send :: "gostring \<Rightarrow> gostring \<Rightarrow> goerr + gostring"
  mx_MarkRead :: "gostring \<Rightarrow> gostring \<Rightarrow> goerr option"
  mx_JoinedRooms :: "goerr + gostring list"
  mx_JoinedMembers :: "gostring \<Rightarrow> goerr + gostring list"
  mx_RoomName :: "gostring \<Rightarrow> goerr + gostring"
  mx_CryptoClose :: "goerr option"
  mx_DBClose :: "goerr option"

definition matrix_Start :: "matrix \<Rightarrow> goerr option \<times> matrix" where
  "matrix_Start m = (None, m)"

definition matrix_transport :: "matrix_client \<Rightarrow> matrix transport" where
  "matrix_transport cli =
     \<lparr>tStart = matrix_Start, tSend = (\<lambda>r body m. (matrix_Send (mx_Send cli) r body, m)),
      tMarkRead = (\<lambda>r ev m. (matrix_MarkRead (mx_MarkRead cli) r ev, m)),
      tRooms = (\<lambda>m. matrix_Rooms (mx_JoinedRooms cli)
        (roomDisplay (mx_JoinedMembers cli) (mx_RoomName cli) (mo_UserID (mt_opts m))) m),
      tClose = matrix_Close (mx_CryptoClose cli) (mx_DBClose cli)\<rparr>"

section \<open>The sync store\<close>

text \<open>The table \<open>quietdm_sync\<close>: per user, the two columns.\<close>

datatype sync_column = FilterID | NextBatch

type_synonym sync_table = "gostring \<rightharpoonup> gostring \<times> gostring"

definition column_name :: "sync_column \<Rightarrow> gostring" where
  "column_name col = (case col of FilterID \<Rightarrow> ''filter_id'' | NextBatch \<Rightarrow> ''next_batch'')"

definition sync_set ::
  "goerr option \<Rightarrow> gostring \<Rightarrow> sync_column \<Rightarrow> gostring \<Rightarrow> sync_table \<Rightarrow> goerr option \<times> sync_table" where
  "sync_set failure user col v t =
     (case failure of
        Some err \<Rightarrow> (Some (Wrap (''matrix: save '' @ column_name col @ '': '') err []), t)
      | None \<Rightarrow>
          (let (f, n) = (case t user of None \<Rightarrow> ([], []) | Some row \<Rightarrow> row)
           in (None, t(user \<mapsto> (case col of FilterID \<Rightarrow> (v, n) | NextBatch \<Rightarrow> (f, v))))))"

definition sync_get ::
  "goerr option \<Rightarrow> gostring \<Rightarrow> sync_column \<Rightarrow> sync_table \<Rightarrow> goerr + gostring" where
  "sync_get failure user col t =
     (case failure of
        Some err \<Rightarrow> Inl (Wrap (''matrix: load '' @ column_name col @ '': '') err [])
      | None \<Rightarrow>
          (case t user of
             None \<Rightarrow> Inr []
           | Some (f, n) \<Rightarrow> Inr (case col of FilterID \<Rightarrow> f | NextBatch \<Rightarrow> n)))"

definition SaveFilterID where "SaveFilterID failure user v = sync_set failure user FilterID v"
definition SaveNextBatch where "SaveNextBatch failure user v = sync_set failure user NextBatch v"
definition LoadFilterID where "LoadFilterID failure user = sync_get failure user FilterID"
definition LoadNextBatch where "LoadNextBatch failure user = sync_get failure user NextBatch"

section \<open>The connection flag\<close>

definition flags :: "transport_event list \<Rightarrow> bool list" where
  "flags evs = concat (map (\<lambda>ev. case ev of EventConnected c \<Rightarrow> [c] | EventMessage _ \<Rightarrow> []) evs)"

fun alternates :: "bool \<Rightarrow> bool list \<Rightarrow> bool" where
  "alternates b [] \<longleftrightarrow> True"
| "alternates b (c # cs) \<longleftrightarrow> c = b \<and> alternates (\<not> b) cs"

lemma flags_append [simp]: "flags (evs @ fs) = flags evs @ flags fs"
  by (simp add: flags_def)

lemma flags_simps [simp]: "flags [] = []" "flags [EventConnected c] = [c]" "flags [EventMessage x] = []"
  by (simp_all add: flags_def)

lemma alternates_snoc:
  "alternates b (cs @ [c]) \<longleftrightarrow> alternates b cs \<and> c = (if even (length cs) then b else \<not> b)"
  by (induction cs arbitrary: b) auto

text \<open>The flags handed over so far alternate, starting with up, and the last one is the state.\<close>

definition link_inv :: "matrix \<Rightarrow> bool" where
  "link_inv m \<longleftrightarrow> alternates True (flags (mt_offered m))
     \<and> (mt_connected m \<longleftrightarrow> odd (length (flags (mt_offered m))))"

lemma setConnected_simps [simp]:
  "mt_connected (setConnected b m) = b" "mt_opts (setConnected b m) = mt_opts m"
  "mt_sawConnected (setConnected b m) = (b \<or> mt_sawConnected m)"
  "mt_crypto (setConnected b m) = mt_crypto m" "mt_device (setConnected b m) = mt_device m"
  "mt_syncBackoff (setConnected b m) = mt_syncBackoff m"
  by (simp_all add: setConnected_def Let_def)

lemma link_setConnected: "link_inv m \<Longrightarrow> link_inv (setConnected b m)"
  by (cases b) (auto simp: setConnected_def link_inv_def Let_def alternates_snoc)

lemma link_upd [simp]:
  "link_inv (m\<lparr>mt_syncBackoff := x\<rparr>) = link_inv m" "link_inv (m\<lparr>mt_device := d\<rparr>) = link_inv m"
  "link_inv (m\<lparr>mt_crypto := c\<rparr>) = link_inv m" "link_inv (m\<lparr>mt_sawConnected := s\<rparr>) = link_inv m"
  "link_inv (m\<lparr>mt_key := k\<rparr>) = link_inv m"
  by (simp_all add: link_inv_def)

lemma link_report: "link_inv m \<Longrightarrow> link_inv (on_report r m)"
proof (cases r)
  case Synced
  then show "link_inv m \<Longrightarrow> ?thesis" by (simp add: OnSync_def link_setConnected)
next
  case (SyncFailed err)
  then show "link_inv m \<Longrightarrow> ?thesis" by (simp add: OnFailedSync_def Let_def link_setConnected)
next
  case (Timeline since evt)
  then show "link_inv m \<Longrightarrow> ?thesis"
    by (auto simp: onMessage_def link_inv_def split: option.split prod.split)
qed

lemma link_reports: "link_inv m \<Longrightarrow> link_inv (fold on_report rs m)"
  by (induction rs arbitrary: m) (simp_all add: link_report)

lemma startCrypto_state:
  "startCrypto a m = (e, m') \<Longrightarrow> \<exists>k c. m' = m\<lparr>mt_key := k, mt_crypto := c\<rparr>"
  by (rule exI [of _ "mt_key m'"], rule exI [of _ "mt_crypto m'"])
    (auto simp: startCrypto_def split: prod.splits sum.splits option.splits)

lemma connect_cases:
  assumes "connect a m = (err, m')"
  obtains (failed) d k c where "m' = m\<lparr>mt_device := d, mt_key := k, mt_crypto := c\<rparr>"
  | (synced) d k c where
      "m' = fold on_report (at_reports a) (m\<lparr>mt_device := d, mt_key := k, mt_crypto := c\<rparr>)"
      "err = at_err a"
proof -
  show ?thesis
  proof (cases "if mt_device m = [] then at_whoami a else Inr (mt_device m)")
    case (Inl e)
    with assms have "m' = m\<lparr>mt_device := mt_device m, mt_key := mt_key m, mt_crypto := mt_crypto m\<rparr>"
      by (simp add: connect_def)
    then show ?thesis by (rule failed)
  next
    case (Inr d)
    let ?m = "m\<lparr>mt_device := d\<rparr>"
    obtain e m1 where s: "(if mo_Encrypt (mt_opts m) \<and> \<not> mt_crypto m then startCrypto a ?m else (None, ?m))
        = (e, m1)" by fastforce
    have "\<exists>k c. m1 = ?m\<lparr>mt_key := k, mt_crypto := c\<rparr>"
    proof (cases "mo_Encrypt (mt_opts m) \<and> \<not> mt_crypto m")
      case True
      with s have "startCrypto a ?m = (e, m1)" by simp
      then show ?thesis by (rule startCrypto_state)
    next
      case False
      with s have "m1 = ?m\<lparr>mt_key := mt_key ?m, mt_crypto := mt_crypto ?m\<rparr>" by simp
      then show ?thesis by blast
    qed
    then obtain k c where m1: "m1 = ?m\<lparr>mt_key := k, mt_crypto := c\<rparr>" by blast
    from assms Inr s have c: "(err, m') = (case e of Some x \<Rightarrow> (x, m1)
        | None \<Rightarrow> (at_err a, fold on_report (at_reports a) m1))"
      by (cases e) (simp_all add: connect_def)
    show ?thesis
    proof (cases e)
      case None
      with c m1 show ?thesis by (intro synced [where d = d and k = k and c = c]) simp_all
    next
      case (Some x)
      with c m1 show ?thesis by (intro failed [where d = d and k = k and c = c]) simp
    qed
  qed
qed

lemma link_connect: "connect a m = (err, m') \<Longrightarrow> link_inv m \<Longrightarrow> link_inv m'"
  by (erule connect_cases) (simp_all add: link_reports)

lemma link_run: "link_inv m \<Longrightarrow> link_inv (snd (run_loop as b m))"
proof (induction as arbitrary: b m)
  case Nil
  then show ?case by simp
next
  case (Cons a as)
  obtain err m1 where c: "connect a m = (err, m1)" by fastforce
  have "link_inv m1" by (rule link_connect [OF c Cons.prems])
  then have "link_inv (setConnected False m1)" by (rule link_setConnected)
  with \<open>link_inv m1\<close> c show ?case
    by (auto simp: Let_def split: prod.split intro: Cons.IH dest!: sym [of _ "run_loop _ _ _"])
      (metis Cons.IH link_upd(4) snd_conv)+
qed

section \<open>Backoff\<close>

lemma on_report_opts [simp]: "mt_opts (on_report r m) = mt_opts m"
  by (cases r) (auto simp: OnSync_def OnFailedSync_def onMessage_def Let_def split: option.split prod.split)

lemma fold_report_opts [simp]: "mt_opts (fold on_report rs m) = mt_opts m"
  by (induction rs arbitrary: m) simp_all

lemma connect_opts: "connect a m = (err, m') \<Longrightarrow> mt_opts m' = mt_opts m"
  by (erule connect_cases) simp_all

lemma normalise_options_ok:
  "0 < mo_MinBackoff (normalise_options opts)
   \<and> mo_MinBackoff (normalise_options opts) \<le> mo_MaxBackoff (normalise_options opts)"
  by (auto simp: normalise_options_def Let_def defaultMinBackoff_def)

lemma normalise_options_small:
  "mo_MinBackoff opts < 2 ^ 62 \<Longrightarrow> mo_MaxBackoff opts < 2 ^ 62 \<Longrightarrow>
     mo_MaxBackoff (normalise_options opts) < 2 ^ 62"
  by (auto simp: normalise_options_def Let_def defaultMinBackoff_def defaultMaxBackoff_def)

definition backoff_ok :: "matrix \<Rightarrow> int \<Rightarrow> bool" where
  "backoff_ok m b \<longleftrightarrow> mo_MinBackoff (mt_opts m) \<le> b \<and> b \<le> mo_MaxBackoff (mt_opts m)
     \<and> 0 < mo_MinBackoff (mt_opts m) \<and> mo_MaxBackoff (mt_opts m) < 2 ^ 62"

lemma twice_small: "0 \<le> d \<Longrightarrow> d < 2 ^ 62 \<Longrightarrow> twice d = d * 2"
  unfolding twice_def sint_sbintrunc' by (simp add: signed_take_bit_int_eq_self)

lemma twice_ok: "backoff_ok m b \<Longrightarrow> twice b = b * 2"
  by (rule twice_small) (auto simp: backoff_ok_def)

lemma backoff_double: "backoff_ok m b \<Longrightarrow> backoff_ok m (min (twice b) (mo_MaxBackoff (mt_opts m)))"
  by (frule twice_ok) (auto simp: backoff_ok_def)

lemma backoff_reset: "backoff_ok m b \<Longrightarrow> backoff_ok m (mo_MinBackoff (mt_opts m))"
  by (auto simp: backoff_ok_def)

lemma backoff_same: "mt_opts m' = mt_opts m \<Longrightarrow> backoff_ok m' b = backoff_ok m b"
  by (simp add: backoff_ok_def)

lemma run_waits: "backoff_ok m b \<Longrightarrow> list_all (backoff_ok m) (fst (run_loop as b m))"
proof (induction as arbitrary: b m)
  case Nil
  then show ?case by simp
next
  case (Cons a as)
  obtain err m1 where c: "connect a m = (err, m1)" by fastforce
  define m2 where "m2 = (setConnected False m1)\<lparr>mt_sawConnected := False\<rparr>"
  define b2 where "b2 = (if mt_sawConnected m1 then mo_MinBackoff (mt_opts m1) else b)"
  have o: "mt_opts m1 = mt_opts m" "mt_opts m2 = mt_opts m"
    using connect_opts [OF c] by (simp_all add: m2_def)
  let ?rest = "fst (run_loop as (min (twice b2) (mo_MaxBackoff (mt_opts m2))) m2)"
  have b2: "backoff_ok m b2" using Cons.prems backoff_reset by (simp add: b2_def o)
  then have "backoff_ok m2 (min (twice b2) (mo_MaxBackoff (mt_opts m2)))"
    using backoff_double [of m2 b2] by (simp add: backoff_same [OF o(2)])
  from Cons.IH [OF this] have rest: "list_all (backoff_ok m) ?rest"
    by (simp add: backoff_same [OF o(2)] list_all_iff)
  have "fst (run_loop (a # as) b m) = (if at_cancelled a \<or> is_unknown_token err then []
      else b2 # (if at_slept a then ?rest else []))"
    using c by (simp add: Let_def m2_def b2_def split: prod.split)
  with rest b2 show ?case by simp
qed

text \<open>Without a successful sync in between the waits double up to the maximum.\<close>

definition no_sync :: "attempt \<Rightarrow> bool" where
  "no_sync a \<longleftrightarrow> Synced \<notin> set (at_reports a)"

lemma saw_report: "r \<noteq> Synced \<Longrightarrow> mt_sawConnected (on_report r m) = mt_sawConnected m"
  by (cases r) (auto simp: OnFailedSync_def onMessage_def Let_def split: option.split prod.split)

lemma saw_reports: "Synced \<notin> set rs \<Longrightarrow> mt_sawConnected (fold on_report rs m) = mt_sawConnected m"
proof (induction rs arbitrary: m)
  case (Cons r rs)
  then have "r \<noteq> Synced" by auto
  with Cons show ?case by (simp add: saw_report)
qed simp

lemma saw_connect: "connect a m = (err, m') \<Longrightarrow> no_sync a \<Longrightarrow> mt_sawConnected m' = mt_sawConnected m"
  by (erule connect_cases) (simp_all add: saw_reports no_sync_def)

lemma run_doubles:
  "list_all no_sync as \<Longrightarrow> \<not> mt_sawConnected m \<Longrightarrow> backoff_ok m b \<Longrightarrow>
     k < length (fst (run_loop as b m)) \<Longrightarrow>
     fst (run_loop as b m) ! k = min (b * 2 ^ k) (mo_MaxBackoff (mt_opts m))"
proof (induction as arbitrary: b m k)
  case Nil
  then show ?case by simp
next
  case (Cons a as)
  obtain err m1 where c: "connect a m = (err, m1)" by fastforce
  define m2 where "m2 = (setConnected False m1)\<lparr>mt_sawConnected := False\<rparr>"
  let ?M = "mo_MaxBackoff (mt_opts m)" and ?b = "min (twice b) (mo_MaxBackoff (mt_opts m))"
  have o: "mt_opts m1 = mt_opts m" "mt_opts m2 = mt_opts m"
    using connect_opts [OF c] by (simp_all add: m2_def)
  have saw: "\<not> mt_sawConnected m1" using saw_connect [OF c] Cons.prems(1,2) by simp
  have bok: "backoff_ok m2 ?b"
    using backoff_double [OF Cons.prems(3)] by (simp add: backoff_same [OF o(2)])
  have res: "fst (run_loop (a # as) b m) = (if at_cancelled a \<or> is_unknown_token err then []
      else b # (if at_slept a then fst (run_loop as ?b m2) else []))"
    using c saw o by (simp add: Let_def m2_def [symmetric] split: prod.split)
  have b: "b \<le> ?M" "0 < b" "twice b = b * 2"
    using Cons.prems(3) twice_ok by (auto simp: backoff_ok_def)
  show ?case
  proof (cases k)
    case 0
    with res Cons.prems(4) b show ?thesis by (auto split: if_splits)
  next
    case (Suc j)
    with res Cons.prems(4) have at: "fst (run_loop (a # as) b m) ! k = fst (run_loop as ?b m2) ! j"
      "j < length (fst (run_loop as ?b m2))" by (auto split: if_splits)
    have "fst (run_loop as ?b m2) ! j = min (?b * 2 ^ j) (mo_MaxBackoff (mt_opts m2))"
      using Cons.prems(1) bok at(2) by (intro Cons.IH) (simp_all add: m2_def)
    also have "\<dots> = min (b * 2 ^ k) ?M"
    proof -
      have "(1::int) \<le> 2 ^ j" by simp
      then have "?M \<le> ?M * 2 ^ j" using b by (simp add: mult_le_cancel_left1)
      then show ?thesis by (simp add: o b(3) Suc min_mult_distrib_right min.assoc mult.assoc)
    qed
    finally show ?thesis using at(1) by simp
  qed
qed

end
