(* ===== verification/MatrixProps.thy ===== *)
theory MatrixProps
  imports Matrix
begin

text \<open>
  What the Matrix transport promises the session: the connection flag, the reconnect
  backoff, the messages it hands over, and the key that protects the crypto store.
\<close>

section \<open>Messages handed over\<close>

definition offered_messages :: "transport_event list \<Rightarrow> message list" where
  "offered_messages evs =
     concat (map (\<lambda>ev. case ev of EventMessage x \<Rightarrow> [x] | EventConnected _ \<Rightarrow> []) evs)"

lemma offered_append [simp]: "offered_messages (evs @ fs) = offered_messages evs @ offered_messages fs"
  by (simp add: offered_messages_def)

lemma offered_simps [simp]:
  "offered_messages [] = []" "offered_messages [EventConnected c] = []"
  "offered_messages [EventMessage x] = [x]"
  by (simp_all add: offered_messages_def)

text \<open>What a report of the sync loop adds: the timeline events that have content, of every sync
  but the first.\<close>

definition report_messages :: "gostring \<Rightarrow> sync_report \<Rightarrow> message list" where
  "report_messages me r =
     (case r of
        Timeline since evt \<Rightarrow>
          if since = [] then []
          else (case te_content evt of
                  None \<Rightarrow> []
                | Some (mt, body) \<Rightarrow>
                    [\<lparr>mRoom = te_room evt, mEvent = te_id evt, mSender = te_sender evt, mDisplay = [],
                      mBody = body, mTS = go_div (te_timestamp evt) 1000, mOwn = (te_sender evt = me),
                      mKind = kindOf evt mt\<rparr>])
      | _ \<Rightarrow> [])"

lemma offered_setConnected [simp]:
  "offered_messages (mt_offered (setConnected b m)) = offered_messages (mt_offered m)"
  by (simp add: setConnected_def Let_def)

lemma offered_report:
  "offered_messages (mt_offered (on_report r m))
     = offered_messages (mt_offered m) @ report_messages (mo_UserID (mt_opts m)) r"
  by (cases r) (auto simp: report_messages_def OnSync_def OnFailedSync_def onMessage_def Let_def
      split: option.split)

lemma offered_reports:
  "offered_messages (mt_offered (fold on_report rs m))
     = offered_messages (mt_offered m) @ concat (map (report_messages (mo_UserID (mt_opts m))) rs)"
  by (induction rs arbitrary: m) (simp_all add: offered_report)

section \<open>The session's view of the link\<close>

lemma handle_connected:
  "handle S opts bcast ev s st = (bs, s', st') \<Longrightarrow>
     s_connected s' = (case ev of EventConnected c \<Rightarrow> c | EventMessage _ \<Rightarrow> s_connected s)"
  by (cases ev) (auto dest!: ingest_session simp: touchRoom_connected)

lemma Run_events_connected:
  "Run_events S opts bcast evs s st = (bs, s', st') \<Longrightarrow>
     s_connected s' = (if flags evs = [] then s_connected s else last (flags evs))"
proof (induction evs arbitrary: s st bs)
  case Nil
  then show ?case by simp
next
  case (Cons ev evs)
  obtain b1 s1 st1 where h: "handle S opts bcast ev s st = (b1, s1, st1)" by (metis prod_cases3)
  obtain b2 where r: "Run_events S opts bcast evs s1 st1 = (b2, s', st')"
    using Cons.prems by (auto simp: h split: prod.splits)
  have "flags (ev # evs) = (case ev of EventConnected c \<Rightarrow> [c] | EventMessage _ \<Rightarrow> []) @ flags evs"
    by (simp add: flags_def)
  with Cons.IH [OF r] handle_connected [OF h] show ?case by (cases ev) auto
qed

lemma alternates_last: "alternates b cs \<Longrightarrow> cs \<noteq> [] \<Longrightarrow> last cs = (if odd (length cs) then b else \<not> b)"
  by (induction cs arbitrary: b) auto

lemma new_matrix_link: "NewMatrix client open_db store key opts = Inr m \<Longrightarrow> link_inv m"
  by (auto simp: NewMatrix_def link_inv_def Let_def split: if_splits option.splits)

section \<open>The pickle key\<close>

lemma key_load:
  "path \<noteq> [] \<Longrightarrow> kf_read_err f = None \<Longrightarrow> kf_content f = Some key \<Longrightarrow> length key = pickleKeySize \<Longrightarrow>
     loadOrCreatePickleKey random path f = (Inr key, f)"
  by (simp add: loadOrCreatePickleKey_def)

lemma key_cases:
  assumes "loadOrCreatePickleKey random path f = (Inr key, f')"
  shows "path \<noteq> [] \<and> kf_read_err f = None \<and>
    (kf_content f = Some key \<and> length key = pickleKeySize \<and> f' = f
     \<or> kf_content f = None \<and> random = Inr key \<and> f' = f\<lparr>kf_content := Some key\<rparr>)"
  using assms by (auto simp: loadOrCreatePickleKey_def split: if_splits option.splits sum.splits)

section \<open>Properties\<close>

definition plain_matrix_options :: matrix_options where
  "plain_matrix_options =
     \<lparr>mo_Homeserver = ''http://h'', mo_UserID = ''@me:h'', mo_DeviceID = ''D'', mo_Token = ''t'',
      mo_Encrypt = False, mo_SessionDB = ''/s'', mo_PickleKeyFile = ''/k'', mo_MinBackoff = 3,
      mo_MaxBackoff = 20\<rparr>"

definition no_key_file :: key_file where
  "no_key_file =
     \<lparr>kf_content = None, kf_read_err = None, kf_mkdir_err = None, kf_write_err = None, kf_left = None\<rparr>"

definition plain_matrix :: matrix where
  "plain_matrix =
     \<lparr>mt_opts = plain_matrix_options, mt_device = ''D'', mt_crypto = False, mt_closed = False, mt_key = no_key_file, mt_sawConnected = False,
      mt_connected = False, mt_rooms = [], mt_syncBackoff = 3, mt_offered = []\<rparr>"

definition failing :: "sync_report list \<Rightarrow> attempt" where
  "failing rs =
     \<lparr>at_whoami = Inr ''D'', at_random = Inl (Opaque ''x''), at_helper = None, at_init = None, at_reports = rs, at_err = Opaque ''down'',
      at_cancelled = False, at_slept = True\<rparr>"

lemma plain_matrix_New:
  "NewMatrix (\<lambda>_. None) (\<lambda>_. None) None no_key_file plain_matrix_options = Inr plain_matrix"
  by (simp add: NewMatrix_def plain_matrix_options_def plain_matrix_def normalise_options_def
      newSyncStore_def)

lemmas plain_matrix_simps = matrix_run_def plain_matrix_def plain_matrix_options_def failing_def
  connect_def OnSync_def OnFailedSync_def setConnected_def is_unknown_token_def Let_def

text \<open>C26: the connection flag the session sees. Whatever the homeserver does, attempt after
  attempt, the connection events handed to the session go up, down, up, down without
  repetition, starting with up; and a session that handles what it is handed has the
  transport's own flag as its own, so commands are refused as offline exactly while it is
  down.\<close>

theorem link_flag_alternates:
  assumes "NewMatrix client open_db store key opts = Inr m" and "matrix_run as m = (waits, m')"
    and "Run_events S sopts bcast (mt_offered m') session_New st = (bs, s', st')"
  shows "alternates True (flags (mt_offered m')) \<and> Connected s' = mt_connected m'"
proof -
  from link_run [OF new_matrix_link [OF assms(1)]] assms(2)
  have inv: "link_inv m'" by (simp add: matrix_run_def) (metis snd_conv)
  then have "alternates True (flags (mt_offered m'))"
    "mt_connected m' = odd (length (flags (mt_offered m')))" by (simp_all add: link_inv_def)
  with Run_events_connected [OF assms(3)] alternates_last show ?thesis
    by (auto simp: Connected_def session_New_def)
qed

theorem link_flag_alternates_witness:
  "flags (mt_offered (snd (matrix_run [failing [Synced, SyncFailed (Opaque ''x'')], failing [Synced]]
      plain_matrix))) = [True, False, True, False]
   \<and> alternates True (flags (mt_offered (snd (matrix_run
       [failing [Synced, SyncFailed (Opaque ''x'')], failing [Synced]] plain_matrix))))"
proof -
  let ?as = "[failing [Synced, SyncFailed (Opaque ''x'')], failing [Synced]]"
  obtain bs s' st' where r: "Run_events memory_store plain_options True
      (mt_offered (snd (matrix_run ?as plain_matrix))) session_New (NewMemory 1) = (bs, s', st')"
    by (metis prod_cases3)
  have e: "flags (mt_offered (snd (matrix_run ?as plain_matrix))) = [True, False, True, False]"
    by (simp add: plain_matrix_simps flags_def twice_small)
  show ?thesis
    using e link_flag_alternates [OF plain_matrix_New prod.collapse [symmetric] r] by simp
qed

text \<open>C25: the reconnect backoff. However the attempts go, the daemon never waits less than
  \<open>MinBackoff\<close> nor more than \<open>MaxBackoff\<close> before the next one, and as long as no sync
  succeeds the k-th wait is \<open>MinBackoff\<close> doubled k times, cut at the maximum.\<close>

theorem backoff_schedule:
  assumes "NewMatrix client open_db store key opts = Inr m" and "matrix_run as m = (waits, m')"
    and "mo_MinBackoff opts < 2 ^ 62" and "mo_MaxBackoff opts < 2 ^ 62"
  shows "list_all (\<lambda>w. 0 < w \<and> mo_MinBackoff (mt_opts m) \<le> w \<and> w \<le> mo_MaxBackoff (mt_opts m)) waits
    \<and> (list_all no_sync as \<longrightarrow> (\<forall>k<length waits.
         waits ! k = min (mo_MinBackoff (mt_opts m) * 2 ^ k) (mo_MaxBackoff (mt_opts m))))"
proof -
  have m: "mt_opts m = normalise_options opts" "\<not> mt_sawConnected m"
    using assms(1) by (auto simp: NewMatrix_def Let_def split: if_splits option.splits)
  have b: "backoff_ok m (mo_MinBackoff (mt_opts m))"
    using normalise_options_ok [of opts] normalise_options_small [OF assms(3,4)]
    by (simp add: backoff_ok_def m(1))
  have w: "waits = fst (run_loop as (mo_MinBackoff (mt_opts m)) m)"
    using assms(2) by (simp add: matrix_run_def)
  from run_waits [OF b, of as] have "list_all (\<lambda>w. 0 < w \<and> mo_MinBackoff (mt_opts m) \<le> w
      \<and> w \<le> mo_MaxBackoff (mt_opts m)) waits"
    by (auto simp: w backoff_ok_def list_all_iff)
  with run_doubles [OF _ m(2) b, of as] show ?thesis by (simp add: w)
qed

theorem backoff_schedule_witness:
  "fst (matrix_run [failing [], failing [], failing [], failing []] plain_matrix) = [3, 6, 12, 20]
   \<and> fst (matrix_run [failing [], failing [], failing [], failing []] plain_matrix) ! 3 = min (3 * 2 ^ 3) 20"
proof -
  let ?as = "[failing [], failing [], failing [], failing []]"
  have e: "fst (matrix_run ?as plain_matrix) = [3, 6, 12, 20]"
    by (simp add: plain_matrix_simps twice_small)
  have n: "list_all no_sync ?as" by (simp add: no_sync_def failing_def)
  have o: "mo_MinBackoff plain_matrix_options = 3" "mo_MaxBackoff plain_matrix_options = 20"
    "mt_opts plain_matrix = plain_matrix_options"
    by (simp_all add: plain_matrix_options_def plain_matrix_def)
  from backoff_schedule [OF plain_matrix_New prod.collapse [symmetric], of ?as] n e
  have "fst (matrix_run ?as plain_matrix) ! 3 = min (3 * 2 ^ 3) 20" by (simp add: o)
  with e show ?thesis by blast
qed

text \<open>C27: what a Matrix event becomes. An event of any sync but the first is handed over once,
  with its room, its id, its sender and its time in whole seconds, marked as the user's own
  exactly when the user sent it; and what the session makes of its body is the sanitised
  text of a text message, and for anything else (an image, a sticker, a file) the
  placeholder of its kind, so that no caption or file name gets through.\<close>

theorem matrix_message_faithful:
  assumes "since \<noteq> []" and "te_content evt = Some (mt, body)"
  shows "\<exists>x. mt_offered (onMessage since evt m) = mt_offered m @ [EventMessage x]
    \<and> mRoom x = te_room evt \<and> mEvent x = te_id evt \<and> mSender x = te_sender evt
    \<and> mOwn x = (te_sender evt = mo_UserID (mt_opts m))
    \<and> \<bar>mTS x\<bar> * 1000 \<le> \<bar>te_timestamp evt\<bar> \<and> \<bar>te_timestamp evt\<bar> < \<bar>mTS x\<bar> * 1000 + 1000
    \<and> (if te_type evt = RoomMessage \<and> mt \<in> {MsgText, MsgNotice, MsgEmote}
       then mBody (normalise sopts x) = Text body (SanitizeOpts sopts)
       else Some (mBody (normalise sopts x)) = placeholder (kindOf evt mt))"
proof -
  let ?x = "\<lparr>mRoom = te_room evt, mEvent = te_id evt, mSender = te_sender evt, mDisplay = [],
    mBody = body, mTS = go_div (te_timestamp evt) 1000,
    mOwn = (te_sender evt = mo_UserID (mt_opts m)), mKind = kindOf evt mt\<rparr>"
  have off: "mt_offered (onMessage since evt m) = mt_offered m @ [EventMessage ?x]"
    using assms by (simp add: onMessage_def)
  have ts: "\<bar>go_div t 1000\<bar> = \<bar>t\<bar> div 1000" for t
    by (simp add: go_div_def abs_mult sgn_if)
  have body: "if te_type evt = RoomMessage \<and> mt \<in> {MsgText, MsgNotice, MsgEmote}
      then mBody (normalise sopts ?x) = Text body (SanitizeOpts sopts)
      else Some (mBody (normalise sopts ?x)) = placeholder (kindOf evt mt)"
    by (cases "te_type evt"; cases mt)
      (simp_all add: normalise_def sanitize_Message_def kindOf_def placeholder_def kind_defs)
  show ?thesis
    by (rule exI [of _ ?x]) (use off body in \<open>simp add: ts\<close>, linarith)
qed

definition holiday_photo :: timeline_event where
  "holiday_photo =
     \<lparr>te_room = ''!r:h'', te_id = ''$1'', te_sender = ''@mia:h'', te_type = RoomMessage,
      te_timestamp = 1700000000999, te_content = Some (MsgImage, ''IMG_secret.jpg'')\<rparr>"

theorem matrix_message_faithful_witness:
  "\<exists>x. mt_offered (onMessage ''s1'' holiday_photo plain_matrix) = [EventMessage x]
     \<and> \<bar>mTS x\<bar> = 1700000000 \<and> \<not> mOwn x
     \<and> Some (mBody (normalise plain_options x)) = placeholder KindImage"
proof -
  have c: "te_content holiday_photo = Some (MsgImage, ''IMG_secret.jpg'')"
    and k: "kindOf holiday_photo MsgImage = KindImage" and n: "mt_offered plain_matrix = []"
    and o: "te_sender holiday_photo \<noteq> mo_UserID (mt_opts plain_matrix)"
    and t: "te_timestamp holiday_photo = 1700000000999"
    by (simp_all add: holiday_photo_def kindOf_def plain_matrix_def plain_matrix_options_def)
  have s: "''s1'' \<noteq> ([] :: gostring)" by simp
  from matrix_message_faithful [OF s c, of plain_matrix plain_options]
  obtain x where x: "mt_offered (onMessage ''s1'' holiday_photo plain_matrix) = [EventMessage x]"
    "\<not> mOwn x" "\<bar>mTS x\<bar> * 1000 \<le> 1700000000999" "1700000000999 < \<bar>mTS x\<bar> * 1000 + 1000"
    "Some (mBody (normalise plain_options x)) = placeholder KindImage"
    using o by (auto simp: n k t)
  have "\<bar>mTS x\<bar> = 1700000000" using x(3,4) by linarith
  with x show ?thesis by blast
qed

text \<open>C28: the key of the crypto store is made once and kept. A key that is returned has 32 bytes,
  is the content of the key file, and is what every later start gets; a key file that
  exists is never written to, whether loading it works or not.\<close>

theorem pickle_key_stable:
  assumes "loadOrCreatePickleKey random path f = (r, f')"
    and "\<And>k. random = Inr k \<Longrightarrow> length k = pickleKeySize"
  shows "(kf_content f \<noteq> None \<longrightarrow> f' = f)
    \<and> (case r of Inl err \<Rightarrow> True
       | Inr key \<Rightarrow> length key = 32 \<and> kf_content f' = Some key
           \<and> (\<forall>random2. loadOrCreatePickleKey random2 path f' = (Inr key, f')))"
proof (cases r)
  case (Inl err)
  with assms(1) show ?thesis
    by (auto simp: loadOrCreatePickleKey_def split: if_splits option.splits sum.splits)
next
  case (Inr key)
  with key_cases [of random path f key f'] assms
  have k: "path \<noteq> []" "kf_read_err f' = None" "kf_content f' = Some key" "length key = pickleKeySize"
    "kf_content f \<noteq> None \<longrightarrow> f' = f" by auto
  from key_load [OF k(1-4)] k show ?thesis by (simp add: Inr pickleKeySize_def)
qed

theorem pickle_key_stable_witness:
  "\<exists>f'. loadOrCreatePickleKey (Inr (replicate 32 (CHR ''k''))) ''/k'' no_key_file
       = (Inr (replicate 32 (CHR ''k'')), f')
     \<and> loadOrCreatePickleKey (Inl (Opaque ''no entropy'')) ''/k'' f' = (Inr (replicate 32 (CHR ''k'')), f')"
proof -
  let ?f = "no_key_file\<lparr>kf_content := Some (replicate 32 (CHR ''k''))\<rparr>"
  have a: "loadOrCreatePickleKey (Inr (replicate 32 (CHR ''k''))) ''/k'' no_key_file
      = (Inr (replicate 32 (CHR ''k'')), ?f)"
    by (simp add: loadOrCreatePickleKey_def no_key_file_def)
  have "length k = pickleKeySize" if "(Inr (replicate 32 (CHR ''k'')) :: goerr + gostring) = Inr k" for k
    using that by (auto simp: pickleKeySize_def)
  from pickle_key_stable [OF a this] a show ?thesis by auto
qed

text \<open>A failed write of the key file is permanent. If writing the fresh key fails halfway
  (a full disk) and leaves part of it behind, that start fails, and so does every later
  one, with the same key file: nothing ever repairs or removes it.\<close>

theorem short_pickle_key_blocks:
  assumes "path \<noteq> []" and "kf_read_err f = None" and "kf_content f = None"
    and "kf_mkdir_err f = None" and "random = Inr key" and "kf_write_err f = Some e"
    and "kf_left f = Some part" and "length part < pickleKeySize"
  shows "\<exists>f'. loadOrCreatePickleKey random path f = (Inl (pickle_err e), f')
    \<and> (\<forall>random2. \<exists>err. loadOrCreatePickleKey random2 path f' = (Inl err, f'))"
  using assms by (auto simp: loadOrCreatePickleKey_def)

theorem short_pickle_key_blocks_witness:
  "\<exists>f'. loadOrCreatePickleKey (Inr (replicate 32 (CHR ''k''))) ''/k''
       (no_key_file\<lparr>kf_write_err := Some (Opaque ''no space''), kf_left := Some []\<rparr>)
       = (Inl (pickle_err (Opaque ''no space'')), f')
     \<and> (\<exists>err. loadOrCreatePickleKey (Inr (replicate 32 (CHR ''k''))) ''/k'' f' = (Inl err, f'))"
proof -
  let ?f = "no_key_file\<lparr>kf_write_err := Some (Opaque ''no space''), kf_left := Some []\<rparr>"
  have f: "kf_read_err ?f = None" "kf_content ?f = None" "kf_mkdir_err ?f = None"
    "kf_write_err ?f = Some (Opaque ''no space'')" "kf_left ?f = Some []"
    by (simp_all add: no_key_file_def)
  have p: "''/k'' \<noteq> ([] :: gostring)" "length ([] :: gostring) < pickleKeySize"
    by (simp_all add: pickleKeySize_def)
  from short_pickle_key_blocks [OF p(1) f(1-3) refl f(4,5) p(2)] show ?thesis by blast
qed

end
