(* ===== verification/Listener.thy ===== *)
theory Listener
  imports Server GoStd
begin

text \<open>
  \<open>internal/ipc/server.go\<close>: the server's socket, from \<open>Listen\<close> to \<open>Close\<close>. The state is the
  struct with what is on the file system at its path: nothing, a socket (somebody may be
  listening on it) with its permission bits, or any other file with its content. The calls
  the operating system may refuse are the fields of \<open>sock_env\<close>; a dial can fail although
  somebody listens.
\<close>

section \<open>Definitions\<close>

datatype sock_file =
    NoFile
  | SockFile bool nat
  | OtherFile gostring

datatype sock_dir =
    NoDir
  | Dir nat

record sock_env =
  se_stat_dir :: "goerr option"
  se_mkdir :: "goerr option"
  se_chmod_dir :: "goerr option"
  se_stat :: "goerr option"
  se_dial :: "goerr option"
  se_remove :: "goerr option"
  se_listen :: "goerr option"
  se_chmod :: "goerr option"
  se_umask_mode :: nat

record server =
  sv_path :: gostring
  sv_dir :: sock_dir
  sv_file :: sock_file
  sv_ln :: "bool option"
  sv_clients :: clients
  sv_closed :: bool

definition NewServer :: "gostring \<Rightarrow> sock_dir \<Rightarrow> sock_file \<Rightarrow> server" where
  "NewServer path d f =
     \<lparr>sv_path = path, sv_dir = d, sv_file = f, sv_ln = None, sv_clients = Map.empty,
      sv_closed = False\<rparr>"

definition Stat :: "goerr option \<Rightarrow> bool \<Rightarrow> goerr option" where
  "Stat failure there =
     (case failure of
        Some err \<Rightarrow> Some err
      | None \<Rightarrow> if there then None else Some (ErrNotExist ''no such file or directory''))"

text \<open>Whether a dial of the path connects.\<close>

definition answers :: "sock_env \<Rightarrow> sock_file \<Rightarrow> bool" where
  "answers e f \<longleftrightarrow> se_dial e = None \<and> (case f of SockFile live _ \<Rightarrow> live | _ \<Rightarrow> False)"

definition clearStale :: "sock_env \<Rightarrow> server \<Rightarrow> goerr option \<times> server" where
  "clearStale e s =
     (case Stat (se_stat e) (sv_file s \<noteq> NoFile) of
        Some err \<Rightarrow>
          if is_not_exist err then (None, s) else (Some (Wrap ''stat socket: '' err []), s)
      | None \<Rightarrow>
          if answers e (sv_file s)
          then (Some (Opaque (''another quietdmd is already listening on '' @ sv_path s)), s)
          else (case se_remove e of
                  Some err \<Rightarrow> (Some (Wrap ''remove stale socket: '' err []), s)
                | None \<Rightarrow> (None, s\<lparr>sv_file := NoFile\<rparr>)))"

definition ensureDir :: "sock_env \<Rightarrow> server \<Rightarrow> goerr option \<times> server" where
  "ensureDir e s =
     (case Stat (se_stat_dir e) (sv_dir s \<noteq> NoDir) of
        None \<Rightarrow> (None, s)
      | Some err \<Rightarrow>
          if \<not> is_not_exist err then (Some (Wrap ''stat socket dir: '' err []), s)
          else (case se_mkdir e of
                  Some err \<Rightarrow> (Some (Wrap ''create socket dir: '' err []), s)
                | None \<Rightarrow>
                    (let s = s\<lparr>sv_dir := Dir (se_umask_mode e)\<rparr>
                     in case se_chmod_dir e of
                          Some err \<Rightarrow> (Some (Wrap ''chmod socket dir: '' err []), s)
                        | None \<Rightarrow> (None, s\<lparr>sv_dir := Dir 0x1C0\<rparr>))))"

text \<open>\<open>net.Listen\<close> binds the path, which must be free, and makes the socket file; closing the
  listener removes it. The modes are octal 0700 and 0600.\<close>

definition net_Listen :: "sock_env \<Rightarrow> server \<Rightarrow> goerr option \<times> server" where
  "net_Listen e s =
     (case se_listen e of
        Some err \<Rightarrow> (Some err, s)
      | None \<Rightarrow>
          if sv_file s \<noteq> NoFile then (Some (Opaque ''bind: address already in use''), s)
          else (None, s\<lparr>sv_file := SockFile True (se_umask_mode e)\<rparr>))"

definition Listen :: "sock_env \<Rightarrow> server \<Rightarrow> goerr option \<times> server" where
  "Listen e s =
     (case ensureDir e s of
        (Some err, s) \<Rightarrow> (Some err, s)
      | (None, s) \<Rightarrow>
          (case clearStale e s of
             (Some err, s) \<Rightarrow> (Some err, s)
           | (None, s) \<Rightarrow>
               (case net_Listen e s of
                  (Some err, s) \<Rightarrow> (Some (Wrap ''listen: '' err []), s)
                | (None, s) \<Rightarrow>
                    (case se_chmod e of
                       Some err \<Rightarrow> (Some (Wrap ''chmod socket: '' err []), s\<lparr>sv_file := NoFile\<rparr>)
                     | None \<Rightarrow> (None, s\<lparr>sv_file := SockFile True 0x180, sv_ln := Some True\<rparr>)))))"

definition add_client :: "nat \<Rightarrow> server \<Rightarrow> server" where
  "add_client i s = s\<lparr>sv_clients := (sv_clients s)(i \<mapsto> newClient)\<rparr>"

definition remove_client :: "nat \<Rightarrow> server \<Rightarrow> server" where
  "remove_client i s = s\<lparr>sv_clients := (sv_clients s)(i := None)\<rparr>"

text \<open>\<open>Serve\<close>: each \<open>Accept\<close> gives a new connection (numbered) or an error; \<open>ended\<close> is whether
  the context is done by then. The listener is nil before \<open>Listen\<close>.\<close>

fun accept_loop :: "(goerr + nat) list \<Rightarrow> bool \<Rightarrow> server \<Rightarrow> goerr option \<times> server" where
  "accept_loop [] ended s = (None, s)"
| "accept_loop (Inl err # rs) ended s = ((if sv_closed s \<or> ended then None else Some err), s)"
| "accept_loop (Inr i # rs) ended s = accept_loop rs ended (add_client i s)"

definition Serve :: "(goerr + nat) list \<Rightarrow> bool \<Rightarrow> server \<Rightarrow> goerr option \<times> server" where
  "Serve rs ended s =
     (if sv_ln s = None then (Some (Opaque ''ipc: Listen must be called before Serve''), s)
      else accept_loop rs ended s)"

text \<open>\<open>Close\<close> also answers with the clients it closed, as it left them. The second removal of
  the file does nothing when the listener has removed it, or deletes what is at the path.\<close>

definition server_Close :: "server \<Rightarrow> (nat \<rightharpoonup> client) \<times> server" where
  "server_Close s =
     (if sv_closed s then (Map.empty, s)
      else (map_option close_client \<circ> sv_clients s,
            s\<lparr>sv_closed := True, sv_clients := Map.empty, sv_ln := map_option (\<lambda>_. False) (sv_ln s), sv_file := NoFile\<rparr>))"

section \<open>Lemmas\<close>

lemma Stat_cases:
  "Stat failure there = None \<longleftrightarrow> failure = None \<and> there"
  "Stat failure there = Some err \<longleftrightarrow>
     failure = Some err \<or> failure = None \<and> \<not> there \<and> err = ErrNotExist ''no such file or directory''"
  by (auto simp: Stat_def split: option.split)

lemma ensureDir_cases:
  assumes "ensureDir e s = (r, s')"
  obtains (kept) "s' = s" "r = None \<longrightarrow> sv_dir s \<noteq> NoDir"
  | (made) mode where "s' = s\<lparr>sv_dir := Dir mode\<rparr>" "r = None \<longrightarrow> mode = 0x1C0"
proof (cases "Stat (se_stat_dir e) (sv_dir s \<noteq> NoDir)")
  case None
  with assms have "s' = s" "sv_dir s \<noteq> NoDir" by (simp_all add: ensureDir_def Stat_cases)
  then show ?thesis by (intro kept) simp_all
next
  case stat: (Some err)
  show ?thesis
  proof (cases "is_not_exist err \<and> se_mkdir e = None")
    case False
    with assms stat have "s' = s" "r \<noteq> None" by (auto simp: ensureDir_def split: if_splits option.splits)
    then show ?thesis by (intro kept) auto
  next
    case True
    show ?thesis
    proof (cases "se_chmod_dir e")
      case None
      with True assms stat have "s' = s\<lparr>sv_dir := Dir 0x1C0\<rparr>" by (simp add: ensureDir_def)
      then show ?thesis by (rule made) simp
    next
      case (Some err2)
      with True assms stat have "s' = s\<lparr>sv_dir := Dir (se_umask_mode e)\<rparr>" "r \<noteq> None"
        by (auto simp: ensureDir_def)
      then show ?thesis by (intro made) auto
    qed
  qed
qed

lemma ensureDir_frame:
  "ensureDir e s = (r, s') \<Longrightarrow> sv_file s' = sv_file s
     \<and> (r = None \<longrightarrow> sv_dir s' = sv_dir s \<and> sv_dir s \<noteq> NoDir \<or> sv_dir s' = Dir 0x1C0)"
  by (erule ensureDir_cases) simp_all

lemma clearStale_cases:
  assumes "clearStale e s = (r, s')"
  obtains (absent) "r = None" "s' = s" "sv_file s = NoFile \<or> se_stat e \<noteq> None"
  | (refused) "r \<noteq> None" "s' = s"
  | (removed) "\<not> answers e (sv_file s)" "r = None" "s' = s\<lparr>sv_file := NoFile\<rparr>"
proof (cases "Stat (se_stat e) (sv_file s \<noteq> NoFile)")
  case stat: (Some err)
  with Stat_cases(2) have "sv_file s = NoFile \<or> se_stat e \<noteq> None" by blast
  with assms stat show ?thesis
    by (cases "is_not_exist err") (auto simp: clearStale_def intro: absent refused)
next
  case None
  show ?thesis
  proof (cases "answers e (sv_file s) \<or> se_remove e \<noteq> None")
    case True
    with assms None have "r \<noteq> None" "s' = s"
      by (auto simp: clearStale_def split: if_splits option.splits)
    then show ?thesis by (rule refused)
  next
    case False
    with assms None have "r = None" "s' = s\<lparr>sv_file := NoFile\<rparr>" by (simp_all add: clearStale_def)
    with False show ?thesis by (intro removed) simp_all
  qed
qed

lemma clearStale_answers:
  "answers e (sv_file s) \<Longrightarrow> se_stat e = None \<Longrightarrow>
     clearStale e s = (Some (Opaque (''another quietdmd is already listening on '' @ sv_path s)), s)"
  by (auto simp: clearStale_def Stat_def answers_def split: sock_file.splits)

lemma net_Listen_ok:
  "net_Listen e s = (None, s') \<Longrightarrow>
     sv_file s = NoFile \<and> s' = s\<lparr>sv_file := SockFile True (se_umask_mode e)\<rparr>"
  by (auto simp: net_Listen_def split: option.splits if_splits)

lemma Listen_ok:
  assumes "Listen e s = (None, s')"
  obtains s1 s2 where "ensureDir e s = (None, s1)" "clearStale e s1 = (None, s2)" "sv_file s2 = NoFile"
    "s' = s2\<lparr>sv_file := SockFile True 0x180, sv_ln := Some True\<rparr>"
  using assms
  by (auto simp: Listen_def split: prod.splits option.splits dest!: net_Listen_ok)

lemma Listen_open: "Listen e s = (None, s') \<Longrightarrow> sv_closed s' = sv_closed s"
proof (elim Listen_ok)
  fix s1 s2
  assume "ensureDir e s = (None, s1)" and c: "clearStale e s1 = (None, s2)"
    and s': "s' = s2\<lparr>sv_file := SockFile True 0x180, sv_ln := Some True\<rparr>"
  then have "sv_closed s1 = sv_closed s" by (elim ensureDir_cases) simp_all
  moreover from c have "sv_closed s2 = sv_closed s1" by (rule clearStale_cases) simp_all
  ultimately show ?thesis by (simp add: s')
qed

section \<open>Properties\<close>

lemma listen_contract:
  assumes "Listen e s = (r, s')" and "se_stat e = None"
  shows "(r = None \<longrightarrow> \<not> answers e (sv_file s) \<and> sv_file s' = SockFile True 0x180 \<and> sv_ln s' = Some True
           \<and> (sv_dir s' = sv_dir s \<or> sv_dir s' = Dir 0x1C0))
    \<and> (answers e (sv_file s) \<longrightarrow> r \<noteq> None \<and> sv_file s' = sv_file s)"
proof -
  have refuse: "r \<noteq> None \<and> sv_file s' = sv_file s" if a: "answers e (sv_file s)"
  proof -
    obtain r1 s1 where d: "ensureDir e s = (r1, s1)" by fastforce
    from ensureDir_frame [OF d] have f: "sv_file s1 = sv_file s" by blast
    show ?thesis
    proof (cases r1)
      case (Some err)
      with assms(1) d f show ?thesis by (auto simp: Listen_def)
    next
      case None
      with assms(1) d f clearStale_answers [of e s1] a assms(2) show ?thesis
        by (auto simp: Listen_def)
    qed
  qed
  have ok: "sv_file s' = SockFile True 0x180 \<and> sv_ln s' = Some True
      \<and> (sv_dir s' = sv_dir s \<or> sv_dir s' = Dir 0x1C0)" if n: "r = None"
  proof -
    from assms(1) n have "Listen e s = (None, s')" by simp
    then obtain s1 s2 where 1: "ensureDir e s = (None, s1)" "clearStale e s1 = (None, s2)"
      "s' = s2\<lparr>sv_file := SockFile True 0x180, sv_ln := Some True\<rparr>" by (rule Listen_ok)
    have "sv_dir s2 = sv_dir s1" using 1(2) by (rule clearStale_cases) auto
    with ensureDir_frame [OF 1(1)] 1(3) show ?thesis by auto
  qed
  from refuse ok show ?thesis by blast
qed

text \<open>The socket is taken over only from the dead, and is private. When \<open>Listen\<close> succeeds
  nobody answered at the path before, the server listens on a socket of mode 0600, and the
  directory is the one that was there, untouched, or a new one of mode 0700; and a daemon
  that is answering keeps its socket and makes every other start fail.\<close>

theorem listen_private_and_exclusive:
  assumes "Listen e s = (r, s')" and "se_stat e = None"
  shows "(r = None \<longrightarrow> \<not> answers e (sv_file s) \<and> sv_file s' = SockFile True 0x180 \<and> sv_ln s' = Some True
           \<and> (sv_dir s' = sv_dir s \<or> sv_dir s' = Dir 0x1C0))
    \<and> (answers e (sv_file s) \<longrightarrow> r \<noteq> None \<and> sv_file s' = sv_file s)"
  by (rule listen_contract [OF assms])

definition calm :: sock_env where
  "calm =
     \<lparr>se_stat_dir = None, se_mkdir = None, se_chmod_dir = None, se_stat = None, se_dial = None,
      se_remove = None, se_listen = None, se_chmod = None, se_umask_mode = 0x1ED\<rparr>"

theorem listen_private_and_exclusive_witness:
  "\<exists>s'. Listen calm (NewServer ''/run/q/sock'' NoDir (SockFile False 0x180)) = (None, s')
     \<and> sv_file s' = SockFile True 0x180 \<and> sv_dir s' = Dir 0x1C0
     \<and> fst (Listen calm s') \<noteq> None"
proof -
  let ?s = "NewServer ''/run/q/sock'' NoDir (SockFile False 0x180)"
  let ?t = "?s\<lparr>sv_dir := Dir 0x1C0, sv_file := SockFile True 0x180, sv_ln := Some True\<rparr>"
  have l: "Listen calm ?s = (None, ?t)"
    by (simp add: Listen_def ensureDir_def clearStale_def net_Listen_def Stat_def answers_def calm_def
        NewServer_def is_not_exist_def)
  have st: "se_stat calm = None" by (simp add: calm_def)
  have "answers calm (sv_file ?t)" by (simp add: answers_def calm_def)
  with listen_private_and_exclusive [OF prod.collapse [symmetric] st, of ?t] have "fst (Listen calm ?t) \<noteq> None"
    by blast
  with l listen_private_and_exclusive [OF l st] show ?thesis by auto
qed

text \<open>Any file at the socket path counts as a stale socket. With a path that names an
  ordinary file, or a socket whose owner does not answer the dial in time, \<open>Listen\<close>
  deletes it and succeeds.\<close>

theorem listen_deletes_any_file:
  assumes "sv_file s \<noteq> NoFile" and "\<not> answers e (sv_file s)" and "sv_dir s = Dir mode"
    and "se_stat_dir e = None" and "se_stat e = None" and "se_remove e = None"
    and "se_listen e = None" and "se_chmod e = None"
  shows "Listen e s = (None, s\<lparr>sv_file := SockFile True 0x180, sv_ln := Some True\<rparr>)"
  using assms by (simp add: Listen_def ensureDir_def clearStale_def net_Listen_def Stat_def)

theorem listen_deletes_any_file_witness:
  "sv_file (snd (Listen calm (NewServer ''/home/u/notes'' (Dir 0x1ED) (OtherFile ''thesis''))))
     = SockFile True 0x180
   \<and> sv_file (snd (Listen (calm\<lparr>se_dial := Some DeadlineExceeded\<rparr>)
       (NewServer ''/run/q/sock'' (Dir 0x1C0) (SockFile True 0x180)))) = SockFile True 0x180"
proof -
  let ?s = "NewServer ''/home/u/notes'' (Dir 0x1ED) (OtherFile ''thesis'')"
  let ?t = "NewServer ''/run/q/sock'' (Dir 0x1C0) (SockFile True 0x180)"
  let ?e = "calm\<lparr>se_dial := Some DeadlineExceeded\<rparr>"
  have "Listen calm ?s = (None, ?s\<lparr>sv_file := SockFile True 0x180, sv_ln := Some True\<rparr>)"
    by (rule listen_deletes_any_file [where mode = "0x1ED"]) (simp_all add: NewServer_def calm_def answers_def)
  moreover have "Listen ?e ?t = (None, ?t\<lparr>sv_file := SockFile True 0x180, sv_ln := Some True\<rparr>)"
    by (rule listen_deletes_any_file [where mode = "0x1C0"]) (simp_all add: NewServer_def calm_def answers_def)
  ultimately show ?thesis by simp
qed

text \<open>Shutting down. \<open>Close\<close> closes every client once, forgets them all, stops listening and
  leaves no socket file; a second \<open>Close\<close> does nothing; and nothing is queued any more for a
  client that was closed.\<close>

theorem close_shuts_down:
  assumes "server_Close s = (gone, s')" and "\<not> sv_closed s"
  shows "sv_clients s' = Map.empty \<and> sv_file s' = NoFile \<and> sv_ln s' \<noteq> Some True
    \<and> dom gone = dom (sv_clients s)
    \<and> (\<forall>i c. gone i = Some c \<longrightarrow> c_closed c \<and> enqueue line c = c)
    \<and> server_Close s' = (Map.empty, s')"
proof -
  have "c_closed (close_client c)" for c by (simp add: close_client_def stopWriting_def)
  moreover have "dom (map_option close_client \<circ> sv_clients s) = dom (sv_clients s)"
    by (auto simp: dom_def)
  ultimately show ?thesis using assms by (auto simp: server_Close_def enqueue_def)
qed

theorem close_shuts_down_witness:
  "\<exists>gone s'. server_Close (add_client 1 (NewServer ''/s'' NoDir NoFile)) = (gone, s') \<and> dom gone = {1}"
proof -
  let ?s = "add_client 1 (NewServer ''/s'' NoDir NoFile)"
  have n: "\<not> sv_closed ?s" "dom (sv_clients ?s) = {1}" by (simp_all add: add_client_def NewServer_def)
  from close_shuts_down [OF prod.collapse [symmetric] n(1)] n(2) show ?thesis by (metis prod.collapse)
qed

end
