(* ===== verification/Startup.thy ===== *)
theory Startup
  imports MatrixProps Listener
begin

text \<open>
  \<open>cmd/quietdmd/main.go\<close>: how the daemon comes up and how it ends. \<open>boot\<close> is \<open>run\<close> from
  reading the configuration to the listening socket, \<open>run_wait\<close> its wait for the end; what
  the surroundings answer (the operating system, the TOML decoder, the Matrix client, the
  database) is the record \<open>world\<close>. Flags are parsed before: the path of the configuration
  and the socket override are arguments.
\<close>

section \<open>Definitions\<close>

datatype boot_error =
    ConfigErr config_error
  | GoErr goerr

datatype opened_transport =
    OpenedMock mock
  | OpenedMatrix matrix

record world =
  w_os :: os
  w_decode :: toml_decoder
  w_mock :: "nat \<Rightarrow> mock_env"
  w_client :: "matrix_options \<Rightarrow> goerr option"
  w_session_db :: "gostring \<Rightarrow> goerr option"
  w_sync_table :: "goerr option"
  w_key :: key_file
  w_db :: "gostring \<Rightarrow> goerr + sqlite"
  w_sock :: sock_env
  w_dir :: sock_dir
  w_file :: sock_file

definition newTransport :: "world \<Rightarrow> config \<Rightarrow> boot_error + opened_transport" where
  "newTransport w cfg =
     (if cfg_Kind cfg = ''mock'' then Inr (OpenedMock (NewMock (w_mock w) (cfg_Mock cfg)))
      else if cfg_Kind cfg = ''matrix''
      then (case MatrixToken (w_os w) cfg of
              Inl err \<Rightarrow> Inl (ConfigErr err)
            | Inr token \<Rightarrow>
                (case NewMatrix (w_client w) (w_session_db w) (w_sync_table w) (w_key w)
                   \<lparr>mo_Homeserver = xc_Homeserver (cfg_Matrix cfg), mo_UserID = xc_UserID (cfg_Matrix cfg),
                    mo_DeviceID = xc_DeviceID (cfg_Matrix cfg), mo_Token = token,
                    mo_Encrypt = xc_Encrypt (cfg_Matrix cfg),
                    mo_SessionDB = MatrixSessionDBPath (w_os w) cfg,
                    mo_PickleKeyFile = PickleKeyPath (w_os w) cfg, mo_MinBackoff = 0, mo_MaxBackoff = 0\<rparr> of
                   Inl err \<Rightarrow> Inl (GoErr err)
                 | Inr m \<Rightarrow> Inr (OpenedMatrix m)))
      else Inl (GoErr (Opaque (''unsupported transport '' @ cfg_Kind cfg))))"

definition boot ::
  "world \<Rightarrow> gostring \<Rightarrow> gostring
     \<Rightarrow> boot_error + (config \<times> opened_transport \<times> opened_store \<times> server)" where
  "boot w socket path =
     (case Load (w_decode w) (ReadFile (w_os w)) path of
        (cfg, Some err) \<Rightarrow> Inl (ConfigErr err)
      | (cfg, None) \<Rightarrow>
          (let cfg = (if socket \<noteq> [] then cfg\<lparr>cfg_Daemon := (cfg_Daemon cfg)\<lparr>dc_Socket := socket\<rparr>\<rparr> else cfg)
           in case Validate cfg of
                Some err \<Rightarrow> Inl (ConfigErr err)
              | None \<Rightarrow>
                  (case newTransport w cfg of
                     Inl err \<Rightarrow> Inl err
                   | Inr tr \<Rightarrow>
                       (case newStore (w_db w) (w_os w) cfg of
                          Inl err \<Rightarrow> Inl (GoErr err)
                        | Inr st \<Rightarrow>
                            (case Listen (w_sock w) (NewServer (SocketPath (w_os w) cfg) (w_dir w) (w_file w)) of
                               (Some err, _) \<Rightarrow> Inl (GoErr err)
                             | (None, sv) \<Rightarrow> Inr (cfg, tr, st, sv))))))"

text \<open>From there on \<open>run\<close> waits: for a signal, for \<open>Serve\<close> to return, for \<open>Run\<close> of the session to
  return. Several may be ready; the list is the order in which they are seen. The session's
  goroutine reports only a failure. No result: it still waits.\<close>

datatype run_event =
    Signalled
  | ServeReturns "goerr option"
  | RunReturns "goerr option"

definition real_failure :: "goerr option \<Rightarrow> goerr option" where
  "real_failure r =
     (case r of Some err \<Rightarrow> if err_root err = Canceled then None else Some err | None \<Rightarrow> None)"

fun run_wait :: "run_event list \<Rightarrow> goerr option option" where
  "run_wait [] = None"
| "run_wait (Signalled # es) = Some None"
| "run_wait (ServeReturns r # es) = Some (real_failure r)"
| "run_wait (RunReturns r # es) =
     (case real_failure r of Some err \<Rightarrow> Some (Some err) | None \<Rightarrow> run_wait es)"

text \<open>The whole of \<open>run\<close>: the deferred \<open>Close\<close> runs on every way out after \<open>Listen\<close>. With the
  server it leaves, if there was one.\<close>

definition run ::
  "world \<Rightarrow> gostring \<Rightarrow> gostring \<Rightarrow> (server \<Rightarrow> server) \<Rightarrow> run_event list
     \<Rightarrow> (boot_error + (goerr option \<times> server)) option" where
  "run w socket path served es =
     (case boot w socket path of
        Inl err \<Rightarrow> Some (Inl err)
      | Inr (cfg, tr, st, sv) \<Rightarrow>
          map_option (\<lambda>r. Inr (r, snd (server_Close (served sv)))) (run_wait es))"



section \<open>Lemmas\<close>

lemma socket_override:
  "cfg_Kind (cfg\<lparr>cfg_Daemon := (cfg_Daemon cfg)\<lparr>dc_Socket := p\<rparr>\<rparr>) = cfg_Kind cfg"
  "dc_HistoryCapacity (cfg_Daemon (cfg\<lparr>cfg_Daemon := (cfg_Daemon cfg)\<lparr>dc_Socket := p\<rparr>\<rparr>))
     = dc_HistoryCapacity (cfg_Daemon cfg)"
  by simp_all

lemma loaded_capacity:
  assumes "Load Decode RF path = (c, None)"
  shows "0 < dc_HistoryCapacity (cfg_Daemon c)"
proof (cases "c = Default")
  case True
  then show ?thesis by (simp add: Default_def)
next
  case False
  with Load_cases [OF assms] obtain f defined where c: "c = overlay f defined" by blast
  show ?thesis unfolding c overlay_fields by (simp add: mergeDaemon_def Default_def)
qed

lemma boot_cases:
  assumes "boot w socket path = Inr (cfg, tr, st, sv)"
  obtains base where "Load (w_decode w) (ReadFile (w_os w)) path = (base, None)"
    "cfg = (if socket \<noteq> [] then base\<lparr>cfg_Daemon := (cfg_Daemon base)\<lparr>dc_Socket := socket\<rparr>\<rparr> else base)"
    "Validate cfg = None" "newTransport w cfg = Inr tr" "newStore (w_db w) (w_os w) cfg = Inr st"
    "Listen (w_sock w) (NewServer (SocketPath (w_os w) cfg) (w_dir w) (w_file w)) = (None, sv)"
  using assms by (auto simp: boot_def Let_def split: prod.splits option.splits sum.splits)

lemma NewMatrix_made:
  assumes "NewMatrix client open_db table key opts = Inr m"
  shows "mo_Homeserver (mt_opts m) \<noteq> []" "mo_UserID (mt_opts m) \<noteq> []" "mo_Token (mt_opts m) \<noteq> []"
    "\<not> mt_connected m" "mt_offered m = []" "mt_opts m = normalise_options opts"
  using assms
  by (auto simp: NewMatrix_def normalise_options_def Let_def split: if_splits option.splits)

lemma NewMatrix_succeeds:
  assumes "mo_Homeserver opts \<noteq> []" and "mo_UserID opts \<noteq> []" and "mo_Token opts \<noteq> []"
  shows "\<exists>m. NewMatrix (\<lambda>_. None) (\<lambda>_. None) None key opts = Inr m \<and> mo_Token (mt_opts m) = mo_Token opts"
proof -
  have "mo_Token (normalise_options opts) = mo_Token opts" by (simp add: normalise_options_def Let_def)
  with assms show ?thesis by (auto simp: NewMatrix_def newSyncStore_def Let_def)
qed

lemma default_backoff:
  assumes "mo_MinBackoff opts = 0" and "mo_MaxBackoff opts = 0"
  shows "mo_MinBackoff (normalise_options opts) = defaultMinBackoff
    \<and> mo_MaxBackoff (normalise_options opts) = defaultMaxBackoff"
  using assms by (simp add: normalise_options_def defaultMinBackoff_def defaultMaxBackoff_def)

lemma newTransport_matrix:
  assumes "newTransport w cfg = Inr (OpenedMatrix m)"
  obtains opts where "mo_MinBackoff opts = 0" "mo_MaxBackoff opts = 0"
    "NewMatrix (w_client w) (w_session_db w) (w_sync_table w) (w_key w) opts = Inr m"
proof -
  obtain token where "NewMatrix (w_client w) (w_session_db w) (w_sync_table w) (w_key w)
      \<lparr>mo_Homeserver = xc_Homeserver (cfg_Matrix cfg), mo_UserID = xc_UserID (cfg_Matrix cfg),
       mo_DeviceID = xc_DeviceID (cfg_Matrix cfg), mo_Token = token,
       mo_Encrypt = xc_Encrypt (cfg_Matrix cfg), mo_SessionDB = MatrixSessionDBPath (w_os w) cfg,
       mo_PickleKeyFile = PickleKeyPath (w_os w) cfg, mo_MinBackoff = 0, mo_MaxBackoff = 0\<rparr> = Inr m"
    using assms by (auto simp: newTransport_def split: if_splits sum.splits)
  then show ?thesis by (intro that) simp_all
qed

lemma NewMemory_capacity: "0 < mem_capacity (NewMemory c)"
  by (simp add: NewMemory_def DefaultCapacity_def)

section \<open>Properties\<close>

text \<open>C29: a daemon that comes up is ready. Its configuration is valid, its socket is private
  (mode 0600) and nobody answered on it, its store keeps a positive number of messages, and
  its transport is the configured one: the mock, or a Matrix client with a homeserver, a
  user and a token, not connected and with nothing delivered yet, that will wait between 2
  and 60 seconds between attempts.\<close>

theorem boot_ready:
  assumes "boot w socket path = Inr (cfg, tr, st, sv)" and "se_stat (w_sock w) = None"
  shows "Validate cfg = None \<and> sv_file sv = SockFile True 0x180 \<and> \<not> answers (w_sock w) (w_file w)
    \<and> (case st of OpenedMemory m \<Rightarrow> mem_inv m \<and> 0 < mem_capacity m | OpenedSQLite db \<Rightarrow> 0 < sq_capacity db)
    \<and> (case tr of
         OpenedMock m \<Rightarrow> cfg_Kind cfg = ''mock''
       | OpenedMatrix m \<Rightarrow> cfg_Kind cfg = ''matrix'' \<and> mo_Homeserver (mt_opts m) \<noteq> []
           \<and> mo_UserID (mt_opts m) \<noteq> [] \<and> mo_Token (mt_opts m) \<noteq> [] \<and> \<not> mt_connected m
           \<and> mt_offered m = [] \<and> mo_MinBackoff (mt_opts m) = 2 * 10 ^ 9
           \<and> mo_MaxBackoff (mt_opts m) = 60 * 10 ^ 9)"
proof -
  from assms(1) obtain base where b: "Load (w_decode w) (ReadFile (w_os w)) path = (base, None)"
    "cfg = (if socket \<noteq> [] then base\<lparr>cfg_Daemon := (cfg_Daemon base)\<lparr>dc_Socket := socket\<rparr>\<rparr> else base)"
    "Validate cfg = None" "newTransport w cfg = Inr tr" "newStore (w_db w) (w_os w) cfg = Inr st"
    "Listen (w_sock w) (NewServer (SocketPath (w_os w) cfg) (w_dir w) (w_file w)) = (None, sv)"
    by (rule boot_cases)
  have cap: "0 < dc_HistoryCapacity (cfg_Daemon cfg)" using loaded_capacity [OF b(1)] b(2) by simp
  have sock: "sv_file sv = SockFile True 0x180" "\<not> answers (w_sock w) (w_file w)"
    using listen_contract [OF b(6) assms(2)] by (auto simp: NewServer_def)
  have store: "case st of OpenedMemory m \<Rightarrow> mem_inv m \<and> 0 < mem_capacity m
      | OpenedSQLite db \<Rightarrow> 0 < sq_capacity db"
    using b(5) cap mem_inv_New NewMemory_capacity
    by (auto simp: newStore_def OpenSQLite_def split: if_splits sum.splits)
  have tr: "case tr of OpenedMock m \<Rightarrow> cfg_Kind cfg = ''mock''
      | OpenedMatrix m \<Rightarrow> cfg_Kind cfg = ''matrix''"
    using b(4) by (auto simp: newTransport_def split: if_splits sum.splits)
  show ?thesis
  proof (cases tr)
    case (OpenedMock m)
    with b(3) sock store tr show ?thesis by simp
  next
    case (OpenedMatrix m)
    from newTransport_matrix [OF b(4) [unfolded OpenedMatrix]]
    obtain opts where o: "mo_MinBackoff opts = 0" "mo_MaxBackoff opts = 0"
      "NewMatrix (w_client w) (w_session_db w) (w_sync_table w) (w_key w) opts = Inr m" .
    with b(3) sock store tr OpenedMatrix NewMatrix_made [OF o(3)] default_backoff [OF o(1,2)] show ?thesis
      by (simp add: defaultMinBackoff_def defaultMaxBackoff_def)
  qed
qed

definition matrix_file :: config where
  "matrix_file = token_config\<lparr>cfg_Kind := ''matrix'',
     cfg_Matrix := (cfg_Matrix token_config)\<lparr>xc_Homeserver := ''http://h'', xc_UserID := ''@me:h''\<rparr>\<rparr>"

lemma matrix_file_loaded:
  "cfg_Kind (overlay matrix_file (\<lambda>_. False)) = ''matrix''"
  "xc_Homeserver (cfg_Matrix (overlay matrix_file (\<lambda>_. False))) = ''http://h''"
  "xc_UserID (cfg_Matrix (overlay matrix_file (\<lambda>_. False))) = ''@me:h''"
  "xc_TokenFile (cfg_Matrix (overlay matrix_file (\<lambda>_. False))) = ''/t''"
  "dc_Store (cfg_Daemon (overlay matrix_file (\<lambda>_. False))) = ''sqlite''"
  by (simp_all add: overlay_def merge_def mergeMatrix_def mergeDaemon_def set_or_def matrix_file_def
      token_config_def Default_def)

definition plain_world :: world where
  "plain_world =
     \<lparr>w_os = (token_os 0x180)\<lparr>ReadFile := (\<lambda>p. if p = ''/t'' then Inr ''t'' else Inr ''config'')\<rparr>,
      w_decode = (\<lambda>_. Inr (matrix_file, \<lambda>_. False)), w_mock = good_env, w_client = (\<lambda>_. None),
      w_session_db = (\<lambda>_. None), w_sync_table = None, w_key = no_key_file,
      w_db = (\<lambda>_. Inr (sq_fresh (\<lambda>_. None))), w_sock = calm, w_dir = NoDir, w_file = NoFile\<rparr>"

lemma world_boots:
  fixes db :: sqlite
  defines "w \<equiv> plain_world\<lparr>w_db := \<lambda>_. Inr db\<rparr>"
  shows "\<exists>cfg m st sv. boot w ''/run/s'' ''c'' = Inr (cfg, OpenedMatrix m, OpenedSQLite st, sv)
     \<and> mo_Token (mt_opts m) = ''t'' \<and> sv_path sv = ''/run/s''"
proof -
  define base where "base = overlay matrix_file (\<lambda>_. False)"
  define cfg where "cfg = base\<lparr>cfg_Daemon := (cfg_Daemon base)\<lparr>dc_Socket := ''/run/s''\<rparr>\<rparr>"
  have load: "Load (w_decode w) (ReadFile (w_os w)) ''c'' = (base, None)"
    by (simp add: Load_def w_def plain_world_def base_def)
  have f: "cfg_Kind cfg = ''matrix''" "xc_Homeserver (cfg_Matrix cfg) = ''http://h''"
    "xc_UserID (cfg_Matrix cfg) = ''@me:h''" "xc_TokenFile (cfg_Matrix cfg) = ''/t''"
    "dc_Store (cfg_Daemon cfg) = ''sqlite''" "dc_Socket (cfg_Daemon cfg) = ''/run/s''"
    by (simp_all add: cfg_def base_def matrix_file_loaded)
  have v: "Validate cfg = None" by (simp add: Validate_def f)
  have trim: "TrimSpace ''t'' = ''t''" "TrimSpace [] = []"
    by (simp_all add: TrimSpace_def decode_rune_def IsSpace_def)
  have tok: "MatrixToken (w_os w) cfg = Inr ''t''"
    by (simp add: MatrixToken_def f w_def plain_world_def token_os_def trim)
  then obtain m where m: "newTransport w cfg = Inr (OpenedMatrix m)" "mo_Token (mt_opts m) = ''t''"
  proof -
    let ?o = "\<lparr>mo_Homeserver = ''http://h'', mo_UserID = ''@me:h'', mo_DeviceID = xc_DeviceID (cfg_Matrix cfg),
      mo_Token = ''t'', mo_Encrypt = xc_Encrypt (cfg_Matrix cfg),
      mo_SessionDB = MatrixSessionDBPath (w_os w) cfg,
      mo_PickleKeyFile = PickleKeyPath (w_os w) cfg, mo_MinBackoff = 0, mo_MaxBackoff = 0\<rparr>"
    obtain m where m: "NewMatrix (\<lambda>_. None) (\<lambda>_. None) None (w_key w) ?o = Inr m"
      "mo_Token (mt_opts m) = ''t''" using NewMatrix_succeeds [of ?o "w_key w"] by auto
    have answers: "w_client w = (\<lambda>_. None)" "w_session_db w = (\<lambda>_. None)"
      "w_sync_table w = None" by (simp_all add: w_def plain_world_def)
    have "newTransport w cfg = Inr (OpenedMatrix m)"
      using m(1) by (simp add: newTransport_def f tok answers)
    with m(2) show ?thesis by (intro that)
  qed
  obtain st where st: "newStore (w_db w) (w_os w) cfg = Inr (OpenedSQLite st)"
    by (simp add: newStore_def f w_def plain_world_def)
  let ?s = "NewServer ''/run/s'' NoDir NoFile"
  have "Listen calm ?s = (None, ?s\<lparr>sv_dir := Dir 0x1C0, sv_file := SockFile True 0x180, sv_ln := Some True\<rparr>)"
    by (simp add: Listen_def ensureDir_def clearStale_def net_Listen_def Stat_def answers_def calm_def
        NewServer_def is_not_exist_def)
  then obtain sv where sv: "Listen (w_sock w)
      (NewServer (SocketPath (w_os w) cfg) (w_dir w) (w_file w)) = (None, sv)"
    "sv_path sv = ''/run/s''"
    by (simp add: SocketPath_def f w_def plain_world_def) (simp add: NewServer_def)
  have "boot w ''/run/s'' ''c'' = Inr (cfg, OpenedMatrix m, OpenedSQLite st, sv)"
    using load v m(1) st sv(1) by (simp add: boot_def cfg_def Let_def)
  with m(2) sv(2) show ?thesis by blast
qed

lemma plain_world_boots:
  "\<exists>cfg m st sv. boot plain_world ''/run/s'' ''c'' = Inr (cfg, OpenedMatrix m, OpenedSQLite st, sv)
     \<and> mo_Token (mt_opts m) = ''t'' \<and> sv_path sv = ''/run/s''"
proof -
  have "plain_world\<lparr>w_db := \<lambda>_. Inr (sq_fresh (\<lambda>_. None))\<rparr> = plain_world" by (simp add: plain_world_def)
  with world_boots [of "sq_fresh (\<lambda>_. None)"] show ?thesis by simp
qed

theorem boot_ready_witness:
  "\<exists>cfg m st sv. boot plain_world ''/run/s'' ''c'' = Inr (cfg, OpenedMatrix m, OpenedSQLite st, sv)
     \<and> mo_Token (mt_opts m) = ''t'' \<and> mo_MaxBackoff (mt_opts m) = 60 * 10 ^ 9 \<and> sv_path sv = ''/run/s''"
proof -
  obtain cfg m st sv where b:
    "boot plain_world ''/run/s'' ''c'' = Inr (cfg, OpenedMatrix m, OpenedSQLite st, sv)"
    "mo_Token (mt_opts m) = ''t''" "sv_path sv = ''/run/s''" using plain_world_boots by blast
  have "se_stat (w_sock plain_world) = None" by (simp add: plain_world_def calm_def)
  from boot_ready [OF b(1) this] b show ?thesis by auto
qed


lemma run_wait_failure:
  "run_wait es = Some (Some err) \<Longrightarrow>
     err_root err \<noteq> Canceled \<and> (ServeReturns (Some err) \<in> set es \<or> RunReturns (Some err) \<in> set es)"
  by (induction es rule: run_wait.induct) (auto simp: real_failure_def split: option.splits if_splits)











end
