(* ===== verification/Lifetimes.thy ===== *)
theory Lifetimes
  imports Daemon Startup "HOL-Library.Sublist"
begin

text \<open>
  What the daemon keeps over its life and over restarts, seen from outside: the history of
  every room as a function of the messages received. A lifetime is a start (\<open>boot\<close> on the
  database the one before left) and any run of the daemon's goroutines, cut off anywhere;
  several follow each other, each with its own configuration.
\<close>

section \<open>The specification\<close>

text \<open>The messages a run has received, as the session takes them.\<close>

fun received :: "session_options \<Rightarrow> transport_event list \<Rightarrow> message list" where
  "received opts [] = []"
| "received opts (EventMessage m # evs) = normalise opts m # received opts evs"
| "received opts (EventConnected c # evs) = received opts evs"

text \<open>One message on the histories: a new one goes to the end of its room, of which the last \<open>c\<close>
  stay; one whose event is there already changes nothing.\<close>

definition log_message :: "nat \<Rightarrow> message \<Rightarrow> (gostring \<Rightarrow> message list) \<Rightarrow> gostring \<Rightarrow> message list" where
  "log_message c m logs =
     (if has_event (mEvent m) (logs (mRoom m)) then logs
      else logs(mRoom m := lastn c (logs (mRoom m) @ [m])))"

definition log_messages :: "nat \<Rightarrow> message list \<Rightarrow> (gostring \<Rightarrow> message list) \<Rightarrow> gostring \<Rightarrow> message list" where
  "log_messages c ms = fold (log_message c) ms"

definition log_lives :: "(nat \<times> message list) list \<Rightarrow> (gostring \<Rightarrow> message list) \<Rightarrow> gostring \<Rightarrow> message list" where
  "log_lives lives = fold (\<lambda>(c, ms). log_messages c ms) lives"

text \<open>Lifetimes over one database, with the capacity of each and what it received.\<close>

inductive lifetimes :: "'tr transport \<Rightarrow> sqlite \<Rightarrow> (nat \<times> message list) list \<Rightarrow> sqlite \<Rightarrow> bool" for T where
  Unborn: "lifetimes T db [] db"
| Life: "lifetimes T db lives db1 \<Longrightarrow> w_db w = (\<lambda>_. Inr db1) \<Longrightarrow>
    boot w socket path = Inr (cfg, tr, OpenedSQLite db2, sv) \<Longrightarrow>
    daemon_trace T (sessionOptions cfg) version (daemon_init T (sessionOptions cfg) db2 t) evs d \<Longrightarrow>
    lifetimes T db
      (lives @ [(nat (dc_HistoryCapacity (cfg_Daemon cfg)), received (sessionOptions cfg) evs)]) (d_store d)"

text \<open>A history that grew out of another by messages that arrived: its end, of at least \<open>n\<close>
  messages if there are as many.\<close>

definition grew :: "nat \<Rightarrow> message list \<Rightarrow> message list \<Rightarrow> message list \<Rightarrow> bool" where
  "grew n old arrived new \<longleftrightarrow> suffix new (old @ arrived) \<and> min n (length (old @ arrived)) \<le> length new"

section \<open>Lemmas\<close>

lemma a_log_message: "a_log (a_append c m a) = log_message c m (a_log a)"
  by (rule ext) (simp add: a_log_append log_message_def)

lemma received_append: "received opts (xs @ ys) = received opts xs @ received opts ys"
  by (induction xs rule: received.induct) simp_all

lemma log_messages_append: "log_messages c (xs @ ys) logs = log_messages c ys (log_messages c xs logs)"
  by (simp add: log_messages_def)

lemma grew_step:
  assumes "grew n old arr l1" and "n \<le> c" and "l2 = l1 \<or> l2 = l1 @ [m] \<or> l2 = lastn c (l1 @ [m])"
  shows "grew n old arr l2 \<or> grew n old (arr @ [m]) l2"
proof (cases "l2 = l1")
  case False
  have "suffix (l1 @ [m]) (old @ arr @ [m])" using assms(1) by (auto simp: grew_def suffix_def)
  moreover have "suffix (lastn c xs) xs" for xs :: "message list"
    by (simp add: lastn_def suffix_drop)
  ultimately have "suffix l2 (old @ arr @ [m])"
    using False assms(3) suffix_order.trans by blast
  then show ?thesis using False assms by (auto simp: grew_def)
qed (use assms in simp)

context store_contract
begin

text \<open>What an incoming message does to the histories, whatever fails.\<close>

lemma ingest_logs:
  assumes "inv st" and "mEvent m \<noteq> []" and "ingest ops opts bcast m s st = (bs, s', st')"
  shows "inv st' \<and> cap st' = cap st \<and> a_log (abs st') \<in>
    {a_log (abs st), a_log (a_insert (normalise opts m) (abs st)), log_message (cap st) (normalise opts m) (a_log (abs st))}"
proof -
  let ?m = "normalise opts m"
  obtain e st1 where a: "AppendMessage ops ?m st = (e, st1)" by fastforce
  show ?thesis
  proof (cases e)
    case (Some x)
    with a assms append_err [of st ?m x st1] show ?thesis by (auto simp: ingest_def)
  next
    case None
    with a assms have ok: "inv st1" "cap st1 = cap st" "a_log (abs st1) = log_message (cap st) ?m (a_log (abs st))"
      using append_ok [of st ?m st1] by (auto simp: a_log_message)
    from markOwn_frame [OF ok(1), of ?m] obtain st2 where st2: "markOwn ops ?m st1 = st2"
      "inv st2" "cap st2 = cap st1" "a_log (abs st2) = a_log (abs st1)" by blast
    obtain bs1 st3 where an: "announceRoom ops (mRoom m) (touchRoom ?m s) st2 = (bs1, st3)" by fastforce
    with announce_contract [OF st2(2) an] st2 ok
    have "inv st3 \<and> cap st3 = cap st \<and> a_log (abs st3) = log_message (cap st) ?m (a_log (abs st))" by simp
    moreover have "announceRoom ops (mRoom m) (touchRoom ?m s) (markOwn ops ?m st1) = (bs1, st3)"
      using an st2(1) by simp
    ultimately show ?thesis
      using ingest_stored [OF a [unfolded None], of s bs1 st3 bcast] assms(3) st2 ok by (auto split: if_splits)
  qed
qed

end

lemma insert_logs:
  "a_log (a_insert m a) r = (if r = mRoom m \<and> \<not> has_event (mEvent m) (a_log a r) then a_log a r @ [m] else a_log a r)"
  by (auto simp: a_insert_def a_log_upd)

text \<open>A step of the daemon on the histories: only a transport event changes them.\<close>

lemma dispatch_logs:
  assumes "sq_inv st" and
    "dispatch (session_handler T sqlite_store) v i line cs (s, st, tr) = (ok, cs', (s', st', tr'))"
  shows "sq_inv st' \<and> sq_cap st' = sq_cap st \<and> a_log (sq_abs st') = a_log (sq_abs st)"
  using sq.over.dispatch_inv [where base = s and logs = "a_log (sq_abs st)" and c = "sq_cap st", OF _ assms(2)] assms(1)
  by (simp add: handler_inv_def)

lemma dispatch_reliable:
  assumes "sq_reliable st" and
    "dispatch (session_handler T sqlite_store) v i line cs (s, st, tr) = (ok, cs', (s', st', tr'))"
  shows "sq_reliable st' \<and> sq_cap st' = sq_cap st \<and> a_log (sq_abs st') = a_log (sq_abs st)"
  using sqr.over.dispatch_inv [where base = s and logs = "a_log (sq_abs st)" and c = "sq_cap st", OF _ assms(2)] assms(1)
  by (simp add: handler_inv_def)

lemma silent_step:
  assumes "daemon_step T opts version d None e"
  shows "(sq_inv (d_store d) \<longrightarrow> sq_inv (d_store e)) \<and> (sq_reliable (d_store d) \<longrightarrow> sq_reliable (d_store e))
    \<and> (sq_inv (d_store d) \<longrightarrow> sq_cap (d_store e) = sq_cap (d_store d)
         \<and> a_log (sq_abs (d_store e)) = a_log (sq_abs (d_store d)))"
  using assms
proof (cases rule: daemon_step.cases)
  case (Line i line ok cs s st tr)
  with dispatch_logs [OF _ Line(5)] dispatch_reliable [OF _ Line(5)] show ?thesis by auto
qed auto

lemma event_step:
  assumes "daemon_step T opts version d (Some ev) e"
  obtains bs s st where "event_ok ev" "handle sqlite_store opts True ev (d_session d) (d_store d) = (bs, s, st)"
    "d_store e = st"
  using assms by (cases rule: daemon_step.cases) auto

lemma event_step_reliable:
  assumes "daemon_step T opts version d (Some ev) e" and "sq_reliable (d_store d)"
  shows "sq_reliable (d_store e) \<and> sq_cap (d_store e) = sq_cap (d_store d)
    \<and> a_log (sq_abs (d_store e)) = log_messages (sq_cap (d_store d)) (received opts [ev]) (a_log (sq_abs (d_store d)))"
proof -
  from assms(1) obtain bs s st where h: "event_ok ev"
    "handle sqlite_store opts True ev (d_session d) (d_store d) = (bs, s, st)" "d_store e = st" by (rule event_step)
  show ?thesis
  proof (cases ev)
    case (EventConnected c)
    with h assms(2) show ?thesis by (simp add: log_messages_def)
  next
    case (EventMessage m)
    with h(1) have m: "mEvent m \<noteq> []" by simp
    have mark: "a_log ((if mOwn m then a_mark (mRoom m) (mEvent m) else (\<lambda>a. a)) a) = a_log a" for a
      by (rule ext) (simp add: a_log_mark)
    from sqr.ingest_effect [OF assms(2) m, of opts "d_session d"] EventMessage h(2,3) show ?thesis
      by (auto simp: mark a_log_message log_messages_def)
  qed
qed

lemma event_step_grows:
  assumes "daemon_step T opts version d (Some ev) e" and "sq_inv (d_store d)"
    and "grew n old arr (a_log (sq_abs (d_store d)) r)" and "n \<le> sq_cap (d_store d)"
  shows "sq_inv (d_store e) \<and> sq_cap (d_store e) = sq_cap (d_store d)
    \<and> (\<exists>new. subseq new (filter (\<lambda>m. mRoom m = r) (received opts [ev])) \<and> grew n old (arr @ new) (a_log (sq_abs (d_store e)) r))"
proof -
  from assms(1) obtain bs s st where h: "event_ok ev"
    "handle sqlite_store opts True ev (d_session d) (d_store d) = (bs, s, st)" "d_store e = st" by (rule event_step)
  show ?thesis
  proof (cases ev)
    case (EventConnected c)
    with h assms(2,3) show ?thesis by auto
  next
    case (EventMessage m)
    let ?m = "normalise opts m" and ?l = "a_log (sq_abs (d_store d)) r"
    from EventMessage h sq.ingest_logs [OF assms(2), of m opts True "d_session d" bs s st]
    have st: "sq_inv st" "sq_cap st = sq_cap (d_store d)"
      "a_log (sq_abs st) \<in> {a_log (sq_abs (d_store d)), a_log (a_insert ?m (sq_abs (d_store d))),
         log_message (sq_cap (d_store d)) ?m (a_log (sq_abs (d_store d)))}" by auto
    show ?thesis
    proof (cases "a_log (sq_abs st) r = ?l")
      case True
      then have "subseq [] (filter (\<lambda>m. mRoom m = r) (received opts [ev])) \<and> grew n old (arr @ []) (a_log (sq_abs st) r)"
        using assms(3) by simp
      with st h(3) show ?thesis by blast
    next
      case False
      with st(3) have "mRoom ?m = r" "a_log (sq_abs st) r = ?l @ [?m] \<or> a_log (sq_abs st) r = lastn (sq_cap (d_store d)) (?l @ [?m])"
        by (auto simp: insert_logs log_message_def split: if_splits)
      with grew_step [OF assms(3,4), of "a_log (sq_abs st) r" ?m] EventMessage
      have "\<exists>new. subseq new (filter (\<lambda>m. mRoom m = r) (received opts [ev])) \<and> grew n old (arr @ new) (a_log (sq_abs st) r)"
        by (cases "grew n old arr (a_log (sq_abs st) r)") (auto intro: exI [of _ "[]"] exI [of _ "[?m]"])
      with st h(3) show ?thesis by blast
    qed
  qed
qed

lemma trace_reliable:
  assumes "daemon_trace T opts version d evs e" and "sq_reliable (d_store d)"
  shows "sq_reliable (d_store e) \<and> sq_cap (d_store e) = sq_cap (d_store d)
    \<and> a_log (sq_abs (d_store e)) = log_messages (sq_cap (d_store d)) (received opts evs) (a_log (sq_abs (d_store d)))"
  using assms
proof (induction rule: daemon_trace.induct)
  case (Quiet d)
  then show ?case by (simp add: log_messages_def)
next
  case (Silent d evs e f)
  with silent_step [OF Silent(2)] show ?case by (simp add: sq_reliable_def)
next
  case (Taken d evs e ev f)
  with event_step_reliable [OF Taken(2)] show ?case
    by (simp add: received_append log_messages_append)
qed

lemma trace_grows:
  assumes "daemon_trace T opts version d evs e" and "sq_inv (d_store d)"
    and "grew n old arr (a_log (sq_abs (d_store d)) r)" and "n \<le> sq_cap (d_store d)"
  shows "sq_inv (d_store e) \<and> sq_cap (d_store e) = sq_cap (d_store d)
    \<and> (\<exists>new. subseq new (filter (\<lambda>m. mRoom m = r) (received opts evs)) \<and> grew n old (arr @ new) (a_log (sq_abs (d_store e)) r))"
  using assms
proof (induction rule: daemon_trace.induct)
  case (Quiet d)
  then show ?case by auto
next
  case (Silent d evs e f)
  with silent_step [OF Silent(2)] show ?case by simp
next
  case (Taken d evs e ev f)
  then obtain new where n: "subseq new (filter (\<lambda>m. mRoom m = r) (received opts evs))"
    "grew n old (arr @ new) (a_log (sq_abs (d_store e)) r)" and e: "sq_inv (d_store e)" "sq_cap (d_store e) = sq_cap (d_store d)"
    by blast
  from event_step_grows [OF Taken(2) e(1) n(2)] Taken.prems(3) e(2) obtain new2 where f:
    "sq_inv (d_store f)" "sq_cap (d_store f) = sq_cap (d_store e)"
    "subseq new2 (filter (\<lambda>m. mRoom m = r) (received opts [ev]))"
    "grew n old ((arr @ new) @ new2) (a_log (sq_abs (d_store f)) r)" by auto
  have "subseq (new @ new2) (filter (\<lambda>m. mRoom m = r) (received opts (evs @ [ev])))"
    using list_emb_append_mono [OF n(1) f(3)] by (simp add: received_append)
  with f e(2) show ?case by auto
qed

lemma daemon_init_store: "d_store (daemon_init T opts db tr) = db"
  by (simp add: daemon_init_def split: prod.split)

lemma boot_store:
  assumes "boot w socket path = Inr (cfg, tr, OpenedSQLite db2, sv)" and "w_db w = (\<lambda>_. Inr db1)"
  shows "sq_cap db2 = nat (dc_HistoryCapacity (cfg_Daemon cfg)) \<and> sq_abs db2 = sq_abs db1
    \<and> (sq_inv db1 \<longrightarrow> sq_inv db2) \<and> (sq_reliable db1 \<longrightarrow> sq_reliable db2)"
proof -
  from assms(1) obtain base where b: "Load (w_decode w) (ReadFile (w_os w)) path = (base, None)"
    "cfg = (if socket \<noteq> [] then base\<lparr>cfg_Daemon := (cfg_Daemon base)\<lparr>dc_Socket := socket\<rparr>\<rparr> else base)"
    "newStore (w_db w) (w_os w) cfg = Inr (OpenedSQLite db2)" by (rule boot_cases)
  have cap: "0 < dc_HistoryCapacity (cfg_Daemon cfg)" using loaded_capacity [OF b(1)] b(2) by simp
  have "db2 = OpenSQLite (dc_HistoryCapacity (cfg_Daemon cfg)) db1"
    using b(3) assms(2) by (auto simp: newStore_def split: if_splits)
  with cap show ?thesis
    by (auto simp: OpenSQLite_def sq_cap_def sq_abs_def sq_inv_def sq_reliable_def sq_faultless_def)
qed

text \<open>Short lifetimes: each takes one message and is cut off.\<close>

lemma one_message_life:
  fixes m :: message and db :: sqlite
  assumes "mEvent m \<noteq> []"
  shows "\<exists>lives db'. lifetimes refusing_transport db lives db' \<and> length lives = Suc k
    \<and> list_all (\<lambda>(c, ms). 0 < c \<and> map mEvent ms = [mEvent m]) lives"
proof (induction k)
  have life: "\<exists>cfg d. lifetimes refusing_transport db
      (lives @ [(nat (dc_HistoryCapacity (cfg_Daemon cfg)), received (sessionOptions cfg) [EventMessage m])]) d
      \<and> 0 < dc_HistoryCapacity (cfg_Daemon cfg)" if prev: "lifetimes refusing_transport db lives db1" for lives db1
  proof -
    let ?w = "plain_world\<lparr>w_db := \<lambda>_. Inr db1\<rparr>"
    obtain cfg mx st sv where b: "boot ?w ''/run/s'' ''c'' = Inr (cfg, OpenedMatrix mx, OpenedSQLite st, sv)"
      using world_boots [of db1] by blast
    from b obtain base where l: "Load (w_decode ?w) (ReadFile (w_os ?w)) ''c'' = (base, None)"
      "cfg = (if ''/run/s'' \<noteq> [] then base\<lparr>cfg_Daemon := (cfg_Daemon base)\<lparr>dc_Socket := ''/run/s''\<rparr>\<rparr> else base)"
      by (rule boot_cases)
    have cap: "0 < dc_HistoryCapacity (cfg_Daemon cfg)" using loaded_capacity [OF l(1)] l(2) by simp
    let ?d = "daemon_init refusing_transport (sessionOptions cfg) st ()"
    obtain bs s st2 where h: "handle sqlite_store (sessionOptions cfg) True (EventMessage m) (d_session ?d) (d_store ?d) = (bs, s, st2)"
      by (metis prod_cases3)
    have "d_pending ?d = []" by (simp add: daemon_init_def split: prod.split)
    from Event [OF this _ h] assms have "daemon_step refusing_transport (sessionOptions cfg) [] ?d (Some (EventMessage m))
        (?d\<lparr>d_session := s, d_store := st2, d_pending := bs\<rparr>)" by simp
    from Taken [OF Quiet this] have "daemon_trace refusing_transport (sessionOptions cfg) [] ?d [EventMessage m]
        (?d\<lparr>d_session := s, d_store := st2, d_pending := bs\<rparr>)" by simp
    from Life [OF prev _ b this] cap show ?thesis by auto
  qed
  case 0
  from life [OF Unborn] show ?case by fastforce
  case (Suc k)
  then obtain lives db' where "lifetimes refusing_transport db lives db'" "length lives = Suc k"
    "list_all (\<lambda>(c, ms). 0 < c \<and> map mEvent ms = [mEvent m]) lives" by blast
  with life [of lives db'] show ?case by fastforce
qed

section \<open>Properties\<close>

text \<open>C2: the daemon is a log of what it received. With a database whose statements do not fail,
  after any number of lifetimes, with any configurations, frontends, interleavings and cuts,
  the histories are exactly what inserting the received messages one after the other makes
  of the histories before: new ones at the end, repeated ones ignored, the last of each room
  up to the capacity of the lifetime.\<close>

theorem history_is_the_log:
  assumes "lifetimes T db lives db'" and "sq_reliable db"
  shows "sq_reliable db' \<and> a_log (sq_abs db') = log_lives lives (a_log (sq_abs db))"
  using assms
proof (induction rule: lifetimes.induct)
  case (Unborn db)
  then show ?case by (simp add: log_lives_def)
next
  case (Life db lives db1 w socket path cfg tr db2 sv version t evs d)
  then have "sq_reliable db1" "a_log (sq_abs db1) = log_lives lives (a_log (sq_abs db))" by simp_all
  with boot_store [OF Life(3,2)] trace_reliable [OF Life(4)] show ?case
    by (simp add: daemon_init_store log_lives_def)
qed

theorem history_is_the_log_witness:
  "\<exists>lives db'. lifetimes refusing_transport (OpenSQLite 2 (sq_fresh (\<lambda>_. None))) lives db' \<and> length lives = 2
     \<and> list_all (\<lambda>(c, ms). map mEvent ms = [''e1'']) lives
     \<and> a_log (sq_abs db') = log_lives lives (\<lambda>_. [])"
proof -
  let ?db = "OpenSQLite 2 (sq_fresh (\<lambda>_. None))"
  have "mEvent (sample_message ''e1'' False) \<noteq> []" by (simp add: sample_message_def)
  from one_message_life [OF this, of ?db 1] obtain lives db' where l: "lifetimes refusing_transport ?db lives db'"
    "length lives = 2" "list_all (\<lambda>(c, ms). 0 < c \<and> map mEvent ms = [''e1'']) lives"
    by (auto simp: sample_message_def)
  have "a_log (sq_abs ?db) = (\<lambda>_. [])" by (rule ext) (simp add: abs_open store_simps)
  with history_is_the_log [OF l(1) reliable_open] have "a_log (sq_abs db') = log_lives lives (\<lambda>_. [])" by simp
  moreover have "list_all (\<lambda>(c, ms). map mEvent ms = [''e1'']) lives"
    using l(3) by (rule list.pred_mono_strong) auto
  ultimately show ?thesis using l(1,2) by blast
qed

text \<open>C5: no failure invents, reorders or loses more. Whatever statements fail, in any lifetimes of
  capacity at least \<open>n\<close>, the history of a room is at the end the tail of what it was and
  then of messages that arrived for this room, in the order they arrived; it is never
  shortened below the last \<open>n\<close> of these; and the database stays consistent.\<close>

theorem history_only_grows:
  assumes "lifetimes T db lives db'" and "sq_inv db" and "list_all (\<lambda>(c, ms). n \<le> c) lives"
  shows "sq_inv db' \<and> (\<exists>arrived. subseq arrived (filter (\<lambda>m. mRoom m = r) (concat (map snd lives)))
    \<and> grew n (a_log (sq_abs db) r) arrived (a_log (sq_abs db') r))"
  using assms
proof (induction rule: lifetimes.induct)
  case (Unborn db)
  then show ?case by (auto simp: grew_def)
next
  case (Life db lives db1 w socket path cfg tr db2 sv version t evs d)
  let ?in = "\<lambda>ms. filter (\<lambda>m. mRoom m = r) ms"
  from Life obtain arr where a: "subseq arr (?in (concat (map snd lives)))"
    "grew n (a_log (sq_abs db) r) arr (a_log (sq_abs db1) r)" and inv1: "sq_inv db1" by auto
  note b = boot_store [OF Life(3,2)]
  have n: "n \<le> sq_cap db2" using Life.prems(2) b by simp
  have "grew n (a_log (sq_abs db) r) arr (a_log (sq_abs db2) r)" using a(2) b by simp
  with trace_grows [OF Life(4)] b inv1 n obtain new where
    "sq_inv (d_store d)" "subseq new (?in (received (sessionOptions cfg) evs))"
    "grew n (a_log (sq_abs db) r) (arr @ new) (a_log (sq_abs (d_store d)) r)"
    unfolding daemon_init_store by blast
  moreover from this(2) have "subseq (arr @ new) (?in (concat (map snd lives) @ received (sessionOptions cfg) evs))"
    using list_emb_append_mono [OF a(1)] by simp
  ultimately show ?case by (auto simp del: filter_append)
qed

theorem history_only_grows_witness:
  "\<exists>lives db'. lifetimes refusing_transport faulty_db lives db' \<and> length lives = 3 \<and> sq_inv db'
     \<and> (\<exists>arrived. grew 1 (a_log (sq_abs faulty_db) ''!r'') arrived (a_log (sq_abs db') ''!r''))"
proof -
  have "mEvent (sample_message ''e1'' False) \<noteq> []" by (simp add: sample_message_def)
  from one_message_life [OF this, of faulty_db 2] obtain lives db' where l: "lifetimes refusing_transport faulty_db lives db'"
    "length lives = 3" "list_all (\<lambda>(c, ms). 0 < c \<and> map mEvent ms = [''e1'']) lives"
    by (auto simp: sample_message_def)
  have "list_all (\<lambda>(c, ms). 1 \<le> c) lives" using l(3) by (rule list.pred_mono_strong) auto
  from history_only_grows [OF l(1) faulty_inv this, of "''!r''"] l(1,2) show ?thesis by blast
qed

end
