(* ===== verification/Sink.thy ===== *)
theory Sink
  imports Transport
begin

text \<open>
  \<open>internal/transport/sink.go\<close>: the event channel of a transport and the protocol that
  closes it. The state is the buffered channel, the \<open>stopped\<close> channel (a flag once
  closed), and where each goroutine is: senders in \<open>send\<close>, the one closer the
  \<open>sync.Once\<close> lets into \<open>close\<close>. A sender holds the read lock between its two selects; the
  closer takes the write lock only when no sender holds it. Sending on the closed channel
  would panic: that is a step of its own, so its absence is something to prove.
\<close>

section \<open>State and steps\<close>

datatype sender =
    Arriving transport_event
  | Checking transport_event
  | Selecting transport_event
  | Returned bool

datatype closer = NotClosed | Locking | Done

record sink =
  sk_buffer :: nat
  sk_ch :: "transport_event list"
  sk_stopped :: bool
  sk_closed :: bool
  sk_closer :: closer
  sk_senders :: "nat \<rightharpoonup> sender"
  sk_received :: "transport_event list"
  sk_sent :: "transport_event list"
  sk_panic :: bool

definition newEventSink :: "nat \<Rightarrow> sink" where
  "newEventSink buffer =
     \<lparr>sk_buffer = buffer, sk_ch = [], sk_stopped = False, sk_closed = False, sk_closer = NotClosed,
      sk_senders = Map.empty, sk_received = [], sk_sent = [], sk_panic = False\<rparr>"

text \<open>The senders that hold the read lock.\<close>

fun holds_lock :: "sender \<Rightarrow> bool" where
  "holds_lock (Checking ev) \<longleftrightarrow> True"
| "holds_lock (Selecting ev) \<longleftrightarrow> True"
| "holds_lock _ \<longleftrightarrow> False"

definition at :: "sink \<Rightarrow> nat \<Rightarrow> sender \<Rightarrow> sink" where
  "at s i p = s\<lparr>sk_senders := (sk_senders s)(i \<mapsto> p)\<rparr>"

inductive sink_step :: "sink \<Rightarrow> sink \<Rightarrow> bool" where
  Call: "sk_senders s i = None \<Longrightarrow> sink_step s (at s i (Arriving ev))"
| RLock: "sk_senders s i = Some (Arriving ev) \<Longrightarrow> sink_step s (at s i (Checking ev))"
| Refuse: "sk_senders s i = Some (Checking ev) \<Longrightarrow> sk_stopped s \<Longrightarrow>
    sink_step s (at s i (Returned False))"
| Pass: "sk_senders s i = Some (Checking ev) \<Longrightarrow> \<not> sk_stopped s \<Longrightarrow>
    sink_step s (at s i (Selecting ev))"
| Deliver: "sk_senders s i = Some (Selecting ev) \<Longrightarrow> \<not> sk_closed s \<Longrightarrow>
    length (sk_ch s) < sk_buffer s \<Longrightarrow>
    sink_step s (at (s\<lparr>sk_ch := sk_ch s @ [ev], sk_sent := sk_sent s @ [ev]\<rparr>) i (Returned True))"
| DeliverClosed: "sk_senders s i = Some (Selecting ev) \<Longrightarrow> sk_closed s \<Longrightarrow>
    sink_step s (s\<lparr>sk_panic := True\<rparr>)"
| GiveUpStopped: "sk_senders s i = Some (Selecting ev) \<Longrightarrow> sk_stopped s \<Longrightarrow>
    sink_step s (at s i (Returned False))"
| GiveUpCancelled: "sk_senders s i = Some (Selecting ev) \<Longrightarrow>
    sink_step s (at s i (Returned False))"
| Receive: "sk_ch s = ev # evs \<Longrightarrow>
    sink_step s (s\<lparr>sk_ch := evs, sk_received := sk_received s @ [ev]\<rparr>)"
| CloseStopped: "sk_closer s = NotClosed \<Longrightarrow>
    sink_step s (s\<lparr>sk_stopped := True, sk_closer := Locking\<rparr>)"
| CloseChannel: "sk_closer s = Locking \<Longrightarrow>
    (\<And>i p. sk_senders s i = Some p \<Longrightarrow> \<not> holds_lock p) \<Longrightarrow>
    sink_step s (s\<lparr>sk_closed := True, sk_closer := Done\<rparr>)"

inductive sink_reaches :: "sink \<Rightarrow> sink \<Rightarrow> bool" where
  Start: "sink_reaches s s"
| Next: "sink_reaches s t \<Longrightarrow> sink_step t u \<Longrightarrow> sink_reaches s u"

inductive_cases sink_stepE: "sink_step s t"

lemma sink_reaches_trans: "sink_reaches t u \<Longrightarrow> sink_reaches s t \<Longrightarrow> sink_reaches s u"
  by (induction rule: sink_reaches.induct) (auto intro: sink_reaches.intros)

section \<open>The invariant\<close>

definition selecting :: "sink \<Rightarrow> nat \<Rightarrow> bool" where
  "selecting s i \<longleftrightarrow> (\<exists>ev. sk_senders s i = Some (Selecting ev))"

definition sink_inv :: "sink \<Rightarrow> bool" where
  "sink_inv s \<longleftrightarrow> \<not> sk_panic s
     \<and> (sk_stopped s \<longleftrightarrow> sk_closer s \<noteq> NotClosed)
     \<and> (sk_closed s \<longleftrightarrow> sk_closer s = Done)
     \<and> (sk_closed s \<longrightarrow> (\<forall>i. \<not> selecting s i))
     \<and> finite (dom (sk_senders s))
     \<and> sk_sent s = sk_received s @ sk_ch s
     \<and> length (sk_ch s) \<le> sk_buffer s"

lemma at_simps [simp]:
  "sk_buffer (at s i p) = sk_buffer s" "sk_ch (at s i p) = sk_ch s"
  "sk_stopped (at s i p) = sk_stopped s" "sk_closed (at s i p) = sk_closed s"
  "sk_closer (at s i p) = sk_closer s" "sk_received (at s i p) = sk_received s"
  "sk_sent (at s i p) = sk_sent s" "sk_panic (at s i p) = sk_panic s"
  "sk_senders (at s i p) = (sk_senders s)(i \<mapsto> p)"
  by (simp_all add: at_def)

lemma selecting_at [simp]:
  "selecting (at s i p) j \<longleftrightarrow> (if j = i then (\<exists>ev. p = Selecting ev) else selecting s j)"
  by (simp add: selecting_def)

lemma sink_inv_step: "sink_step s t \<Longrightarrow> sink_inv s \<Longrightarrow> sink_inv t"
proof (induction rule: sink_step.induct)
  case (DeliverClosed s i ev)
  then show ?case by (auto simp: sink_inv_def selecting_def)
next
  case (CloseChannel s)
  then have "\<not> selecting s i" for i by (fastforce simp: selecting_def)
  with CloseChannel show ?case by (simp add: sink_inv_def selecting_def)
next
  case (CloseStopped s)
  then show ?case by (simp add: sink_inv_def selecting_def)
next
  case (Receive s ev evs)
  then show ?case by (auto simp: sink_inv_def selecting_def)
next
  case (Deliver s i ev)
  then show ?case by (auto simp: sink_inv_def selecting_def)
qed (auto simp: sink_inv_def)

lemma sink_inv_reaches: "sink_reaches s t \<Longrightarrow> sink_inv s \<Longrightarrow> sink_inv t"
  by (induction rule: sink_reaches.induct) (auto dest: sink_inv_step)

lemma sink_inv_new: "sink_inv (newEventSink n)"
  by (simp add: sink_inv_def newEventSink_def selecting_def)

lemma sink_buffer_step: "sink_step s t \<Longrightarrow> sk_buffer t = sk_buffer s"
  by (induction rule: sink_step.induct) simp_all

lemma sink_buffer: "sink_reaches s t \<Longrightarrow> sk_buffer t = sk_buffer s"
  by (induction rule: sink_reaches.induct) (simp_all add: sink_buffer_step)

section \<open>Closing finishes\<close>

definition lockers :: "sink \<Rightarrow> nat set" where
  "lockers s = {i. \<exists>p. sk_senders s i = Some p \<and> holds_lock p}"

lemma leave_step:
  assumes "sk_stopped s" and "i \<in> lockers s"
  shows "sink_step s (at s i (Returned False))"
proof -
  obtain p where p: "sk_senders s i = Some p" "holds_lock p" using assms(2) by (auto simp: lockers_def)
  then show ?thesis
    using assms(1) by (cases p) (auto intro: Refuse GiveUpStopped)
qed

lemma all_leave:
  assumes "finite (lockers s)" and "sk_stopped s"
  shows "\<exists>t. sink_reaches s t \<and> lockers t = {} \<and> sk_closer t = sk_closer s \<and> sk_ch t = sk_ch s
    \<and> sk_received t = sk_received s"
  using assms
proof (induction "card (lockers s)" arbitrary: s)
  case 0
  then show ?case by (auto intro: sink_reaches.Start)
next
  case (Suc n)
  then obtain i where i: "i \<in> lockers s" by (metis card.empty ex_in_conv nat.simps(3))
  let ?s = "at s i (Returned False)"
  have l: "lockers ?s = lockers s - {i}" by (auto simp: lockers_def)
  with Suc i have "n = card (lockers ?s)" "finite (lockers ?s)" by simp_all
  with Suc.hyps(1) [of ?s] Suc.prems(2) obtain t where t: "sink_reaches ?s t" "lockers t = {}"
    "sk_closer t = sk_closer s" "sk_ch t = sk_ch s" "sk_received t = sk_received s" by auto
  have "sink_reaches s ?s"
    using leave_step [OF Suc.prems(2) i] by (auto intro: sink_reaches.intros)
  with t show ?case using sink_reaches_trans by blast
qed

section \<open>Properties\<close>

text \<open>A late sender is safe. However sends, receives and closes interleave, no goroutine
  ever sends on the closed channel, and what the receiver gets, followed by what waits in
  the channel, is what \<open>send\<close> reported as delivered, in order and at most the buffer's
  size waiting.\<close>

theorem sink_safe:
  assumes "sink_reaches (newEventSink n) s"
  shows "\<not> sk_panic s \<and> sk_sent s = sk_received s @ sk_ch s \<and> length (sk_ch s) \<le> n"
  using sink_buffer [OF assms] sink_inv_reaches [OF assms sink_inv_new]
  by (simp add: sink_inv_def newEventSink_def)

theorem sink_safe_witness: "\<not> sk_panic (newEventSink 16)"
  using sink_safe [OF sink_reaches.Start, of 16] by blast

text \<open>Closing cannot deadlock. In any reachable state in which \<open>close\<close> waits for the
  lock, even with a full channel that nobody reads and no context cancelled, the senders
  holding the lock can all return on their own, after which the channel is closed.\<close>

theorem sink_close_finishes:
  assumes "sink_reaches (newEventSink n) s" and "sk_closer s = Locking"
  shows "\<exists>t. sink_reaches s t \<and> sk_closed t \<and> sk_received t = sk_received s"
proof -
  have inv: "sink_inv s" using sink_inv_reaches [OF assms(1) sink_inv_new] .
  have "lockers s \<subseteq> dom (sk_senders s)" by (auto simp: lockers_def)
  then have "finite (lockers s)" using inv finite_subset by (auto simp: sink_inv_def)
  moreover have "sk_stopped s" using inv assms(2) by (simp add: sink_inv_def)
  ultimately obtain t where t: "sink_reaches s t" "lockers t = {}" "sk_closer t = Locking"
    "sk_received t = sk_received s" using all_leave assms(2) by metis
  have "sink_step t (t\<lparr>sk_closed := True, sk_closer := Done\<rparr>)"
    using t(2,3) by (intro CloseChannel) (auto simp: lockers_def)
  with t show ?thesis by (intro exI [of _ "t\<lparr>sk_closed := True, sk_closer := Done\<rparr>"])
      (auto intro: sink_reaches.Next)
qed

theorem sink_close_finishes_witness:
  "\<exists>t. sink_reaches ((newEventSink 0)\<lparr>sk_stopped := True, sk_closer := Locking\<rparr>) t \<and> sk_closed t"
proof -
  have "sink_reaches (newEventSink 0) ((newEventSink 0)\<lparr>sk_stopped := True, sk_closer := Locking\<rparr>)"
    by (rule sink_reaches.Next [OF sink_reaches.Start CloseStopped]) (simp add: newEventSink_def)
  from sink_close_finishes [OF this] show ?thesis by auto
qed

end
