(* ===== verification/Pipeline.thy ===== *)
theory Pipeline
  imports Lifetimes Sink
begin

text \<open>
  From the transport to the history. The transport's goroutine (\<open>Mock.run\<close>, the sync loop of
  \<open>Matrix.run\<close>) hands its events to the event sink one \<open>send\<close> after the other; other
  goroutines (the mock's replies) send too; anybody may close the sink; the session takes the
  events from the channel until its context ends or the channel is closed and empty. These are
  the steps of \<open>Sink\<close> and \<open>Daemon\<close> put together: taking an event is one step of both. A mock
  stops at the first \<open>send\<close> that is refused, Matrix goes on (\<open>persist\<close>).
\<close>

section \<open>State and steps\<close>

text \<open>What the goroutine still has to send, the call of \<open>send\<close> it is in, the events \<open>send\<close> told it
  were delivered, and how the session's \<open>Run\<close> has returned, if it has.\<close>

record 'tr pipeline =
  pl_script :: "transport_event list"
  pl_turn :: "(nat \<times> transport_event) option"
  pl_told :: "transport_event list"
  pl_sink :: sink
  pl_daemon :: "'tr daemon"
  pl_run :: "goerr option option"

definition sinkBuffer :: nat where "sinkBuffer = 16"

definition pipeline_init ::
  "'tr transport \<Rightarrow> session_options \<Rightarrow> sqlite \<Rightarrow> 'tr \<Rightarrow> transport_event list \<Rightarrow> 'tr pipeline" where
  "pipeline_init T opts db tr script =
     \<lparr>pl_script = script, pl_turn = None, pl_told = [], pl_sink = newEventSink sinkBuffer,
      pl_daemon = daemon_init T opts db tr, pl_run = None\<rparr>"

definition receive :: "sink \<Rightarrow> sink" where
  "receive s = s\<lparr>sk_ch := tl (sk_ch s), sk_received := sk_received s @ [hd (sk_ch s)]\<rparr>"

inductive pipe_step ::
  "'tr transport \<Rightarrow> session_options \<Rightarrow> gostring \<Rightarrow> bool \<Rightarrow> 'tr pipeline \<Rightarrow> 'tr pipeline \<Rightarrow> bool"
  for T opts version persist where
  Offer: "pl_turn p = None \<Longrightarrow> pl_script p = ev # evs \<Longrightarrow> sk_senders (pl_sink p) i = None \<Longrightarrow>
    pipe_step T opts version persist p
      (p\<lparr>pl_script := evs, pl_turn := Some (i, ev), pl_sink := at (pl_sink p) i (Arriving ev)\<rparr>)"
| Told: "pl_turn p = Some (i, ev) \<Longrightarrow> sk_senders (pl_sink p) i = Some (Returned ok) \<Longrightarrow>
    pipe_step T opts version persist p
      (p\<lparr>pl_turn := None, pl_told := pl_told p @ (if ok then [ev] else []),
         pl_script := (if ok \<or> persist then pl_script p else [])\<rparr>)"
| SinkWork: "sink_step (pl_sink p) s \<Longrightarrow> sk_received s = sk_received (pl_sink p) \<Longrightarrow>
    pipe_step T opts version persist p (p\<lparr>pl_sink := s\<rparr>)"
| Take: "pl_run p = None \<Longrightarrow> sk_ch (pl_sink p) = ev # evs \<Longrightarrow>
    daemon_step T opts version (pl_daemon p) (Some ev) d \<Longrightarrow>
    pipe_step T opts version persist p (p\<lparr>pl_sink := receive (pl_sink p), pl_daemon := d\<rparr>)"
| DaemonWork: "daemon_step T opts version (pl_daemon p) None d \<Longrightarrow>
    pipe_step T opts version persist p (p\<lparr>pl_daemon := d\<rparr>)"
| RunCancelled: "pl_run p = None \<Longrightarrow> d_pending (pl_daemon p) = [] \<Longrightarrow>
    pipe_step T opts version persist p (p\<lparr>pl_run := Some (Some Canceled)\<rparr>)"
| RunDrained: "pl_run p = None \<Longrightarrow> d_pending (pl_daemon p) = [] \<Longrightarrow> sk_closed (pl_sink p) \<Longrightarrow>
    sk_ch (pl_sink p) = [] \<Longrightarrow>
    pipe_step T opts version persist p (p\<lparr>pl_run := Some None\<rparr>)"

inductive pipe_reaches ::
  "'tr transport \<Rightarrow> session_options \<Rightarrow> gostring \<Rightarrow> bool \<Rightarrow> 'tr pipeline \<Rightarrow> 'tr pipeline \<Rightarrow> bool"
  for T opts version persist where
  Begin: "pipe_reaches T opts version persist p p"
| Further: "pipe_reaches T opts version persist p q \<Longrightarrow> pipe_step T opts version persist q r \<Longrightarrow>
    pipe_reaches T opts version persist p r"

lemma pipe_reaches_trans:
  "pipe_reaches T opts version persist q r \<Longrightarrow> pipe_reaches T opts version persist p q \<Longrightarrow>
     pipe_reaches T opts version persist p r"
  by (induction rule: pipe_reaches.induct) (auto intro: Further)

lemma sink_work:
  "pipe_reaches T opts version persist p q \<Longrightarrow> sink_step (pl_sink q) s \<Longrightarrow>
     sk_received s = sk_received (pl_sink q) \<Longrightarrow> pipe_reaches T opts version persist p (q\<lparr>pl_sink := s\<rparr>)"
  by (blast intro: Further SinkWork)

section \<open>The invariant\<close>

text \<open>A call of \<open>send\<close> keeps its event; it has landed when it has returned true.\<close>

fun carries :: "transport_event \<Rightarrow> sender \<Rightarrow> bool" where
  "carries ev (Arriving e) \<longleftrightarrow> e = ev"
| "carries ev (Checking e) \<longleftrightarrow> e = ev"
| "carries ev (Selecting e) \<longleftrightarrow> e = ev"
| "carries ev (Returned ok) \<longleftrightarrow> True"

definition landed :: "transport_event \<Rightarrow> sender \<Rightarrow> transport_event list" where
  "landed ev p = (if p = Returned True then [ev] else [])"

definition in_turn :: "'tr pipeline \<Rightarrow> transport_event list" where
  "in_turn p = (case pl_turn p of None \<Rightarrow> [] | Some (i, ev) \<Rightarrow> [ev])"

definition turn_inv :: "'tr pipeline \<Rightarrow> bool" where
  "turn_inv p \<longleftrightarrow>
     (case pl_turn p of
        None \<Rightarrow> subseq (pl_told p) (sk_sent (pl_sink p))
      | Some (i, ev) \<Rightarrow>
          (case sk_senders (pl_sink p) i of
             None \<Rightarrow> False
           | Some st \<Rightarrow> carries ev st \<and> subseq (pl_told p @ landed ev st) (sk_sent (pl_sink p))))"

text \<open>What the goroutine has been told, is in, and still has to send, against its whole script.\<close>

definition follows :: "bool \<Rightarrow> transport_event list \<Rightarrow> transport_event list \<Rightarrow> bool" where
  "follows persist sent script \<longleftrightarrow> (if persist then subseq sent script else prefix sent script)"

definition pipe_inv ::
  "'tr transport \<Rightarrow> session_options \<Rightarrow> gostring \<Rightarrow> bool \<Rightarrow> transport_event list \<Rightarrow> 'tr daemon
     \<Rightarrow> 'tr pipeline \<Rightarrow> bool" where
  "pipe_inv T opts version persist script d p \<longleftrightarrow>
     sink_inv (pl_sink p) \<and> sk_buffer (pl_sink p) = sinkBuffer \<and> turn_inv p
     \<and> daemon_trace T opts version d (sk_received (pl_sink p)) (pl_daemon p)
     \<and> follows persist (pl_told p @ in_turn p @ pl_script p) script
     \<and> (\<forall>r. pl_run p = Some r \<longrightarrow> real_failure r = None)"

lemma follows_front: "follows persist (xs @ ys) script \<Longrightarrow> follows persist xs script"
  using list_emb_prefix [of "(=)" xs xs ys] subseq_order.trans [of xs "xs @ ys" script]
  by (auto simp: follows_def dest: append_prefixD)

lemma follows_skip: "follows True (xs @ ev # zs) script \<Longrightarrow> follows True (xs @ zs) script"
  using subseq_order.trans [of "xs @ zs" "xs @ ev # zs" script]
    list_emb_append_mono [OF subseq_order.order_refl list_emb_Cons [OF subseq_order.order_refl], of xs zs ev]
  by (simp add: follows_def)

text \<open>Where a call of \<open>send\<close> is after a step of the sink.\<close>

lemma track_sender:
  assumes "sink_step s t" and "sk_senders s i = Some st" and "carries ev st"
    and "subseq (told @ landed ev st) (sk_sent s)"
  shows "\<exists>st'. sk_senders t i = Some st' \<and> carries ev st' \<and> subseq (told @ landed ev st') (sk_sent t)"
  using assms
proof (cases rule: sink_step.cases)
  case (Deliver j e)
  show ?thesis
  proof (cases "i = j")
    case True
    with Deliver assms have "e = ev" "subseq told (sk_sent s)" by (auto simp: landed_def)
    with True Deliver show ?thesis by (auto simp: landed_def)
  next
    case False
    with Deliver assms show ?thesis by auto
  qed
qed (auto simp: landed_def split: if_splits)

lemma untracked_sent: "sink_step s t \<Longrightarrow> subseq told (sk_sent s) \<Longrightarrow> subseq told (sk_sent t)"
  by (induction rule: sink_step.induct) auto

lemma sink_inv_receive: "sink_inv s \<Longrightarrow> sk_ch s \<noteq> [] \<Longrightarrow> sink_inv (receive s)"
  by (auto simp: receive_def sink_inv_def selecting_def)

lemma receive_simps [simp]:
  "sk_buffer (receive s) = sk_buffer s" "sk_senders (receive s) = sk_senders s"
  "sk_sent (receive s) = sk_sent s" "sk_ch (receive s) = tl (sk_ch s)" "sk_closed (receive s) = sk_closed s"
  "sk_received (receive s) = sk_received s @ [hd (sk_ch s)]"
  by (simp_all add: receive_def)

lemma turn_upd [simp]:
  "in_turn (p\<lparr>pl_sink := s\<rparr>) = in_turn p" "in_turn (p\<lparr>pl_daemon := d\<rparr>) = in_turn p"
  "in_turn (p\<lparr>pl_run := r\<rparr>) = in_turn p"
  "turn_inv (p\<lparr>pl_daemon := d\<rparr>) = turn_inv p" "turn_inv (p\<lparr>pl_run := r\<rparr>) = turn_inv p"
  "turn_inv (p\<lparr>pl_sink := receive (pl_sink p)\<rparr>) = turn_inv p"
  by (simp_all add: in_turn_def turn_inv_def split: option.split)

lemma turn_inv_told:
  assumes "turn_inv p"
  shows "subseq (pl_told p) (sk_sent (pl_sink p))"
proof -
  have "subseq (pl_told p) (sk_sent (pl_sink p))" if "subseq (pl_told p @ xs) (sk_sent (pl_sink p))" for xs
    using list_emb_prefix [OF subseq_order.order_refl, of "pl_told p" xs] that
    by (rule subseq_order.trans)
  with assms show ?thesis by (auto simp: turn_inv_def split: option.splits prod.splits)
qed

lemma turn_inv_sink:
  assumes "turn_inv p" and "sink_step (pl_sink p) s"
  shows "turn_inv (p\<lparr>pl_sink := s\<rparr>)"
proof (cases "pl_turn p")
  case None
  with assms untracked_sent [OF assms(2)] show ?thesis by (simp add: turn_inv_def)
next
  case (Some turn)
  obtain i ev where turn: "turn = (i, ev)" by fastforce
  with assms(1) Some obtain st where st: "sk_senders (pl_sink p) i = Some st" "carries ev st"
    "subseq (pl_told p @ landed ev st) (sk_sent (pl_sink p))"
    by (auto simp: turn_inv_def split: option.splits)
  from track_sender [OF assms(2) st] Some turn show ?thesis by (auto simp: turn_inv_def)
qed

lemma pipe_step_inv:
  assumes "pipe_step T opts version persist p q" and "pipe_inv T opts version persist script d p"
  shows "pipe_inv T opts version persist script d q"
  using assms
proof (induction rule: pipe_step.induct)
  case (Offer p ev evs i)
  have "sink_step (pl_sink p) (at (pl_sink p) i (Arriving ev))" by (rule Call [OF Offer(3)])
  with Offer sink_inv_step show ?case
    by (auto simp: pipe_inv_def turn_inv_def in_turn_def landed_def)
next
  case (Told p i ev ok)
  then have "turn_inv p" "follows persist (pl_told p @ ev # pl_script p) script"
    by (simp_all add: pipe_inv_def in_turn_def)
  moreover from this(2) have "follows persist (pl_told p @ (if ok then [ev] else [])
      @ (if ok \<or> persist then pl_script p else [])) script"
    using follows_front [of persist "pl_told p"] follows_skip [of "pl_told p" ev "pl_script p" script]
    by auto
  ultimately show ?case using Told
    by (auto simp: pipe_inv_def turn_inv_def in_turn_def landed_def)
next
  case (SinkWork p s)
  then have "sink_inv s" "sk_buffer s = sinkBuffer" "turn_inv (p\<lparr>pl_sink := s\<rparr>)"
    using sink_inv_step sink_buffer_step turn_inv_sink by (auto simp: pipe_inv_def)
  with SinkWork show ?case by (simp add: pipe_inv_def in_turn_def)
next
  case (Take p ev evs e)
  then have "daemon_trace T opts version d (sk_received (pl_sink p) @ [ev]) e" "sink_inv (receive (pl_sink p))"
    using sink_inv_receive [of "pl_sink p"] by (auto simp: pipe_inv_def intro: Taken)
  moreover have "turn_inv (p\<lparr>pl_sink := receive (pl_sink p), pl_daemon := e\<rparr>)"
    using Take by (simp add: pipe_inv_def)
  ultimately show ?case using Take by (simp add: pipe_inv_def)
next
  case (DaemonWork p e)
  then show ?case by (auto simp: pipe_inv_def intro: Silent)
next
  case (RunCancelled p)
  then show ?case by (auto simp: pipe_inv_def real_failure_def)
next
  case (RunDrained p)
  then show ?case by (auto simp: pipe_inv_def real_failure_def)
qed

lemma newEventSink_simps [simp]:
  "sk_buffer (newEventSink n) = n" "sk_ch (newEventSink n) = []" "sk_received (newEventSink n) = []"
  "sk_sent (newEventSink n) = []" "sk_senders (newEventSink n) = Map.empty"
  by (simp_all add: newEventSink_def)

lemma pipe_inv_init:
  "pipe_inv T opts version persist script (daemon_init T opts db tr) (pipeline_init T opts db tr script)"
  by (simp add: pipe_inv_def pipeline_init_def sink_inv_new turn_inv_def in_turn_def follows_def
      daemon_trace.Quiet)

lemma pipe_reaches_inv:
  "pipe_reaches T opts version persist p q \<Longrightarrow> pipe_inv T opts version persist script d p \<Longrightarrow>
     pipe_inv T opts version persist script d q"
  by (induction rule: pipe_reaches.induct) (auto intro: pipe_step_inv)

lemmas pipeline_inv = pipe_reaches_inv [OF _ pipe_inv_init]

section \<open>Draining\<close>

text \<open>The session can always finish its broadcasts and take the next event.\<close>

lemma flush_pending:
  "\<exists>d. pipe_reaches T opts version persist p (p\<lparr>pl_daemon := d\<rparr>) \<and> d_pending d = []"
proof (induction "d_pending (pl_daemon p)" arbitrary: p)
  case Nil
  then show ?case by (intro exI [of _ "pl_daemon p"]) (simp add: pipe_reaches.Begin)
next
  case (Cons b bs)
  let ?d = "(pl_daemon p)\<lparr>d_pending := bs, d_clients := broadcast_line (broadcast_event b) (d_clients (pl_daemon p))\<rparr>"
  let ?q = "p\<lparr>pl_daemon := ?d\<rparr>"
  have "pipe_step T opts version persist p ?q"
    using Cons(2) by (intro DaemonWork Broadcast) simp
  then have "pipe_reaches T opts version persist p ?q" by (rule Further [OF Begin])
  moreover obtain d where "pipe_reaches T opts version persist ?q (?q\<lparr>pl_daemon := d\<rparr>)" "d_pending d = []"
    using Cons(1) [of ?q] by auto
  ultimately show ?case using pipe_reaches_trans by fastforce
qed

lemma take_next:
  assumes "pl_run p = None" and "sk_ch (pl_sink p) = ev # evs" and "event_ok ev"
  shows "\<exists>d. pipe_reaches T opts version persist p (p\<lparr>pl_sink := receive (pl_sink p), pl_daemon := d\<rparr>)"
proof -
  obtain d where d: "pipe_reaches T opts version persist p (p\<lparr>pl_daemon := d\<rparr>)" "d_pending d = []"
    using flush_pending by blast
  obtain bs s st where h: "handle sqlite_store opts True ev (d_session d) (d_store d) = (bs, s, st)"
    by (metis prod_cases3)
  let ?d = "d\<lparr>d_session := s, d_store := st, d_pending := bs\<rparr>"
  have "daemon_step T opts version d (Some ev) ?d" by (rule Event [OF d(2) assms(3) h])
  with assms have "pipe_step T opts version persist (p\<lparr>pl_daemon := d\<rparr>)
      ((p\<lparr>pl_daemon := d\<rparr>)\<lparr>pl_sink := receive (pl_sink (p\<lparr>pl_daemon := d\<rparr>)), pl_daemon := ?d\<rparr>)"
    by (intro Take) auto
  with d(1) have "pipe_reaches T opts version persist p (p\<lparr>pl_sink := receive (pl_sink p), pl_daemon := ?d\<rparr>)"
    by (auto dest: Further)
  then show ?thesis by blast
qed

lemma drain:
  assumes "pl_run p = None" and "list_all event_ok (sk_ch (pl_sink p))"
  shows "\<exists>q. pipe_reaches T opts version persist p q \<and> sk_ch (pl_sink q) = []
    \<and> sk_sent (pl_sink q) = sk_sent (pl_sink p) \<and> pl_told q = pl_told p"
  using assms
proof (induction "sk_ch (pl_sink p)" arbitrary: p)
  case Nil
  then show ?case by (metis pipe_reaches.Begin)
next
  case (Cons ev evs)
  then have ok: "event_ok ev" "list_all event_ok evs" by (simp_all flip: Cons(2))
  obtain d where q: "pipe_reaches T opts version persist p (p\<lparr>pl_sink := receive (pl_sink p), pl_daemon := d\<rparr>)"
    using take_next [OF Cons.prems(1) Cons(2) [symmetric] ok(1)] by blast
  let ?q = "p\<lparr>pl_sink := receive (pl_sink p), pl_daemon := d\<rparr>"
  have ch: "evs = sk_ch (pl_sink ?q)" by (simp flip: Cons(2))
  have "list_all event_ok (sk_ch (pl_sink ?q))" using ok(2) unfolding ch .
  with Cons(1) [OF ch] Cons.prems(1) obtain r where "pipe_reaches T opts version persist ?q r"
    "sk_ch (pl_sink r) = []" "sk_sent (pl_sink r) = sk_sent (pl_sink p)" "pl_told r = pl_told p" by auto
  with q pipe_reaches_trans show ?case by blast
qed

text \<open>One event of the script all the way: offered, delivered, told, taken.\<close>

definition at_rest :: "'tr pipeline \<Rightarrow> bool" where
  "at_rest p \<longleftrightarrow> pl_turn p = None \<and> pl_run p = None \<and> \<not> sk_stopped (pl_sink p) \<and> \<not> sk_closed (pl_sink p)
     \<and> sk_ch (pl_sink p) = [] \<and> 0 < sk_buffer (pl_sink p) \<and> finite (dom (sk_senders (pl_sink p)))"

lemma event_delivered:
  assumes "at_rest p" and "pl_script p = ev # evs"
  shows "\<exists>i s. pipe_reaches T opts version persist p
      (p\<lparr>pl_script := evs, pl_turn := Some (i, ev), pl_sink := s\<rparr>)
    \<and> sk_senders s = (sk_senders (pl_sink p))(i \<mapsto> Returned True) \<and> sk_ch s = [ev]
    \<and> sk_sent s = sk_sent (pl_sink p) @ [ev] \<and> sk_received s = sk_received (pl_sink p)
    \<and> \<not> sk_stopped s \<and> \<not> sk_closed s \<and> 0 < sk_buffer s"
proof -
  let ?reaches = "pipe_reaches T opts version persist" and ?s = "pl_sink p"
  have rest: "\<not> sk_stopped ?s" "\<not> sk_closed ?s" "sk_ch ?s = []" "0 < sk_buffer ?s" "pl_turn p = None"
    using assms(1) by (simp_all add: at_rest_def)
  have "dom (sk_senders ?s) \<noteq> UNIV" using assms(1) by (metis at_rest_def infinite_UNIV_nat)
  then obtain i where i: "sk_senders ?s i = None" by auto
  define s1 where "s1 = at ?s i (Arriving ev)"
  define s2 where "s2 = at s1 i (Checking ev)"
  define s3 where "s3 = at s2 i (Selecting ev)"
  define s4 where "s4 = at (s3\<lparr>sk_ch := sk_ch s3 @ [ev], sk_sent := sk_sent s3 @ [ev]\<rparr>) i (Returned True)"
  note ss = s4_def s3_def s2_def s1_def
  define p1 where "p1 = p\<lparr>pl_script := evs, pl_turn := Some (i, ev), pl_sink := s1\<rparr>"
  have "?reaches p p1"
    unfolding p1_def s1_def by (rule Further [OF Begin Offer [OF rest(5) assms(2) i]])
  moreover have "sink_step s1 s2" unfolding s2_def by (rule RLock) (simp add: s1_def)
  moreover have "sink_step s2 s3" unfolding s3_def
    by (rule Pass) (use rest in \<open>simp_all add: s2_def s1_def\<close>)
  moreover have "sink_step s3 s4" unfolding s4_def
    by (rule Deliver) (use rest in \<open>simp_all add: s3_def s2_def s1_def\<close>)
  ultimately have "?reaches p (p1\<lparr>pl_sink := s4\<rparr>)"
    using sink_work [of T opts version persist p p1 s2]
      sink_work [of T opts version persist p "p1\<lparr>pl_sink := s2\<rparr>" s3]
      sink_work [of T opts version persist p "p1\<lparr>pl_sink := s3\<rparr>" s4]
    by (simp add: p1_def ss)
  then show ?thesis using rest by (intro exI [of _ i] exI [of _ s4]) (simp add: p1_def ss)
qed

lemma event_goes_through:
  assumes "at_rest p" and "pl_script p = ev # evs" and "event_ok ev"
  shows "\<exists>q. pipe_reaches T opts version persist p q \<and> at_rest q \<and> pl_script q = evs
    \<and> pl_told q = pl_told p @ [ev] \<and> sk_received (pl_sink q) = sk_received (pl_sink p) @ [ev]"
proof -
  let ?reaches = "pipe_reaches T opts version persist"
  obtain i s where s: "?reaches p (p\<lparr>pl_script := evs, pl_turn := Some (i, ev), pl_sink := s\<rparr>)"
    "sk_senders s = (sk_senders (pl_sink p))(i \<mapsto> Returned True)" "sk_ch s = [ev]"
    "sk_received s = sk_received (pl_sink p)" "\<not> sk_stopped s" "\<not> sk_closed s" "0 < sk_buffer s"
    using event_delivered [OF assms(1,2)] by blast
  define p1 where "p1 = p\<lparr>pl_script := evs, pl_turn := Some (i, ev), pl_sink := s\<rparr>"
  define p2 where "p2 = p1\<lparr>pl_turn := None, pl_told := pl_told p @ [ev], pl_script := evs\<rparr>"
  have "pipe_step T opts version persist p1 p2"
    using Told [of p1 i ev True T opts version persist] s(2) by (simp add: p1_def p2_def)
  then have "?reaches p p2" using s(1) by (auto simp: p1_def intro: Further)
  moreover have p2: "pl_run p2 = None" "sk_ch (pl_sink p2) = [ev]"
    using assms(1) s(3) by (simp_all add: p2_def p1_def at_rest_def)
  moreover obtain d where "?reaches p2 (p2\<lparr>pl_sink := receive (pl_sink p2), pl_daemon := d\<rparr>)"
    using take_next [OF p2 assms(3)] by blast
  ultimately have "?reaches p (p2\<lparr>pl_sink := receive (pl_sink p2), pl_daemon := d\<rparr>)"
    using pipe_reaches_trans by blast
  moreover have "sk_stopped (receive s) = sk_stopped s" by (simp add: receive_def)
  ultimately show ?thesis
    using assms(1) s by (intro exI [of _ "p2\<lparr>pl_sink := receive (pl_sink p2), pl_daemon := d\<rparr>"])
      (auto simp: at_rest_def p1_def p2_def)
qed

lemma script_goes_through:
  assumes "at_rest p" and "list_all event_ok (pl_script p)"
  shows "\<exists>q. pipe_reaches T opts version persist p q \<and> pl_script q = []
    \<and> pl_told q = pl_told p @ pl_script p \<and> sk_received (pl_sink q) = sk_received (pl_sink p) @ pl_script p"
  using assms
proof (induction "pl_script p" arbitrary: p)
  case Nil
  then show ?case by (intro exI [of _ p]) (auto intro: Begin)
next
  case (Cons ev evs)
  then have ok: "event_ok ev" "list_all event_ok evs" by (simp_all flip: Cons(2))
  obtain q where q: "pipe_reaches T opts version persist p q" "at_rest q" "evs = pl_script q"
    "pl_told q = pl_told p @ [ev]" "sk_received (pl_sink q) = sk_received (pl_sink p) @ [ev]"
    using event_goes_through [OF Cons.prems(1) Cons(2) [symmetric] ok(1)] by metis
  have "list_all event_ok (pl_script q)" using ok(2) unfolding q(3) .
  from Cons(1) [OF q(3,2) this] obtain r where "pipe_reaches T opts version persist q r"
    "pl_script r = []" "pl_told r = pl_told q @ pl_script q"
    "sk_received (pl_sink r) = sk_received (pl_sink q) @ pl_script q" by blast
  with q(1) pipe_reaches_trans [of T opts version persist q r p] q(3-5) show ?case
    by (intro exI [of _ r]) (simp flip: Cons(2))
qed

section \<open>Properties\<close>

text \<open>C6: nothing is lost, invented or reordered between the transport and the history. However
  the goroutines interleave, the histories are the log of a prefix of the events that went
  into the channel, at most 16 of these are still on their way, and the events \<open>send\<close> reported
  as delivered went in, in the order of the transport's script: all of the script so far for a
  mock, a subsequence for Matrix, which goes on after a refusal. The end of the session's
  \<open>Run\<close> is never reported as a failure.\<close>

theorem pipeline_end_to_end:
  assumes "pipe_reaches T opts version persist (pipeline_init T opts db tr script) p" and "sq_reliable db"
  shows "a_log (sq_abs (d_store (pl_daemon p)))
      = log_messages (sq_cap db) (received opts (sk_received (pl_sink p))) (a_log (sq_abs db))
    \<and> sk_sent (pl_sink p) = sk_received (pl_sink p) @ sk_ch (pl_sink p) \<and> length (sk_ch (pl_sink p)) \<le> 16
    \<and> subseq (pl_told p) (sk_sent (pl_sink p))
    \<and> (if persist then subseq (pl_told p) script else prefix (pl_told p) script)
    \<and> \<not> sk_panic (pl_sink p) \<and> (\<forall>r. pl_run p = Some r \<longrightarrow> real_failure r = None)"
proof -
  have inv: "pipe_inv T opts version persist script (daemon_init T opts db tr) p"
    by (rule pipeline_inv [OF assms(1)])
  then have "subseq (pl_told p) (sk_sent (pl_sink p))" by (intro turn_inv_told) (simp add: pipe_inv_def)
  moreover have "follows persist (pl_told p) script"
    using inv follows_front [of persist "pl_told p" "in_turn p @ pl_script p" script]
    by (simp add: pipe_inv_def)
  moreover have "a_log (sq_abs (d_store (pl_daemon p)))
      = log_messages (sq_cap db) (received opts (sk_received (pl_sink p))) (a_log (sq_abs db))"
    using inv trace_reliable [of T opts version "daemon_init T opts db tr"] assms(2)
    by (simp add: pipe_inv_def daemon_init_store)
  ultimately show ?thesis
    using inv by (simp add: pipe_inv_def sink_inv_def sinkBuffer_def follows_def)
qed

definition two_events :: "transport_event list" where
  "two_events = [EventConnected True, EventMessage (sample_message ''e1'' False)]"

abbreviation small_pipeline :: "unit pipeline" where
  "small_pipeline \<equiv>
     pipeline_init refusing_transport plain_options (OpenSQLite 2 (sq_fresh (\<lambda>_. None))) () two_events"

lemma small_pipeline_ready:
  "at_rest small_pipeline" "pl_script small_pipeline = two_events" "list_all event_ok two_events"
  "sk_sent (pl_sink small_pipeline) = []" "pl_run small_pipeline = None"
  by (simp_all add: at_rest_def pipeline_init_def sinkBuffer_def two_events_def sample_message_def)
    (simp_all add: newEventSink_def)

theorem pipeline_end_to_end_witness:
  "\<exists>p. pipe_reaches refusing_transport plain_options [] False small_pipeline p \<and> pl_told p = two_events
     \<and> a_log (sq_abs (d_store (pl_daemon p))) = log_messages 2 (received plain_options two_events) (\<lambda>_. [])
     \<and> map mEvent (received plain_options two_events) = [''e1'']"
proof -
  let ?db = "OpenSQLite 2 (sq_fresh (\<lambda>_. None))"
  obtain p where p: "pipe_reaches refusing_transport plain_options [] False small_pipeline p"
    "pl_told p = two_events" "sk_received (pl_sink p) = two_events"
    using script_goes_through [OF small_pipeline_ready(1), of refusing_transport plain_options "[]" False]
      small_pipeline_ready(2,3) by (auto simp: pipeline_init_def)
  have "a_log (sq_abs ?db) = (\<lambda>_. [])" by (rule ext) (simp add: abs_open store_simps)
  moreover have "sq_cap ?db = 2" by (simp add: sq_cap_def OpenSQLite_def)
  moreover have "map mEvent (received plain_options two_events) = [''e1'']"
    by (simp add: two_events_def sample_message_def)
  ultimately show ?thesis using pipeline_end_to_end [OF p(1) reliable_open] p by (intro exI [of _ p]) simp
qed

text \<open>C37: a delivered event gets through while the session runs. From every state that can be
  reached in which the session's \<open>Run\<close> has not returned and every message in the channel has an
  event ID, even after the sink was closed, there is a way on that takes everything that is in
  the channel, without a new send; on a database that does not fail, the histories are then
  the log of all events that went in, those \<open>send\<close> reported among them. After a cancelled
  \<open>Run\<close> what is left in the channel is lost.\<close>

theorem pipeline_drains:
  assumes "pipe_reaches T opts version persist (pipeline_init T opts db tr script) p" and "sq_reliable db"
    and "pl_run p = None" and "list_all event_ok (sk_ch (pl_sink p))"
  shows "\<exists>q. pipe_reaches T opts version persist p q \<and> sk_ch (pl_sink q) = []
    \<and> sk_sent (pl_sink q) = sk_sent (pl_sink p) \<and> pl_told q = pl_told p
    \<and> subseq (pl_told p) (sk_sent (pl_sink p))
    \<and> a_log (sq_abs (d_store (pl_daemon q)))
        = log_messages (sq_cap db) (received opts (sk_sent (pl_sink p))) (a_log (sq_abs db))"
proof -
  obtain q where q: "pipe_reaches T opts version persist p q" "sk_ch (pl_sink q) = []"
    "sk_sent (pl_sink q) = sk_sent (pl_sink p)" "pl_told q = pl_told p"
    using drain [OF assms(3,4)] by blast
  have "pipe_inv T opts version persist script (daemon_init T opts db tr) q"
    using pipeline_inv [OF pipe_reaches_trans [OF q(1) assms(1)]] .
  moreover from this have "sk_sent (pl_sink q) = sk_received (pl_sink q)"
    using q(2) by (simp add: pipe_inv_def sink_inv_def)
  ultimately have "a_log (sq_abs (d_store (pl_daemon q)))
      = log_messages (sq_cap db) (received opts (sk_sent (pl_sink p))) (a_log (sq_abs db))"
    using trace_reliable [of T opts version "daemon_init T opts db tr"] assms(2) q(3)
    by (simp add: pipe_inv_def daemon_init_store)
  moreover have "subseq (pl_told p) (sk_sent (pl_sink p))"
    using pipeline_inv [OF assms(1)] by (intro turn_inv_told) (simp add: pipe_inv_def)
  ultimately show ?thesis using q by blast
qed

theorem pipeline_drains_witness:
  "\<exists>p q. pipe_reaches refusing_transport plain_options [] False small_pipeline p
     \<and> pipe_reaches refusing_transport plain_options [] False p q
     \<and> sk_ch (pl_sink p) = [EventConnected True] \<and> sk_ch (pl_sink q) = []"
proof -
  have "pl_script small_pipeline = EventConnected True # tl two_events"
    using small_pipeline_ready(2) by (simp add: two_events_def)
  from event_delivered [OF small_pipeline_ready(1) this] obtain i s where
    s: "pipe_reaches refusing_transport plain_options [] False small_pipeline
      (small_pipeline\<lparr>pl_script := tl two_events, pl_turn := Some (i, EventConnected True), pl_sink := s\<rparr>)"
      "sk_ch s = [EventConnected True]" by blast
  let ?p = "small_pipeline\<lparr>pl_script := tl two_events, pl_turn := Some (i, EventConnected True), pl_sink := s\<rparr>"
  have "pl_run ?p = None" "list_all event_ok (sk_ch (pl_sink ?p))"
    using small_pipeline_ready(5) s(2) by simp_all
  from pipeline_drains [OF s(1) reliable_open this] obtain q where
    "pipe_reaches refusing_transport plain_options [] False ?p q" "sk_ch (pl_sink q) = []" by blast
  moreover have "sk_ch (pl_sink ?p) = [EventConnected True]" using s(2) by simp
  ultimately show ?thesis using s(1) by blast
qed

end
