(* ===== verification/Delivery.thy ===== *)
theory Delivery
  imports Lifetimes
begin

text \<open>
  From the daemon to a frontend: which messages a client reads. The lines for a client are those
  its writer has written and those waiting in its queue; the lines that show a message are the
  ones a reader of JSON sees the tag of a message event in. Followed through the steps of
  \<open>Daemon\<close>, these are the messages the histories are the log of, but for those too long for a line,
  as far as the queue held them.
\<close>

section \<open>The lines that show a message\<close>

definition shows_message :: "gostring \<Rightarrow> bool" where
  "shows_message line \<longleftrightarrow>
     (case unmarshal (butlast line) of
        Some (JObj kvs) \<Rightarrow> map_of kvs ''t'' = Some (JStr EvMessage)
      | _ \<Rightarrow> False)"

text \<open>A message whose event is too long for a line is stored like any other, but never sent.\<close>

definition fits :: "message \<Rightarrow> bool" where
  "fits m \<longleftrightarrow> (case encode (NewMessage m) of Inl err \<Rightarrow> False | Inr line \<Rightarrow> True)"

definition line_of :: "message \<Rightarrow> gostring" where
  "line_of m = (case encode (NewMessage m) of Inl err \<Rightarrow> [] | Inr line \<Rightarrow> line)"

definition message_lines :: "message list \<Rightarrow> gostring list" where
  "message_lines ms = map line_of (filter fits ms)"

definition shown :: "client \<Rightarrow> gostring list \<Rightarrow> gostring list" where
  "shown c written = filter shows_message (written @ c_out c)"


lemma message_lines_append [simp]: "message_lines (xs @ ys) = message_lines xs @ message_lines ys"
  by (simp add: message_lines_def)

lemma message_lines_simps [simp]:
  "message_lines [] = []"
  "message_lines [m] = (case encode (NewMessage m) of Inl err \<Rightarrow> [] | Inr line \<Rightarrow> [line])"
  by (simp_all add: message_lines_def fits_def line_of_def split: sum.split)




section \<open>What passes through a queue\<close>

text \<open>A client after the message lines \<open>ls\<close> were queued for it, among others: what is missing was
  dropped, and counted.\<close>

definition passes :: "gostring list \<Rightarrow> gostring list \<Rightarrow> client \<Rightarrow> client \<Rightarrow> bool" where
  "passes w ls c c' \<longleftrightarrow> queue_ok c' \<and> \<not> c_closed c' \<and> c_hello c' \<and> c_dropped c \<le> c_dropped c'
     \<and> subseq (shown c' w) (shown c w @ ls)
     \<and> length (shown c w @ ls) + c_dropped c \<le> length (shown c' w) + c_dropped c'"

definition listens :: "client \<Rightarrow> bool" where
  "listens c \<longleftrightarrow> queue_ok c \<and> \<not> c_closed c \<and> c_hello c"

lemma passes_refl: "listens c \<Longrightarrow> passes w [] c c"
  by (simp add: passes_def listens_def)




text \<open>The same for client \<open>i\<close> among all.\<close>

definition all_pass :: "nat \<Rightarrow> gostring list \<Rightarrow> gostring list \<Rightarrow> clients \<Rightarrow> clients \<Rightarrow> bool" where
  "all_pass i w ls cs cs' \<longleftrightarrow>
     (\<forall>c. cs i = Some c \<and> listens c \<longrightarrow> (\<exists>c'. cs' i = Some c' \<and> passes w ls c c'))"

lemma all_pass_refl [simp]: "all_pass i w [] cs cs"
  by (simp add: all_pass_def passes_refl)







lemma no_message [simp]:
  "NewReady i c d \<noteq> Message m" "NewAck i ev \<noteq> Message m" "NewRooms i rs \<noteq> Message m"
  "NewHistory i r ms \<noteq> Message m" "NewError i code msg \<noteq> Message m"
  by (simp_all add: new_defs)


section \<open>Following one client through a run\<close>










section \<open>Properties\<close>





end
