(* ===== verification/Serial.thy ===== *)
theory Serial
  imports Lifetimes
begin

text \<open>
  The whole of the store over the daemon's life, read markers included: whatever the goroutines of
  \<open>Daemon\<close> do, the database is what some one-after-the-other order of store operations makes of it,
  namely the messages received, each followed by its read mark when it is the user's own, and the
  read marks frontends commanded.
\<close>

section \<open>The operations\<close>

definition a_after :: "nat \<Rightarrow> store_op list \<Rightarrow> astore \<Rightarrow> astore" where
  "a_after c ops a = fold (\<lambda>p a. snd (a_exec c p a)) ops a"

text \<open>What happened: a message received, or a read mark commanded.\<close>

datatype happening = Got message | Read gostring gostring

fun does :: "happening \<Rightarrow> store_op list" where
  "does (Got m) = OpAppend m # (if mOwn m then [OpMark (mRoom m) (mEvent m)] else [])"
| "does (Read r ev) = [OpMark r ev]"

fun gotten :: "happening list \<Rightarrow> message list" where
  "gotten [] = []"
| "gotten (Got m # hs) = m # gotten hs"
| "gotten (Read r ev # hs) = gotten hs"

fun about_known :: "session \<Rightarrow> happening \<Rightarrow> bool" where
  "about_known s (Got m) \<longleftrightarrow> Knows (mRoom m) s"
| "about_known s (Read r ev) \<longleftrightarrow> Knows r s"

definition does_all :: "happening list \<Rightarrow> store_op list" where
  "does_all hs = concat (map does hs)"

lemma a_after_append: "a_after c (xs @ ys) a = a_after c ys (a_after c xs a)"
  by (simp add: a_after_def)

lemma does_all_append: "does_all (xs @ ys) = does_all xs @ does_all ys"
  by (simp add: does_all_def)

lemma gotten_append: "gotten (xs @ ys) = gotten xs @ gotten ys"
  by (induction xs rule: gotten.induct) simp_all

lemma does_one:
  "a_after c (does_all [Got m]) a = (if mOwn m then a_mark (mRoom m) (mEvent m) else (\<lambda>a. a)) (a_append c m a)"
  "a_after c (does_all [Read r ev]) a = a_mark r ev a"
  by (simp_all add: a_after_def does_all_def)

section \<open>A command\<close>

text \<open>The read mark a line commands: a well-formed \<open>mark_read\<close> of a client that has said hello, for a
  named room the session knows.\<close>

definition commanded :: "session \<Rightarrow> clients \<Rightarrow> nat \<Rightarrow> gostring \<Rightarrow> happening list" where
  "commanded s cs i line =
     (case decode_command line of
        None \<Rightarrow> []
      | Some cmd \<Rightarrow>
          if is_greeted i cs \<and> cT cmd = CmdMarkRead \<and> cRoom cmd \<noteq> [] \<and> Knows (cRoom cmd) s
          then [Read (cRoom cmd) (cEvent cmd)] else [])"

context reliable_store
begin

lemma mark_exact:
  assumes "inv st" and "MarkRead T ops b r ev s st tr = (e, bs, st', tr')"
  shows "abs st' = a_mark r ev (abs st)"
proof -
  obtain st1 where m: "SetReadMarker ops r ev st = (None, st1)"
    using mark_total [OF assms(1), of r ev] by (cases "SetReadMarker ops r ev st") auto
  obtain e2 tr1 where t: "tMarkRead T r ev tr = (e2, tr1)" by fastforce
  obtain bs1 st2 where an: "announceRoom ops r s st1 = (bs1, st2)" by fastforce
  have one: "inv st1" "abs st1 = a_mark r ev (abs st)" using mark_ok [OF assms(1) m] by simp_all
  from announce_contract [OF one(1) an] one(2) m t an assms(2) show ?thesis
    by (auto simp: MarkRead_def split: option.splits if_splits)
qed

text \<open>A line does to the store what it commands, and nothing else.\<close>

lemma dispatch_exact:
  assumes "inv st" and "dispatch (session_handler T ops) v i line cs (s, st, tr) = (ok, cs', (s', st', tr'))"
  shows "abs st' = a_after c (does_all (commanded s cs i line)) (abs st)"
proof (cases "decode_command line")
  case None
  with assms(2) show ?thesis by (simp add: dispatch_def commanded_def a_after_def does_all_def)
next
  case (Some cmd)
  show ?thesis
  proof (cases "is_greeted i cs \<and> cT cmd = CmdMarkRead \<and> cRoom cmd \<noteq> [] \<and> Knows (cRoom cmd) s")
    case True
    obtain e bs st1 tr1 where m: "MarkRead T ops True (cRoom cmd) (cEvent cmd) s st tr = (e, bs, st1, tr1)"
      by (metis prod_cases4)
    from True Some m assms(2) have "st' = st1"
      by (cases e) (auto simp: dispatch_def handleMarkRead_def session_handler_def cmd_defs)
    with mark_exact [OF assms(1) m] True Some show ?thesis by (simp add: commanded_def does_one)
  next
    case False
    have none: "commanded s cs i line = []" unfolding commanded_def by (simp add: Some False)
    from assms False Some have "abs st' = abs st"
      by (auto simp: dispatch_def handleHello_def handleSend_def handleMarkRead_def handleHistory_def handleRooms_def
          session_handler_def History_def Rooms_def
          dest: recent_frame rooms_frame
          split: option.splits if_splits prod.splits sum.splits)
    then show ?thesis unfolding none by (simp add: a_after_def does_all_def)
  qed
qed

end

section \<open>A run with its story\<close>

text \<open>A step by which a reader handles a line (the rule \<open>Line\<close> of the daemon).\<close>

definition handles ::
  "'tr transport \<Rightarrow> gostring \<Rightarrow> 'tr daemon \<Rightarrow> nat \<Rightarrow> gostring \<Rightarrow> 'tr daemon \<Rightarrow> bool" where
  "handles T version d i line e \<longleftrightarrow>
     d_reader d i = Some Reading \<and> line \<noteq> [] \<and> good_hello line = None \<and>
     (case dispatch (session_handler T sqlite_store) version i line (d_clients d)
        (d_session d, d_store d, d_transport d) of
        (ok, cs, (s, st, tr)) \<Rightarrow>
          e = d\<lparr>d_clients := cs, d_session := s, d_store := st, d_transport := tr,
                d_reader := (d_reader d)(i \<mapsto> (if ok then Reading else Ended))\<rparr>)"

text \<open>The runs of the daemon with what happened in them: a message when an event brings one, a read
  mark when a line that is handled commands one, and nothing in any other step.\<close>

inductive daemon_story ::
  "'tr transport \<Rightarrow> session_options \<Rightarrow> gostring \<Rightarrow> 'tr daemon \<Rightarrow> happening list \<Rightarrow> 'tr daemon \<Rightarrow> bool"
  for T opts version where
  Begun: "daemon_story T opts version d [] d"
| Heard: "daemon_story T opts version d hs e \<Longrightarrow> daemon_step T opts version e (Some ev) f \<Longrightarrow>
    daemon_story T opts version d (hs @ map Got (received opts [ev])) f"
| Handled: "daemon_story T opts version d hs e \<Longrightarrow> handles T version e i line f \<Longrightarrow>
    daemon_story T opts version d (hs @ commanded (d_session e) (d_clients e) i line) f"
| Unheard: "daemon_story T opts version d hs e \<Longrightarrow> daemon_step T opts version e None f \<Longrightarrow>
    \<forall>i line. \<not> handles T version e i line f \<Longrightarrow> daemon_story T opts version d hs f"

text \<open>Lifetimes, with the capacity and the story of each.\<close>

inductive life_stories :: "'tr transport \<Rightarrow> sqlite \<Rightarrow> (nat \<times> happening list) list \<Rightarrow> sqlite \<Rightarrow> bool" for T where
  Untold: "life_stories T db [] db"
| Told: "life_stories T db stories db1 \<Longrightarrow> w_db w = (\<lambda>_. Inr db1) \<Longrightarrow>
    boot w socket path = Inr (cfg, tr, OpenedSQLite db2, sv) \<Longrightarrow>
    daemon_story T (sessionOptions cfg) version (daemon_init T (sessionOptions cfg) db2 t) hs d \<Longrightarrow>
    life_stories T db (stories @ [(nat (dc_HistoryCapacity (cfg_Daemon cfg)), hs)]) (d_store d)"

lemma handles_step: "handles T version d i line e \<Longrightarrow> daemon_step T opts version d None e"
proof -
  assume h: "handles T version d i line e"
  obtain ok cs s st tr where r: "dispatch (session_handler T sqlite_store) version i line (d_clients d)
      (d_session d, d_store d, d_transport d) = (ok, cs, (s, st, tr))" by (metis prod_cases5)
  with h have "d_reader d i = Some Reading" "line \<noteq> []" "good_hello line = None" by (simp_all add: handles_def)
  from Line [OF this r] h r show ?thesis by (simp add: handles_def)
qed

lemma step_handles:
  assumes "daemon_step T opts version d None e"
  shows "(\<exists>i line. handles T version d i line e) \<or> d_store e = d_store d"
  using assms
proof (cases rule: daemon_step.cases)
  case (Line i line ok cs s st tr)
  then have "handles T version d i line e" by (simp add: handles_def)
  then show ?thesis by blast
qed auto

lemma gotten_got: "gotten (map Got ms) = ms"
  by (induction ms) simp_all

lemma gotten_commanded: "gotten (commanded s cs i line) = []"
  by (simp add: commanded_def split: option.split)

text \<open>Every run has a story, and every story is one of a run.\<close>

lemma story_of_trace:
  "daemon_trace T opts version d evs e \<Longrightarrow> \<exists>hs. daemon_story T opts version d hs e \<and> gotten hs = received opts evs"
proof (induction rule: daemon_trace.induct)
  case (Quiet d)
  show ?case by (intro exI [of _ "[]"]) (simp add: Begun)
next
  case (Silent d evs e f)
  then obtain hs where hs: "daemon_story T opts version d hs e" "gotten hs = received opts evs" by blast
  show ?case
  proof (cases "\<exists>i line. handles T version e i line f")
    case True
    then obtain i line where "handles T version e i line f" by blast
    from Handled [OF hs(1) this] hs(2) show ?thesis
      by (intro exI [of _ "hs @ commanded (d_session e) (d_clients e) i line"])
        (simp add: gotten_append gotten_commanded)
  next
    case False
    from Unheard [OF hs(1) Silent(2)] False hs(2) show ?thesis by blast
  qed
next
  case (Taken d evs e ev f)
  then obtain hs where hs: "daemon_story T opts version d hs e" "gotten hs = received opts evs" by blast
  from Heard [OF hs(1) Taken(2)] hs(2) show ?case
    by (intro exI [of _ "hs @ map Got (received opts [ev])"])
      (simp add: gotten_append gotten_got received_append del: received.simps)
qed

lemma trace_of_story:
  "daemon_story T opts version d hs e \<Longrightarrow> \<exists>evs. daemon_trace T opts version d evs e \<and> gotten hs = received opts evs"
proof (induction rule: daemon_story.induct)
  case (Begun d)
  show ?case by (intro exI [of _ "[]"]) (simp add: Quiet)
next
  case (Heard d hs e ev f)
  then obtain evs where tr: "daemon_trace T opts version d evs e" "gotten hs = received opts evs" by blast
  from Taken [OF tr(1) Heard(2)] tr(2) show ?case
    by (intro exI [of _ "evs @ [ev]"]) (simp add: gotten_append gotten_got received_append del: received.simps)
next
  case (Handled d hs e i line f)
  then obtain evs where tr: "daemon_trace T opts version d evs e" "gotten hs = received opts evs" by blast
  from Silent [OF tr(1) handles_step [OF Handled(2)]] tr(2) show ?case
    by (intro exI [of _ evs]) (simp add: gotten_append gotten_commanded)
next
  case (Unheard d hs e f)
  then show ?case by (blast intro: Silent)
qed

lemma story_exact:
  assumes "daemon_story T opts version d hs e" and "sq_reliable (d_store d)"
  shows "sq_reliable (d_store e) \<and> sq_cap (d_store e) = sq_cap (d_store d)
    \<and> sq_abs (d_store e) = a_after (sq_cap (d_store d)) (does_all hs) (sq_abs (d_store d))"
  using assms
proof (induction rule: daemon_story.induct)
  case (Begun d)
  then show ?case by (simp add: a_after_def does_all_def)
next
  case (Heard d hs e ev f)
  then have e: "sq_reliable (d_store e)" "sq_cap (d_store e) = sq_cap (d_store d)"
    "sq_abs (d_store e) = a_after (sq_cap (d_store d)) (does_all hs) (sq_abs (d_store d))" by simp_all
  from Heard(2) obtain bs s st where h: "event_ok ev"
    "handle sqlite_store opts True ev (d_session e) (d_store e) = (bs, s, st)" "d_store f = st" by (rule event_step)
  have "sq_abs st = a_after (sq_cap (d_store e)) (does_all (map Got (received opts [ev]))) (sq_abs (d_store e))"
  proof (cases ev)
    case (EventConnected c)
    with h show ?thesis by (simp add: a_after_def does_all_def)
  next
    case (EventMessage m)
    with h sqr.ingest_effect [OF e(1), of m opts "d_session e"] show ?thesis by (auto simp: does_one)
  qed
  with event_step_reliable [OF Heard(2) e(1)] e h(3) show ?case by (simp add: does_all_append a_after_append)
next
  case (Handled d hs e i line f)
  then have e: "sq_reliable (d_store e)" "sq_cap (d_store e) = sq_cap (d_store d)"
    "sq_abs (d_store e) = a_after (sq_cap (d_store d)) (does_all hs) (sq_abs (d_store d))" by simp_all
  obtain ok cs s st tr where h: "dispatch (session_handler T sqlite_store) version i line (d_clients e)
      (d_session e, d_store e, d_transport e) = (ok, cs, (s, st, tr))" by (metis prod_cases5)
  with Handled(2) have "d_store f = st" by (simp add: handles_def)
  with sqr.dispatch_exact [OF e(1) h] dispatch_reliable [OF e(1) h] e(2,3) show ?case
    by (simp add: does_all_append a_after_append)
next
  case (Unheard d hs e f)
  with step_handles [OF Unheard(2)] show ?case by auto
qed

lemma stories_of_lifetimes:
  "lifetimes T db lives db' \<Longrightarrow> \<exists>stories. life_stories T db stories db' \<and> map (\<lambda>(c, hs). (c, gotten hs)) stories = lives"
proof (induction rule: lifetimes.induct)
  case (Unborn db)
  then show ?case using Untold [of T db] by (intro exI [of _ "[]"]) simp
next
  case (Life db lives db1 w socket path cfg tr db2 sv version t evs d)
  then obtain stories where s: "life_stories T db stories db1" "map (\<lambda>(c, hs). (c, gotten hs)) stories = lives" by blast
  obtain hs where hs: "daemon_story T (sessionOptions cfg) version (daemon_init T (sessionOptions cfg) db2 t) hs d"
    "gotten hs = received (sessionOptions cfg) evs" using story_of_trace [OF Life(4)] by blast
  from Told [OF s(1) Life(2,3) hs(1)] s(2) hs(2) show ?case by (intro exI conjI) auto
qed

lemma lifetimes_of_stories:
  "life_stories T db stories db' \<Longrightarrow> lifetimes T db (map (\<lambda>(c, hs). (c, gotten hs)) stories) db'"
proof (induction rule: life_stories.induct)
  case (Untold db)
  then show ?case by (simp add: Unborn)
next
  case (Told db stories db1 w socket path cfg tr db2 sv version t hs d)
  obtain evs where "daemon_trace T (sessionOptions cfg) version (daemon_init T (sessionOptions cfg) db2 t) evs d"
    "gotten hs = received (sessionOptions cfg) evs" using trace_of_story [OF Told(4)] by blast
  with Life [OF Told(5,2,3)] show ?case by fastforce
qed

lemma stories_exact:
  "life_stories T db stories db' \<Longrightarrow> sq_reliable db \<Longrightarrow>
     sq_reliable db' \<and> sq_abs db' = fold (\<lambda>(c, hs). a_after c (does_all hs)) stories (sq_abs db)"
proof (induction rule: life_stories.induct)
  case (Untold db)
  then show ?case by simp
next
  case (Told db stories db1 w socket path cfg tr db2 sv version t hs d)
  note b = boot_store [OF Told(3,2)]
  from story_exact [OF Told(4)] b Told.IH Told.prems show ?case by (simp add: daemon_init_store)
qed

section \<open>Properties\<close>

text \<open>C3: the store is a serial log, read marks included. A story of a lifetime is the list of what
  happened in it, in the order it happened: each message that came, as the session takes it, and a
  read mark for each line that was handled and was a \<open>mark_read\<close>, from a client that had said hello,
  of a room the session knew then. Every run of lifetimes, with any configurations, frontends and
  interleavings, has such a story, and for every story it has: doing its things one after the
  other, each in one go (a message of the user's own also marks itself read), on the store the first
  lifetime found makes exactly the store the last one left. What the database answers to a count of
  unread messages, or to a history of any length, is the answer of that store. (The statements of the
  database are taken not to fail.)\<close>

theorem store_serializes:
  assumes "lifetimes T db lives db'" and "sq_reliable db"
  shows "(\<exists>stories. life_stories T db stories db' \<and> map (\<lambda>(c, hs). (c, gotten hs)) stories = lives)
    \<and> (\<forall>stories. life_stories T db stories db' \<longrightarrow>
         sq_abs db' = fold (\<lambda>(c, hs). a_after c (does_all hs)) stories (sq_abs db))
    \<and> (\<forall>r limit. fst (UnreadCount sqlite_store r db') = Inr (a_unread r (sq_abs db'))
         \<and> fst (RecentMessages sqlite_store r limit db') = Inr (a_recent r limit (sq_abs db')))"
proof -
  have rel: "sq_reliable db'" using stories_of_lifetimes [OF assms(1)] stories_exact [OF _ assms(2)] by blast
  have "fst (UnreadCount sqlite_store r db') = Inr (a_unread r (sq_abs db'))" for r
    using sqr.exec_refines [OF rel, of "OpUnread r"] by (cases "UnreadCount sqlite_store r db'") auto
  moreover have "fst (RecentMessages sqlite_store r limit db') = Inr (a_recent r limit (sq_abs db'))" for r limit
    using sqr.exec_refines [OF rel, of "OpRecent r limit"] by (cases "RecentMessages sqlite_store r limit db'") auto
  ultimately show ?thesis using stories_of_lifetimes [OF assms(1)] stories_exact [OF _ assms(2)] by blast
qed

text \<open>A client that says hello and marks the first message read.\<close>

definition mark_command :: Command where
  "mark_command = \<lparr>cT = CmdMarkRead, cID = ''2'', cProto = 0, cClient = [], cRoom = ''!r'', cBody = [],
     cEvent = ''e1'', cLimit = 0\<rparr>"

lemma mark_decodes: "decode_command (marshal (command_json mark_command)) = Some mark_command"
  by (rule decode_marshal)
    (simp_all add: mark_command_def command_strings_def int64_def CmdMarkRead_def valid_ascii repair_valid_iff)

lemma mark_not_hello: "good_hello (marshal (command_json mark_command)) = None"
  by (simp add: good_hello_def mark_decodes) (simp add: mark_command_def cmd_defs)

lemma marshal_nonempty: "marshal (command_json mark_command) \<noteq> []"
  by (simp add: command_json_def)

lemma read_story:
  fixes d :: "unit daemon" and opts :: session_options
  defines "story \<equiv> daemon_story agreeing_transport opts []" and "m \<equiv> sample_message ''e1'' False"
  assumes "d_pending d = []" and "d_reader d = (\<lambda>_. None)" and "d_clients d = Map.empty"
    and "sq_reliable (d_store d)"
  shows "\<exists>e. story d [Got (normalise opts m), Read ''!r'' ''e1''] e"
proof -
  define d1 where "d1 = d\<lparr>d_clients := [1 \<mapsto> newClient], d_reader := [1 \<mapsto> Reading]\<rparr>"
  define d2 where "d2 = d1\<lparr>d_clients := handleHello_greet 1 (d_clients d1), d_reader := [1 \<mapsto> Greeting hello_command]\<rparr>"
  define d3 where "d3 = d2\<lparr>d_clients := send 1 (NewReady ''1'' (Connected (d_session d2)) []) (d_clients d2),
      d_reader := [1 \<mapsto> Reading]\<rparr>"
  have 1: "story d [] d1"
  proof -
    have "daemon_step agreeing_transport opts [] d None d1"
      using Accept [of d 1 agreeing_transport opts "[]"] assms(4,5) by (simp add: d1_def)
    moreover have "\<not> handles agreeing_transport [] d i line d1" for i line
      using assms(4) by (simp add: handles_def)
    ultimately show ?thesis unfolding story_def by (blast intro: Unheard [OF Begun])
  qed
  have 2: "story d [] d2"
  proof -
    have "d_reader d1 1 = Some Reading" "(d_reader d1)(1 \<mapsto> Greeting hello_command) = d_reader d2"
      by (simp_all add: d1_def d2_def)
    with Hello [of d1 1 _ hello_command agreeing_transport opts "[]", OF _ hello_decodes]
    have "daemon_step agreeing_transport opts [] d1 None d2" by (simp add: d2_def d1_def)
    moreover have "\<not> handles agreeing_transport [] d1 i line d2" for i line
    proof
      assume h: "handles agreeing_transport [] d1 i line d2"
      then have "i = 1" by (auto simp: handles_def d1_def split: if_splits)
      moreover from h obtain x where "d_reader d2 i = Some x" "x = Reading \<or> x = Ended"
        by (auto simp: handles_def split: prod.splits if_splits)
      ultimately show False by (auto simp: d2_def)
    qed
    ultimately show ?thesis using 1 unfolding story_def by (blast intro: Unheard)
  qed
  have 3: "story d [] d3"
  proof -
    have "d_reader d2 1 = Some (Greeting hello_command)" by (simp add: d2_def)
    from ReadyReply [OF this, of agreeing_transport opts "[]"]
    have "daemon_step agreeing_transport opts [] d2 None d3"
      by (simp add: d3_def d2_def) (simp add: hello_command_def)
    moreover have "\<not> handles agreeing_transport [] d2 i line d3" for i line
      by (simp add: handles_def d2_def)
    ultimately show ?thesis using 2 unfolding story_def by (blast intro: Unheard)
  qed
  have q: "queues_ok (handleHello_greet 1 [1 \<mapsto> newClient])"
    by (rule handleHello_greet_ok) (simp add: queues_ok_def queue_ok_def newClient_def)
  have greeted: "is_greeted 1 (d_clients d3)"
    by (simp add: d3_def d2_def d1_def send_hello [OF q] greet_hello del: One_nat_def)
  have ok: "event_ok (EventMessage m)" by (simp add: m_def sample_message_def)
  obtain bs s st where h: "handle sqlite_store opts True (EventMessage m) (d_session d3) (d_store d3) = (bs, s, st)"
    by (metis prod_cases3)
  define d4 where "d4 = d3\<lparr>d_session := s, d_store := st, d_pending := bs\<rparr>"
  have "d_pending d3 = []" using assms(3) by (simp add: d3_def d2_def d1_def)
  from Event [OF this ok h] 3 have 4: "story d [Got (normalise opts m)] d4"
    using Heard [of agreeing_transport opts "[]" d "[]" d3 "EventMessage m" d4] by (simp add: d4_def story_def)
  have "sq_reliable (d_store d3)" using assms(6) by (simp add: d3_def d2_def d1_def)
  from sqr.ingest_effect [OF this, of m opts "d_session d3"] h ok
  have "s = touchRoom (normalise opts m) (d_session d3)" by auto
  then have known: "Knows ''!r'' s" by (simp add: Knows_iff touchRoom_known m_def sample_message_def)
  let ?line = "marshal (command_json mark_command)"
  obtain yes cs s2 st2 tr where r: "dispatch (session_handler agreeing_transport sqlite_store) [] 1 ?line (d_clients d4)
      (d_session d4, d_store d4, d_transport d4) = (yes, cs, (s2, st2, tr))" by (metis prod_cases5)
  define d5 where "d5 = d4\<lparr>d_clients := cs, d_session := s2, d_store := st2, d_transport := tr,
      d_reader := (d_reader d4)(1 \<mapsto> (if yes then Reading else Ended))\<rparr>"
  have "handles agreeing_transport [] d4 1 ?line d5"
    using r by (simp add: handles_def mark_not_hello marshal_nonempty d5_def) (simp add: d4_def d3_def)
  from Handled [OF 4 [unfolded story_def] this]
  have "story d ([Got (normalise opts m)] @ commanded (d_session d4) (d_clients d4) 1 ?line) d5" by (simp add: story_def)
  moreover have "commanded (d_session d4) (d_clients d4) 1 ?line = [Read ''!r'' ''e1'']"
    using greeted known by (simp add: commanded_def mark_decodes d4_def) (simp add: mark_command_def)
  ultimately show ?thesis by auto
qed

theorem store_serializes_witness:
  "\<exists>opts c db'. life_stories agreeing_transport (OpenSQLite 2 (sq_fresh (\<lambda>_. None)))
       [(c, [Got (normalise opts (sample_message ''e1'' False)), Read ''!r'' ''e1''])] db'
     \<and> sq_abs db' = a_mark ''!r'' ''e1'' (a_append c (normalise opts (sample_message ''e1'' False)) a_empty)"
proof -
  let ?db = "OpenSQLite 2 (sq_fresh (\<lambda>_. None))" and ?m = "sample_message ''e1'' False"
  let ?w = "plain_world\<lparr>w_db := \<lambda>_. Inr ?db\<rparr>"
  obtain cfg mx st sv where b: "boot ?w ''/run/s'' ''c'' = Inr (cfg, OpenedMatrix mx, OpenedSQLite st, sv)"
    using world_boots [of ?db] by blast
  let ?d = "daemon_init agreeing_transport (sessionOptions cfg) st ()" and ?c = "nat (dc_HistoryCapacity (cfg_Daemon cfg))"
  have w: "w_db ?w = (\<lambda>_. Inr ?db)" by simp
  have "sq_reliable st" using boot_store [OF b w] reliable_open by blast
  then have "d_pending ?d = []" "d_reader ?d = (\<lambda>_. None)" "d_clients ?d = Map.empty" "sq_reliable (d_store ?d)"
    by (simp_all add: daemon_init_def split: prod.split)
  from read_story [OF this, of "sessionOptions cfg"] obtain e where
    "daemon_story agreeing_transport (sessionOptions cfg) [] ?d
       [Got (normalise (sessionOptions cfg) ?m), Read ''!r'' ''e1''] e" by blast
  from Told [OF Untold w b this] have s: "life_stories agreeing_transport ?db
      [(?c, [Got (normalise (sessionOptions cfg) ?m), Read ''!r'' ''e1''])] (d_store e)" by simp
  from store_serializes [OF lifetimes_of_stories [OF s] reliable_open]
  have "\<forall>stories. life_stories agreeing_transport ?db stories (d_store e) \<longrightarrow>
      sq_abs (d_store e) = fold (\<lambda>(c, hs). a_after c (does_all hs)) stories a_empty"
    unfolding abs_open by blast
  moreover have "\<not> mOwn ?m" by (simp add: sample_message_def)
  ultimately have "sq_abs (d_store e) = a_mark ''!r'' ''e1'' (a_append ?c (normalise (sessionOptions cfg) ?m) a_empty)"
    using s by (simp add: a_after_def does_all_def)
  with s show ?thesis by blast
qed

end
