(* ===== verification/Interleaving.thy ===== *)
theory Interleaving
  imports Lifetimes
begin

text \<open>
  \<open>session.go\<close> at a finer grain. \<open>Daemon\<close> takes an incoming message, or a command, in one step.
  But \<open>ingest\<close> and \<open>MarkRead\<close> hold no lock from their beginning to their end: the goroutine of
  \<open>Run\<close> and the readers of the connections meet between the calls of the store. Here every call
  of the store, of the transport and of the broadcaster is a step of its own, for any number of
  connections, as one of them sees it. (The calls themselves are atomic, as the mutex of the
  in-memory store makes them; between the two statements of SQLite's \<open>AppendMessage\<close> a reader
  may find one message too many.)
\<close>

section \<open>State and steps\<close>

text \<open>How far a goroutine is: in \<open>ingest\<close>, the message is stored, its room known, the read marker
  set; in \<open>MarkRead\<close>, the marker is set; in \<open>roomView\<close>, called by both, before the room is
  looked up and before the unread messages are counted; at last the room is to be broadcast.
  \<open>Answering\<close> is the observed connection's own history command, after the store has been read.\<close>

datatype task =
    Stored message
  | Touched message
  | Marked message
  | Confirming gostring gostring
  | Looking gostring
  | Counting gostring roomState
  | Showing room
  | Answering gostring int "message list"

text \<open>Task 0 is the goroutine of \<open>Run\<close>, task \<open>i\<close> the reader of connection \<open>i\<close>. Connection 1 is the
  observed one: \<open>sc_seen\<close> is what has been queued for it since its hello, messages, rooms and its
  answers, in order. Kept for the record: the messages stored, and the histories answered with the
  limits asked for.\<close>

record 'st scene =
  sc_session :: session
  sc_store :: 'st
  sc_tasks :: "nat \<Rightarrow> task option"
  sc_hello :: bool
  sc_seen :: "event list"
  sc_taken :: "message list"
  sc_answers :: "(gostring \<times> int \<times> message list) list"

definition scene_init :: "session \<Rightarrow> 'st \<Rightarrow> 'st scene" where
  "scene_init s st =
     \<lparr>sc_session = s, sc_store = st, sc_tasks = (\<lambda>_. None), sc_hello = False, sc_seen = [], sc_taken = [],
      sc_answers = []\<rparr>"

definition now :: "nat \<Rightarrow> task option \<Rightarrow> 'st scene \<Rightarrow> 'st scene" where
  "now i t w = w\<lparr>sc_tasks := (sc_tasks w)(i := t)\<rparr>"

text \<open>The broadcaster leaves a connection without hello out.\<close>

definition see :: "event \<Rightarrow> 'st scene \<Rightarrow> 'st scene" where
  "see e w = (if sc_hello w then w\<lparr>sc_seen := sc_seen w @ [e]\<rparr> else w)"

inductive scene_step :: "'st store \<Rightarrow> session_options \<Rightarrow> 'st scene \<Rightarrow> 'st scene \<Rightarrow> bool" for S opts where
  Receive: "sc_tasks w 0 = None \<Longrightarrow> mEvent m \<noteq> [] \<Longrightarrow>
    AppendMessage S (normalise opts m) (sc_store w) = (None, st) \<Longrightarrow>
    scene_step S opts w (now 0 (Some (Stored (normalise opts m)))
      (w\<lparr>sc_store := st, sc_taken := sc_taken w @ [normalise opts m]\<rparr>))"
| ReceiveFails: "sc_tasks w 0 = None \<Longrightarrow> mEvent m \<noteq> [] \<Longrightarrow>
    AppendMessage S (normalise opts m) (sc_store w) = (Some err, st) \<Longrightarrow>
    scene_step S opts w (w\<lparr>sc_store := st\<rparr>)"
| Touch: "sc_tasks w i = Some (Stored m) \<Longrightarrow>
    scene_step S opts w (now i (Some (Touched m)) (w\<lparr>sc_session := touchRoom m (sc_session w)\<rparr>))"
| Own: "sc_tasks w i = Some (Touched m) \<Longrightarrow>
    scene_step S opts w (now i (Some (Marked m)) (w\<lparr>sc_store := markOwn S m (sc_store w)\<rparr>))"
| Tell: "sc_tasks w i = Some (Marked m) \<Longrightarrow>
    scene_step S opts w (now i (Some (Looking (mRoom m))) (see (NewMessage m) w))"
| Mark: "i \<noteq> 0 \<Longrightarrow> sc_tasks w i = None \<Longrightarrow> Knows r (sc_session w) \<Longrightarrow>
    SetReadMarker S r ev (sc_store w) = (None, st) \<Longrightarrow>
    scene_step S opts w (now i (Some (Confirming r ev)) (w\<lparr>sc_store := st\<rparr>))"
| MarkFails: "i \<noteq> 0 \<Longrightarrow> sc_tasks w i = None \<Longrightarrow> Knows r (sc_session w) \<Longrightarrow>
    SetReadMarker S r ev (sc_store w) = (Some err, st) \<Longrightarrow>
    scene_step S opts w (w\<lparr>sc_store := st\<rparr>)"
| Confirm: "sc_tasks w i = Some (Confirming r ev) \<Longrightarrow> t \<in> {None, Some (Looking r)} \<Longrightarrow>
    scene_step S opts w (now i t w)"
| Look: "sc_tasks w i = Some (Looking r) \<Longrightarrow>
    scene_step S opts w (now i (map_option (Counting r) (s_rooms (sc_session w) r)) w)"
| Count: "sc_tasks w i = Some (Counting r rs) \<Longrightarrow> UnreadCount S r (sc_store w) = (Inr n, st) \<Longrightarrow>
    scene_step S opts w (now i (Some (Showing
      \<lparr>rRoom = r, rDisplay = rsDisplay rs, rUnread = n, rLastTS = rsLastTS rs\<rparr>)) (w\<lparr>sc_store := st\<rparr>))"
| CountFails: "sc_tasks w i = Some (Counting r rs) \<Longrightarrow> UnreadCount S r (sc_store w) = (Inl err, st) \<Longrightarrow>
    scene_step S opts w (now i None (w\<lparr>sc_store := st\<rparr>))"
| Show: "sc_tasks w i = Some (Showing v) \<Longrightarrow> scene_step S opts w (now i None (see (NewRoom v) w))"
| Hello: "scene_step S opts w (w\<lparr>sc_hello := True\<rparr>)"
| Ask: "sc_hello w \<Longrightarrow> sc_tasks w 1 = None \<Longrightarrow> Knows r (sc_session w) \<Longrightarrow>
    RecentMessages S r limit (sc_store w) = (Inr ms, st) \<Longrightarrow>
    scene_step S opts w (now 1 (Some (Answering r limit ms)) (w\<lparr>sc_store := st\<rparr>))"
| AskFails: "sc_hello w \<Longrightarrow> sc_tasks w 1 = None \<Longrightarrow> Knows r (sc_session w) \<Longrightarrow>
    RecentMessages S r limit (sc_store w) = (Inl err, st) \<Longrightarrow>
    scene_step S opts w (w\<lparr>sc_store := st\<rparr>)"
| Answer: "sc_tasks w 1 = Some (Answering r limit ms) \<Longrightarrow>
    scene_step S opts w (now 1 None
      (see (NewHistory i r ms) (w\<lparr>sc_answers := sc_answers w @ [(r, limit, ms)]\<rparr>)))"

inductive scene_reaches :: "'st store \<Rightarrow> session_options \<Rightarrow> 'st scene \<Rightarrow> 'st scene \<Rightarrow> bool" for S opts where
  Outset: "scene_reaches S opts w w"
| Onward: "scene_reaches S opts w v \<Longrightarrow> scene_step S opts v u \<Longrightarrow> scene_reaches S opts w u"

section \<open>What has been told\<close>

fun seen_messages :: "event list \<Rightarrow> message list" where
  "seen_messages [] = []"
| "seen_messages (Message m # es) = m # seen_messages es"
| "seen_messages (e # es) = seen_messages es"

lemma seen_messages_append [simp]: "seen_messages (xs @ ys) = seen_messages xs @ seen_messages ys"
  by (induction xs rule: seen_messages.induct) simp_all

text \<open>A message that is stored and still to be broadcast.\<close>

fun untold :: "task option \<Rightarrow> message list" where
  "untold (Some (Stored m)) = [m]"
| "untold (Some (Touched m)) = [m]"
| "untold (Some (Marked m)) = [m]"
| "untold _ = []"

definition tail_of :: "int \<Rightarrow> message list \<Rightarrow> message list" where
  "tail_of limit ms = (if limit \<le> 0 then ms else lastn (nat limit) ms)"

text \<open>The observed connection has been told of the messages from the \<open>j\<close>-th on; the histories it was
  answered with are those after the first \<open>k\<close>, for some \<open>k\<close> not before \<open>j\<close>.\<close>

definition answer_of ::
  "nat \<Rightarrow> (gostring \<Rightarrow> message list) \<Rightarrow> nat \<Rightarrow> message list \<Rightarrow> gostring \<Rightarrow> int \<Rightarrow> message list \<Rightarrow> bool" where
  "answer_of c logs j taken r limit ms \<longleftrightarrow>
     (\<exists>k. j \<le> k \<and> k \<le> length taken \<and> ms = tail_of limit (log_messages c (take k taken) logs r))"

definition told_from :: "nat \<Rightarrow> (gostring \<Rightarrow> message list) \<Rightarrow> nat \<Rightarrow> 'st scene \<Rightarrow> bool" where
  "told_from c logs j w \<longleftrightarrow>
     (\<exists>told. sc_taken w = told @ untold (sc_tasks w 0) \<and> j \<le> length told
        \<and> (sc_hello w \<longrightarrow> seen_messages (sc_seen w) = drop j told))
     \<and> (\<forall>i. i \<noteq> 0 \<longrightarrow> untold (sc_tasks w i) = [])
     \<and> (\<not> sc_hello w \<longrightarrow> sc_seen w = [] \<and> sc_answers w = [] \<and> (\<forall>r limit ms. sc_tasks w 1 \<noteq> Some (Answering r limit ms)))
     \<and> (\<forall>r limit ms. (r, limit, ms) \<in> set (sc_answers w) \<or> sc_tasks w 1 = Some (Answering r limit ms)
          \<longrightarrow> answer_of c logs j (sc_taken w) r limit ms)"

lemma answer_of_more: "answer_of c logs j taken r limit ms \<Longrightarrow> answer_of c logs j (taken @ rest) r limit ms"
  by (fastforce simp: answer_of_def)

lemma now_simps [simp]:
  "sc_tasks (now i t w) = (sc_tasks w)(i := t)" "sc_store (now i t w) = sc_store w"
  "sc_session (now i t w) = sc_session w" "sc_hello (now i t w) = sc_hello w"
  "sc_seen (now i t w) = sc_seen w" "sc_taken (now i t w) = sc_taken w" "sc_answers (now i t w) = sc_answers w"
  by (simp_all add: now_def)

lemma see_simps [simp]:
  "sc_tasks (see e w) = sc_tasks w" "sc_store (see e w) = sc_store w" "sc_session (see e w) = sc_session w"
  "sc_hello (see e w) = sc_hello w" "sc_taken (see e w) = sc_taken w" "sc_answers (see e w) = sc_answers w"
  "sc_seen (see e w) = (if sc_hello w then sc_seen w @ [e] else sc_seen w)"
  by (simp_all add: see_def)

definition scene_ok ::
  "('st \<Rightarrow> bool) \<Rightarrow> ('st \<Rightarrow> nat) \<Rightarrow> ('st \<Rightarrow> astore) \<Rightarrow> nat \<Rightarrow> (gostring \<Rightarrow> message list) \<Rightarrow> nat
     \<Rightarrow> 'st scene \<Rightarrow> bool" where
  "scene_ok ok size_of view c logs j w \<longleftrightarrow> ok (sc_store w) \<and> size_of (sc_store w) = c
     \<and> a_log (view (sc_store w)) = log_messages c (sc_taken w) logs \<and> told_from c logs j w"

lemma told_from_same:
  assumes "told_from c logs j w" and "sc_taken w' = sc_taken w" and "sc_hello w' = sc_hello w"
    and "untold (sc_tasks w' 0) = untold (sc_tasks w 0)" and "seen_messages (sc_seen w') = seen_messages (sc_seen w)"
    and "\<And>i. i \<noteq> 0 \<Longrightarrow> untold (sc_tasks w' i) = []" and "\<not> sc_hello w \<Longrightarrow> sc_seen w' = sc_seen w"
    and "\<And>r limit ms. sc_tasks w' 1 = Some (Answering r limit ms) \<Longrightarrow> sc_tasks w 1 = Some (Answering r limit ms)"
    and "sc_answers w' = sc_answers w"
  shows "told_from c logs j w'"
  unfolding told_from_def
proof (intro conjI allI impI)
  show "\<exists>told. sc_taken w' = told @ untold (sc_tasks w' 0) \<and> j \<le> length told
      \<and> (sc_hello w' \<longrightarrow> seen_messages (sc_seen w') = drop j told)"
    using assms(1) by (simp add: told_from_def assms(2-5))
  show "untold (sc_tasks w' i) = []" if "i \<noteq> 0" for i using assms(6) that .
  show "sc_seen w' = []" if "\<not> sc_hello w'" using assms(1,7) that by (simp add: told_from_def assms(3))
  show "sc_answers w' = []" if "\<not> sc_hello w'" using assms(1) that by (simp add: told_from_def assms(3,9))
  show "sc_tasks w' 1 \<noteq> Some (Answering r limit ms)" if "\<not> sc_hello w'" for r limit ms
    using assms(1,8) that by (auto simp: told_from_def assms(3))
  show "answer_of c logs j (sc_taken w') r limit ms"
    if "(r, limit, ms) \<in> set (sc_answers w') \<or> sc_tasks w' 1 = Some (Answering r limit ms)" for r limit ms
    using assms(1,8) that unfolding told_from_def assms(2,9) by blast
qed

context reliable_store
begin

lemma markOwn_log:
  assumes "inv st"
  shows "inv (markOwn ops m st) \<and> cap (markOwn ops m st) = cap st \<and> a_log (abs (markOwn ops m st)) = a_log (abs st)"
  using markOwn_frame [OF assms, of m] by auto

lemma scene_step_ok:
  assumes "scene_step ops opts w w'" and "scene_ok inv cap abs c logs j w"
  shows "\<exists>j. scene_ok inv cap abs c logs j w'"
proof -
  have ok: "inv (sc_store w)" "cap (sc_store w) = c" "a_log (abs (sc_store w)) = log_messages c (sc_taken w) logs"
    and told: "told_from c logs j w" using assms(2) by (simp_all add: scene_ok_def)
  have pump: "i = 0" if "untold (sc_tasks w i) \<noteq> []" for i using told that by (auto simp: told_from_def)
  have same: "\<exists>j. scene_ok inv cap abs c logs j w'"
    if "inv (sc_store w') \<and> cap (sc_store w') = c \<and> a_log (abs (sc_store w')) = a_log (abs (sc_store w))"
      and "sc_taken w' = sc_taken w" "sc_hello w' = sc_hello w" "untold (sc_tasks w' 0) = untold (sc_tasks w 0)"
      "seen_messages (sc_seen w') = seen_messages (sc_seen w)"
      "\<And>i. i \<noteq> 0 \<Longrightarrow> untold (sc_tasks w' i) = []" "\<not> sc_hello w \<Longrightarrow> sc_seen w' = sc_seen w"
      "\<And>r limit ms. sc_tasks w' 1 = Some (Answering r limit ms) \<Longrightarrow> sc_tasks w 1 = Some (Answering r limit ms)"
      "sc_answers w' = sc_answers w"
    using told_from_same [OF told that(2-9)] that(1,2) ok by (auto simp: scene_ok_def)
  have others: "untold (sc_tasks w i) = []" if "i \<noteq> 0" for i using told that by (simp add: told_from_def)
  show ?thesis
    using assms(1)
  proof (cases rule: scene_step.cases)
    case (Receive m st)
    let ?m = "normalise opts m"
    have st: "inv st" "cap st = c" "a_log (abs st) = log_message c ?m (log_messages c (sc_taken w) logs)"
      using append_ok [of "sc_store w" ?m st] Receive ok by (auto simp: a_log_message)
    have "log_message c ?m (log_messages c (sc_taken w) logs) = log_messages c (sc_taken w @ [?m]) logs"
      by (simp add: log_messages_def)
    moreover have "told_from c logs j w'"
      using told Receive by (auto simp: told_from_def answer_of_more)
    ultimately show ?thesis using st Receive by (auto simp: scene_ok_def)
  next
    case (ReceiveFails m err st)
    then show ?thesis using append_total [of "sc_store w" "normalise opts m"] ok by auto
  next
    case (Touch i m)
    with pump [of i] ok others show ?thesis by (intro same) auto
  next
    case (Own i m)
    with pump [of i] ok others markOwn_log [of "sc_store w" m] show ?thesis by (intro same) auto
  next
    case (Tell i m)
    with pump [of i] have i: "i = 0" by simp
    obtain before where b: "sc_taken w = before @ [m]" "j \<le> length before"
      "sc_hello w \<longrightarrow> seen_messages (sc_seen w) = drop j before"
      using told Tell i by (auto simp: told_from_def)
    have "told_from c logs j w'"
      using told Tell i b by (auto simp: told_from_def new_defs intro!: exI [of _ "before @ [m]"])
    with Tell ok show ?thesis by (auto simp: scene_ok_def)
  next
    case (Mark i r ev st)
    with ok others mark_ok [of "sc_store w" r ev st] show ?thesis
      by (intro same) (auto simp: a_log_mark intro!: ext split: if_splits)
  next
    case (MarkFails i r ev err st)
    with ok others mark_err [of "sc_store w" r ev err st] show ?thesis by (intro same) auto
  next
    case (Confirm i r ev t)
    with ok others show ?thesis by (intro same) (auto split: if_splits)
  next
    case (Look i r)
    with ok others show ?thesis by (intro same) (cases "s_rooms (sc_session w) r"; auto split: if_splits)+
  next
    case (Count i r rs n st)
    with ok others unread_ok [of "sc_store w" r n st] show ?thesis by (intro same) (auto split: if_splits)
  next
    case (CountFails i r rs err st)
    with ok others unread_err [of "sc_store w" r err st] show ?thesis by (intro same) (auto split: if_splits)
  next
    case (Show i v)
    with ok others show ?thesis by (intro same) (auto simp: new_defs split: if_splits)
  next
    case Hello
    show ?thesis
    proof (cases "sc_hello w")
      case True
      with Hello ok others show ?thesis by (intro same) auto
    next
      case False
      with told obtain before where b: "sc_taken w = before @ untold (sc_tasks w 0)" "sc_seen w = []"
        by (auto simp: told_from_def)
      have "told_from c logs (length before) w'"
        using told Hello b False by (auto simp: told_from_def)
      with Hello ok show ?thesis by (auto simp: scene_ok_def)
    qed
  next
    case (Ask r limit ms st)
    have ms: "ms = tail_of limit (log_messages c (sc_taken w) logs r)" and st: "inv st" "cap st = c" "abs st = abs (sc_store w)"
      using recent_ok [of "sc_store w" r limit ms st] Ask ok by (auto simp: a_recent_def tail_of_def)
    obtain before where b: "sc_taken w = before @ untold (sc_tasks w 0)" "j \<le> length before"
      using told by (auto simp: told_from_def)
    have "answer_of c logs j (sc_taken w) r limit ms"
      unfolding answer_of_def ms using b by (intro exI [of _ "length (sc_taken w)"]) simp
    then have "told_from c logs j w'" using told Ask by (auto simp: told_from_def)
    with Ask ok st show ?thesis by (auto simp: scene_ok_def)
  next
    case (AskFails r limit err st)
    with ok others recent_err [of "sc_store w" r limit err st] show ?thesis by (intro same) auto
  next
    case (Answer r limit ms i)
    with told have "sc_hello w" "answer_of c logs j (sc_taken w) r limit ms" by (auto simp: told_from_def)
    then have "told_from c logs j w'" using told Answer by (auto simp: told_from_def new_defs)
    with Answer ok show ?thesis by (auto simp: scene_ok_def)
  qed
qed

lemma scene_reaches_ok:
  assumes "scene_reaches ops opts w w'" and "scene_ok inv cap abs c logs j w"
  shows "\<exists>j. scene_ok inv cap abs c logs j w'"
  using assms
  by (induction rule: scene_reaches.induct) (auto dest: scene_step_ok)

lemma scene_init_ok:
  "inv st \<Longrightarrow> scene_ok inv cap abs (cap st) (a_log (abs st)) 0 (scene_init s st)"
  by (simp add: scene_ok_def told_from_def scene_init_def log_messages_def)

lemma answers_meet:
  assumes "inv st" and "scene_reaches ops opts (scene_init s st) w"
    and "(r, limit, ms) \<in> set (sc_answers w)" and "untold (sc_tasks w 0) = []"
  shows "\<exists>j k. j \<le> k \<and> k \<le> length (sc_taken w)
    \<and> ms = tail_of limit (log_messages (cap st) (take k (sc_taken w)) (a_log (abs st)) r)
    \<and> seen_messages (sc_seen w) = drop j (sc_taken w)
    \<and> set (drop k (sc_taken w)) \<subseteq> set (seen_messages (sc_seen w))"
proof -
  obtain j where "scene_ok inv cap abs (cap st) (a_log (abs st)) j w"
    using scene_reaches_ok [OF assms(2) scene_init_ok [OF assms(1)]] by blast
  then have t: "told_from (cap st) (a_log (abs st)) j w" by (simp add: scene_ok_def)
  with assms(3) have h: "sc_hello w" by (auto simp: told_from_def)
  with t assms(4) have seen: "seen_messages (sc_seen w) = drop j (sc_taken w)" by (auto simp: told_from_def)
  from t assms(3) have "answer_of (cap st) (a_log (abs st)) j (sc_taken w) r limit ms"
    by (simp add: told_from_def)
  then obtain k where "j \<le> k" "k \<le> length (sc_taken w)"
    "ms = tail_of limit (log_messages (cap st) (take k (sc_taken w)) (a_log (abs st)) r)"
    by (auto simp: answer_of_def)
  with seen show ?thesis using set_drop_subset_set_drop by fastforce
qed

end

section \<open>Runs without interruption\<close>

lemma scene_reaches_trans:
  "scene_reaches S opts v u \<Longrightarrow> scene_reaches S opts w v \<Longrightarrow> scene_reaches S opts w u"
  by (induction rule: scene_reaches.induct) (auto intro: Onward)

lemma scene_one: "scene_step S opts w v \<Longrightarrow> scene_reaches S opts w v"
  by (rule Onward [OF Outset])

text \<open>A room looked up, counted and shown is \<open>announceRoom\<close>.\<close>

lemma announce_run:
  assumes "sc_tasks w i = Some (Looking r)" and "sc_hello w"
    and "announceRoom S r (sc_session w) (sc_store w) = (bs, st)"
  shows "scene_reaches S opts w
    (now i None (w\<lparr>sc_store := st, sc_seen := sc_seen w @ map broadcast_event bs\<rparr>))"
proof (cases "s_rooms (sc_session w) r")
  case None
  with assms have "bs = []" "st = sc_store w" by (auto simp: announceRoom_def roomView_def)
  with scene_one [OF Look [of w i r S opts, OF assms(1)]] None show ?thesis by (simp add: now_def)
next
  case (Some rs)
  define v where "v = now i (Some (Counting r rs)) w"
  have v: "scene_reaches S opts w v" using scene_one [OF Look [of w i r S opts, OF assms(1)]] Some by (simp add: v_def)
  have at: "sc_tasks v i = Some (Counting r rs)" "sc_store v = sc_store w" by (simp_all add: v_def)
  obtain x st1 where u: "UnreadCount S r (sc_store w) = (x, st1)" by fastforce
  show ?thesis
  proof (cases x)
    case (Inl err)
    with u Some assms(3) have "bs = []" "st = st1" by (auto simp: announceRoom_def roomView_def)
    with CountFails [OF at(1), of S err st1 opts] u Inl at(2) have "scene_step S opts v (now i None (w\<lparr>sc_store := st\<rparr>))"
      by (simp add: v_def now_def)
    with v \<open>bs = []\<close> show ?thesis by (auto dest: Onward)
  next
    case (Inr n)
    let ?room = "\<lparr>rRoom = r, rDisplay = rsDisplay rs, rUnread = n, rLastTS = rsLastTS rs\<rparr>"
    have bs: "bs = [BroadcastRoom ?room]" "st = st1"
      using u Some assms(3) Inr by (auto simp: announceRoom_def roomView_def)
    define q where "q = now i (Some (Showing ?room)) (v\<lparr>sc_store := st1\<rparr>)"
    have "scene_step S opts v q" unfolding q_def by (rule Count [OF at(1)]) (simp add: at(2) u Inr)
    moreover have "scene_step S opts q (now i None (see (NewRoom ?room) q))"
      by (rule Show) (simp add: q_def)
    moreover have "now i None (see (NewRoom ?room) q) = now i None (w\<lparr>sc_store := st, sc_seen := sc_seen w @ map broadcast_event bs\<rparr>)"
      using assms(2) bs by (simp add: q_def v_def now_def see_def)
    ultimately show ?thesis using v by (auto dest: Onward)
  qed
qed

text \<open>A message ingested with nothing in between is \<open>ingest\<close>, the coarse step.\<close>

lemma ingest_run:
  assumes "sc_tasks w 0 = None" and "sc_hello w" and "mEvent m \<noteq> []"
    and "ingest S opts True m (sc_session w) (sc_store w) = (bs, s, st)"
  shows "\<exists>taken. scene_reaches S opts w
    (w\<lparr>sc_session := s, sc_store := st, sc_seen := sc_seen w @ map broadcast_event bs, sc_taken := taken\<rparr>)"
proof -
  let ?m = "normalise opts m"
  obtain e st1 where a: "AppendMessage S ?m (sc_store w) = (e, st1)" by fastforce
  show ?thesis
  proof (cases e)
    case (Some err)
    with a assms(4) have "bs = []" "s = sc_session w" "st = st1" by (auto simp: ingest_def)
    with scene_one [OF ReceiveFails [of w m S opts err st1]] assms(1,3) a Some show ?thesis
      by (intro exI [of _ "sc_taken w"]) simp
  next
    case None
    define w1 where "w1 = now 0 (Some (Stored ?m)) (w\<lparr>sc_store := st1, sc_taken := sc_taken w @ [?m]\<rparr>)"
    define w2 where "w2 = now 0 (Some (Touched ?m)) (w1\<lparr>sc_session := touchRoom ?m (sc_session w1)\<rparr>)"
    define w3 where "w3 = now 0 (Some (Marked ?m)) (w2\<lparr>sc_store := markOwn S ?m (sc_store w2)\<rparr>)"
    define w4 where "w4 = now 0 (Some (Looking (mRoom ?m))) (see (NewMessage ?m) w3)"
    note ws = w4_def w3_def w2_def w1_def
    have "scene_step S opts w w1" unfolding w1_def using assms(1,3) a None by (intro Receive) auto
    moreover have "scene_step S opts w1 w2" unfolding w2_def by (rule Touch) (simp add: w1_def)
    moreover have "scene_step S opts w2 w3" unfolding w3_def by (rule Own) (simp add: w2_def)
    moreover have "scene_step S opts w3 w4" unfolding w4_def by (rule Tell) (simp add: w3_def)
    ultimately have r4: "scene_reaches S opts w w4"
      using Onward [OF Onward [OF Onward [OF scene_one]]] by metis
    obtain bs1 st2 where an: "announceRoom S (mRoom m) (touchRoom ?m (sc_session w)) (markOwn S ?m st1) = (bs1, st2)"
      by fastforce
    have i: "bs = BroadcastMessage ?m # bs1" "s = touchRoom ?m (sc_session w)" "st = st2"
      using assms(4) a None an by (simp_all add: ingest_def Let_def)
    have "scene_reaches S opts w4 (now 0 None (w4\<lparr>sc_store := st2, sc_seen := sc_seen w4 @ map broadcast_event bs1\<rparr>))"
      by (rule announce_run) (use assms(2) an in \<open>simp_all add: ws\<close>)
    moreover have "now 0 None (w4\<lparr>sc_store := st2, sc_seen := sc_seen w4 @ map broadcast_event bs1\<rparr>) =
        w\<lparr>sc_session := s, sc_store := st, sc_seen := sc_seen w @ map broadcast_event bs, sc_taken := sc_taken w @ [?m]\<rparr>"
      using assms(1,2) i by (simp add: ws now_def see_def fun_upd_idem)
    ultimately show ?thesis using scene_reaches_trans [OF _ r4] by auto
  qed
qed

text \<open>A \<open>MarkRead\<close> up to the point where its room is about to be broadcast.\<close>

context reliable_store
begin

lemma mark_partway:
  assumes "i \<noteq> 0" and "sc_tasks w i = None" and "inv (sc_store w)" and "s_rooms (sc_session w) r = Some rs"
  shows "\<exists>v st. scene_reaches ops opts w (now i (Some (Showing v)) (w\<lparr>sc_store := st\<rparr>))
    \<and> inv st \<and> cap st = cap (sc_store w) \<and> abs st = a_mark r ev (abs (sc_store w))
    \<and> rRoom v = r \<and> rUnread v = a_unread r (abs st)"
proof -
  obtain st where m: "SetReadMarker ops r ev (sc_store w) = (None, st)"
    using mark_total [OF assms(3), of r ev] by (cases "SetReadMarker ops r ev (sc_store w)") auto
  note st = mark_ok [OF assms(3) m]
  obtain n st2 where u: "UnreadCount ops r st = (Inr n, st2)"
    using unread_total [of st r] st by (cases "UnreadCount ops r st") auto
  note st2 = unread_ok [OF conjunct1 [OF st] u]
  let ?v = "\<lparr>rRoom = r, rDisplay = rsDisplay rs, rUnread = n, rLastTS = rsLastTS rs\<rparr>"
  define w1 where "w1 = now i (Some (Confirming r ev)) (w\<lparr>sc_store := st\<rparr>)"
  define w2 where "w2 = now i (Some (Looking r)) w1"
  define w3 where "w3 = now i (Some (Counting r rs)) w2"
  define w4 where "w4 = now i (Some (Showing ?v)) (w3\<lparr>sc_store := st2\<rparr>)"
  have "scene_step ops opts w w1" unfolding w1_def using assms m by (intro Mark) (auto simp: Knows_iff)
  moreover have "scene_step ops opts w1 w2" unfolding w2_def by (rule Confirm [of _ _ r ev]) (simp_all add: w1_def)
  moreover have "scene_step ops opts w2 w3"
    using Look [of w2 i r ops opts] assms(4) by (simp add: w3_def w2_def w1_def)
  moreover have "scene_step ops opts w3 w4"
    unfolding w4_def by (rule Count) (use u in \<open>simp_all add: w3_def w2_def w1_def\<close>)
  ultimately have "scene_reaches ops opts w w4"
    using Onward [OF Onward [OF Onward [OF scene_one]]] by metis
  moreover have "w4 = now i (Some (Showing ?v)) (w\<lparr>sc_store := st2\<rparr>)"
    by (simp add: w4_def w3_def w2_def w1_def now_def)
  ultimately show ?thesis using st st2 by (intro exI [of _ ?v] exI [of _ st2]) auto
qed

text \<open>Somebody else's message, ingested in one go.\<close>

lemma message_arrives:
  assumes "sc_tasks w 0 = None" and "sc_hello w" and "inv (sc_store w)" and "mEvent m \<noteq> []" and "\<not> mOwn m"
  shows "\<exists>s st v taken rs. scene_reaches ops opts w (w\<lparr>sc_session := s, sc_store := st,
        sc_seen := sc_seen w @ [NewMessage (normalise opts m), NewRoom v], sc_taken := taken\<rparr>)
    \<and> inv st \<and> cap st = cap (sc_store w) \<and> abs st = a_append (cap st) (normalise opts m) (abs (sc_store w))
    \<and> s_rooms s (mRoom m) = Some rs"
proof -
  from ingest_effect [OF assms(3,4), of opts "sc_session w"] obtain st rs v where
    i: "ingest ops opts True m (sc_session w) (sc_store w) =
      ([BroadcastMessage (normalise opts m), BroadcastRoom v], touchRoom (normalise opts m) (sc_session w), st)"
    "s_rooms (touchRoom (normalise opts m) (sc_session w)) (mRoom m) = Some rs"
    "inv st" "cap st = cap (sc_store w)" "abs st = a_append (cap (sc_store w)) (normalise opts m) (abs (sc_store w))"
    using assms(5) by auto
  then obtain taken where r: "scene_reaches ops opts w (w\<lparr>sc_session := touchRoom (normalise opts m) (sc_session w),
      sc_store := st, sc_seen := sc_seen w @ [NewMessage (normalise opts m), NewRoom v], sc_taken := taken\<rparr>)"
    using ingest_run [OF assms(1,2,4) i(1)] by auto
  have "abs st = a_append (cap st) (normalise opts m) (abs (sc_store w))" using i(4,5) by simp
  with r i(2,3,4) show ?thesis by blast
qed

end

section \<open>Properties\<close>



abbreviation first_in :: message where "first_in \<equiv> sample_message ''e1'' False"
abbreviation second_in :: message where "second_in \<equiv> sample_message ''e2'' False"

text \<open>A connection past its hello when the first message comes.\<close>

lemma first_arrives:
  "\<exists>w rs v. scene_reaches memory_store plain_options (scene_init session_New (NewMemory 2)) w
     \<and> (\<forall>i. sc_tasks w i = None) \<and> sc_hello w \<and> mem_inv (sc_store w) \<and> mem_cap (sc_store w) = 2
     \<and> mem_abs (sc_store w) = a_append 2 (normalise plain_options first_in) a_empty
     \<and> s_rooms (sc_session w) ''!r'' = Some rs
     \<and> sc_seen w = [NewMessage (normalise plain_options first_in), NewRoom v] \<and> sc_answers w = []"
proof -
  let ?w0 = "scene_init session_New (NewMemory 2)" and ?w1 = "(scene_init session_New (NewMemory 2))\<lparr>sc_hello := True\<rparr>"
  have st: "mem_inv (NewMemory 2)" "mem_cap (NewMemory 2) = 2" "mem_abs (NewMemory 2) = a_empty"
    by (simp_all add: mem_inv_New mem_abs_New) (simp add: mem_cap_def NewMemory_def)
  have "scene_reaches memory_store plain_options ?w0 ?w1" by (rule scene_one [OF Hello])
  moreover obtain s st v taken rs where "scene_reaches memory_store plain_options ?w1
      (?w1\<lparr>sc_session := s, sc_store := st, sc_seen := sc_seen ?w1 @ [NewMessage (normalise plain_options first_in), NewRoom v],
         sc_taken := taken\<rparr>)"
    "mem_inv st" "mem_cap st = 2" "mem_abs st = a_append 2 (normalise plain_options first_in) a_empty"
    "s_rooms s ''!r'' = Some rs"
    using mem.message_arrives [of ?w1 first_in plain_options] st
    by (auto simp: scene_init_def sample_message_def)
  ultimately show ?thesis
    by (intro exI [of _ "?w1\<lparr>sc_session := s, sc_store := st,
          sc_seen := sc_seen ?w1 @ [NewMessage (normalise plain_options first_in), NewRoom v], sc_taken := taken\<rparr>"]
        exI [of _ rs] exI [of _ v]) (auto simp: scene_init_def dest: scene_reaches_trans)
qed


text \<open>A frontend can be left with a wrong count. \<open>MarkRead\<close> and \<open>ingest\<close> count the unread messages
  and then broadcast the count, without a lock around the two: the reader of one connection
  counts none, a message arrives and is broadcast with its count of one, and the reader's older
  count is broadcast last. In the end everything is idle, every connection was last told that
  the room has no unread message, and the store says that it has one.\<close>

theorem stale_count_broadcast_last:
  "\<exists>w v. scene_reaches memory_store plain_options (scene_init session_New (NewMemory 2)) w
     \<and> (\<forall>i. sc_tasks w i = None) \<and> sc_hello w \<and> last (sc_seen w) = NewRoom v \<and> rRoom v = ''!r''
     \<and> rUnread v = 0 \<and> a_unread ''!r'' (mem_abs (sc_store w)) = 1"
proof -
  let ?reach = "scene_reaches memory_store plain_options" and ?w0 = "scene_init session_New (NewMemory 2)"
  let ?m1 = "normalise plain_options first_in" and ?m2 = "normalise plain_options second_in"
  obtain w rs where w: "?reach ?w0 w" "\<forall>i. sc_tasks w i = None" "sc_hello w" "mem_inv (sc_store w)"
    "mem_cap (sc_store w) = 2" "mem_abs (sc_store w) = a_append 2 ?m1 a_empty" "s_rooms (sc_session w) ''!r'' = Some rs"
    using first_arrives by blast
  have two: "(2::nat) \<noteq> 0" "sc_tasks w 2 = None" using w(2) by simp_all
  obtain v st where v: "?reach w (now 2 (Some (Showing v)) (w\<lparr>sc_store := st\<rparr>))" "mem_inv st" "mem_cap st = 2"
    "mem_abs st = a_mark ''!r'' ''e1'' (mem_abs (sc_store w))" "rRoom v = ''!r''" "rUnread v = a_unread ''!r'' (mem_abs st)"
    using mem.mark_partway [OF two w(4,7), of plain_options "''e1''"] w(5) by auto
  define w1 where "w1 = now 2 (Some (Showing v)) (w\<lparr>sc_store := st\<rparr>)"
  have f: "sc_tasks w1 0 = None" "sc_hello w1" "sc_store w1 = st" "sc_tasks w1 2 = Some (Showing v)"
    "\<And>i. i \<noteq> 2 \<Longrightarrow> sc_tasks w1 i = None"
    using w(2,3) by (simp_all add: w1_def)
  obtain s st2 v2 taken where s: "?reach w1 (w1\<lparr>sc_session := s, sc_store := st2,
      sc_seen := sc_seen w1 @ [NewMessage ?m2, NewRoom v2], sc_taken := taken\<rparr>)"
    "mem_cap st2 = 2" "mem_abs st2 = a_append 2 ?m2 (mem_abs st)"
    using mem.message_arrives [of w1 second_in plain_options] f v(2,3)
    by (auto simp: sample_message_def)
  define w2 where "w2 = w1\<lparr>sc_session := s, sc_store := st2,
      sc_seen := sc_seen w1 @ [NewMessage ?m2, NewRoom v2], sc_taken := taken\<rparr>"
  define w3 where "w3 = now 2 None (see (NewRoom v) w2)"
  have "scene_step memory_store plain_options w2 w3"
    unfolding w3_def by (rule Show) (simp add: w2_def f)
  moreover have "?reach ?w0 w2"
    using scene_reaches_trans [OF s(1) scene_reaches_trans [OF v(1) [folded w1_def] w(1)]] by (simp add: w2_def)
  ultimately have "?reach ?w0 w3" by (rule Onward [rotated])
  moreover have "\<forall>i. sc_tasks w3 i = None" using f by (simp add: w3_def w2_def)
  moreover have "sc_hello w3" "last (sc_seen w3) = NewRoom v" "sc_store w3 = st2"
    using f(2) by (simp_all add: w3_def w2_def)
  moreover have "rUnread v = 0" "a_unread ''!r'' (mem_abs st2) = 1"
    using v(4,6) s(3) w(6)
    by (simp_all add: a_unread_def store_simps unseen_def has_event_def lastn_def sample_message_def)
  ultimately show ?thesis using v(5) by blast
qed

end
