(* ===== verification/Files.thy ===== *)
theory Files
  imports GoStd
begin

text \<open>
  The file system as the set-up code uses it: files by path, with content and permission
  bits. Every call of \<open>os\<close> takes the next entry of a schedule of failures, as the SQLite
  store does for its statements; a write that fails may leave part of the data behind.
  Directories are not kept: a write into a missing directory is one of the failures.
\<close>

section \<open>Operations\<close>

record file_entry =
  f_content :: gostring
  f_mode :: nat

record disk =
  dk_files :: "gostring \<rightharpoonup> file_entry"
  dk_faults :: "nat \<Rightarrow> (goerr \<times> gostring option) option"
  dk_ops :: nat

definition tick :: "disk \<Rightarrow> disk" where
  "tick d = d\<lparr>dk_ops := Suc (dk_ops d)\<rparr>"

definition next_fault :: "disk \<Rightarrow> (goerr \<times> gostring option) option" where
  "next_fault d = dk_faults d (dk_ops d)"

text \<open>\<open>os.WriteFile\<close> gives the mode to a new file only. (The umask is taken to let the bits asked
  for pass.)\<close>

definition put_file :: "gostring \<Rightarrow> gostring \<Rightarrow> nat \<Rightarrow> disk \<Rightarrow> disk" where
  "put_file path content perm d =
     d\<lparr>dk_files := (dk_files d)(path \<mapsto> \<lparr>f_content = content,
        f_mode = (case dk_files d path of None \<Rightarrow> perm | Some f \<Rightarrow> f_mode f)\<rparr>)\<rparr>"

definition os_ReadFile :: "gostring \<Rightarrow> disk \<Rightarrow> (goerr + gostring) \<times> disk" where
  "os_ReadFile path d =
     (case next_fault d of
        Some (err, _) \<Rightarrow> (Inl err, tick d)
      | None \<Rightarrow>
          (case dk_files d path of
             None \<Rightarrow> (Inl (ErrNotExist path), tick d)
           | Some f \<Rightarrow> (Inr (f_content f), tick d)))"

definition os_WriteFile :: "gostring \<Rightarrow> gostring \<Rightarrow> nat \<Rightarrow> disk \<Rightarrow> goerr option \<times> disk" where
  "os_WriteFile path content perm d =
     (case next_fault d of
        Some (err, None) \<Rightarrow> (Some err, tick d)
      | Some (err, Some part) \<Rightarrow> (Some err, put_file path part perm (tick d))
      | None \<Rightarrow> (None, put_file path content perm (tick d)))"

definition os_Stat :: "gostring \<Rightarrow> disk \<Rightarrow> (goerr + nat) \<times> disk" where
  "os_Stat path d =
     (case next_fault d of
        Some (err, _) \<Rightarrow> (Inl err, tick d)
      | None \<Rightarrow>
          (case dk_files d path of
             None \<Rightarrow> (Inl (ErrNotExist path), tick d)
           | Some f \<Rightarrow> (Inr (f_mode f), tick d)))"

definition os_MkdirAll :: "gostring \<Rightarrow> disk \<Rightarrow> goerr option \<times> disk" where
  "os_MkdirAll path d = (map_option fst (next_fault d), tick d)"

definition os_Chmod :: "gostring \<Rightarrow> nat \<Rightarrow> disk \<Rightarrow> goerr option \<times> disk" where
  "os_Chmod path perm d =
     (case next_fault d of
        Some (err, _) \<Rightarrow> (Some err, tick d)
      | None \<Rightarrow>
          (case dk_files d path of
             None \<Rightarrow> (Some (ErrNotExist path), tick d)
           | Some f \<Rightarrow> (None, (tick d)\<lparr>dk_files := (dk_files d)(path \<mapsto> f\<lparr>f_mode := perm\<rparr>)\<rparr>)))"

definition content_at :: "disk \<Rightarrow> gostring \<Rightarrow> gostring option" where
  "content_at d path = map_option f_content (dk_files d path)"

section \<open>Frames\<close>

definition faultless :: "disk \<Rightarrow> bool" where
  "faultless d \<longleftrightarrow> (\<forall>n. dk_faults d n = None)"

text \<open>A failure is never the error of a missing file: that one the files themselves decide.\<close>

definition honest :: "disk \<Rightarrow> bool" where
  "honest d \<longleftrightarrow> (\<forall>n err part. dk_faults d n = Some (err, part) \<longrightarrow> \<not> is_not_exist err)"

lemma faultless_honest: "faultless d \<Longrightarrow> honest d"
  by (simp add: faultless_def honest_def)

lemma tick_simps [simp]:
  "dk_files (tick d) = dk_files d" "dk_faults (tick d) = dk_faults d" "faultless (tick d) = faultless d"
  by (simp_all add: tick_def faultless_def)

lemma put_file_simps [simp]:
  "dk_faults (put_file p c m d) = dk_faults d" "faultless (put_file p c m d) = faultless d"
  "q \<noteq> p \<Longrightarrow> dk_files (put_file p c m d) q = dk_files d q"
  "map_option f_content (dk_files (put_file p c m d) p) = Some c"
  "dk_files (put_file p c m d) p =
     Some \<lparr>f_content = c, f_mode = (case dk_files d p of None \<Rightarrow> m | Some f \<Rightarrow> f_mode f)\<rparr>"
  by (simp_all add: put_file_def faultless_def)

lemma content_at_put [simp]: "content_at (put_file p c m d) p = Some c"
  by (simp add: content_at_def)

lemma faultless_next [simp]: "faultless d \<Longrightarrow> next_fault d = None"
  by (simp add: faultless_def next_fault_def)

lemma faultless_ops:
  assumes "faultless d"
  shows "os_ReadFile p d = (case dk_files d p of None \<Rightarrow> Inl (ErrNotExist p) | Some f \<Rightarrow> Inr (f_content f), tick d)"
    "os_WriteFile p c m d = (None, put_file p c m (tick d))" "os_MkdirAll p d = (None, tick d)"
    "os_Stat p d = (case dk_files d p of None \<Rightarrow> Inl (ErrNotExist p) | Some f \<Rightarrow> Inr (f_mode f), tick d)"
  using assms
  by (simp_all add: os_ReadFile_def os_WriteFile_def os_MkdirAll_def os_Stat_def split: option.split)

text \<open>What an operation leaves alone, whatever fails.\<close>

lemma os_frames:
  "os_ReadFile p d = (r, d') \<Longrightarrow> dk_files d' = dk_files d"
  "os_Stat p d = (r2, d') \<Longrightarrow> dk_files d' = dk_files d"
  "os_MkdirAll p d = (e, d') \<Longrightarrow> dk_files d' = dk_files d"
  "os_WriteFile p c m d = (e, d') \<Longrightarrow> q \<noteq> p \<Longrightarrow> dk_files d' q = dk_files d q"
  "os_Chmod p m d = (e, d') \<Longrightarrow> q \<noteq> p \<Longrightarrow> dk_files d' q = dk_files d q"
  by (auto simp: os_ReadFile_def os_Stat_def os_MkdirAll_def os_WriteFile_def os_Chmod_def
      split: option.splits prod.splits)

lemma os_Stat_ok:
  "os_Stat p d = (Inr m, d') \<Longrightarrow> \<exists>f. dk_files d p = Some f \<and> f_mode f = m"
  by (auto simp: os_Stat_def split: option.splits)

lemma os_Stat_present:
  "os_Stat p d = (Inl err, d') \<Longrightarrow> dk_files d p \<noteq> None \<Longrightarrow> next_fault d \<noteq> None"
  by (auto simp: os_Stat_def split: option.splits)

lemma os_WriteFile_ok:
  "os_WriteFile p c m d = (None, d') \<Longrightarrow> d' = put_file p c m (tick d)"
  by (auto simp: os_WriteFile_def split: option.splits prod.splits)

lemma os_faults:
  "os_ReadFile p d = (r, d') \<Longrightarrow> dk_faults d' = dk_faults d" "os_Stat p d = (r2, d') \<Longrightarrow> dk_faults d' = dk_faults d"
  "os_MkdirAll p d = (e, d') \<Longrightarrow> dk_faults d' = dk_faults d"
  "os_WriteFile p c m d = (e, d') \<Longrightarrow> dk_faults d' = dk_faults d"
  "os_Chmod p m d = (e, d') \<Longrightarrow> dk_faults d' = dk_faults d"
  by (auto simp: os_ReadFile_def os_Stat_def os_MkdirAll_def os_WriteFile_def os_Chmod_def
      split: option.splits prod.splits)

lemma honest_same: "dk_faults d' = dk_faults d \<Longrightarrow> honest d' = honest d"
  by (simp add: honest_def)

lemmas os_honest = os_faults [THEN honest_same]

lemma os_ReadFile_absent:
  "os_ReadFile p d = (Inl err, d') \<Longrightarrow> honest d \<Longrightarrow> is_not_exist err \<longleftrightarrow> dk_files d p = None \<and> next_fault d = None"
  by (auto simp: os_ReadFile_def honest_def next_fault_def is_not_exist_def split: option.splits prod.splits)

lemma os_Stat_absent:
  "os_Stat p d = (Inl err, d') \<Longrightarrow> honest d \<Longrightarrow> is_not_exist err \<Longrightarrow> dk_files d p = None"
  by (auto simp: os_Stat_def honest_def next_fault_def split: option.splits prod.splits)

lemma os_ReadFile_ok:
  "os_ReadFile p d = (Inr c, d') \<Longrightarrow> \<exists>f. dk_files d p = Some f \<and> f_content f = c"
  by (auto simp: os_ReadFile_def split: option.splits prod.splits)

section \<open>Paths below a directory\<close>

lemma clean_step_name:
  "e \<noteq> [] \<Longrightarrow> e \<noteq> ''.'' \<Longrightarrow> e \<noteq> ''..'' \<Longrightarrow> clean_step rooted acc e = e # acc"
  by simp

lemma Split_append: "Split (s @ sep # t) sep = Split s sep @ Split t sep"
proof (induction s)
  case Nil
  then show ?case by simp
next
  case (Cons c s)
  then show ?case by (cases "Split s sep") (auto simp: Split_not_Nil)
qed

lemma last_StrJoin: "s \<noteq> [] \<Longrightarrow> StrJoin (ss @ [s]) sep \<noteq> [] \<and> last (StrJoin (ss @ [s]) sep) = last s"
  by (induction ss) (simp_all add: StrJoin_Cons)

lemma last_Clean:
  assumes "name \<noteq> []" "name \<noteq> ''.''" "name \<noteq> ''..''" "CHR ''/'' \<notin> set name"
  shows "last (Clean (d @ CHR ''/'' # name)) = last name" "last (Clean name) = last name"
  using assms last_StrJoin [of name]
  by (auto simp: Clean_def Let_def Split_append Split_clean clean_step_name simp del: clean_step.simps)

lemma last_PathJoin:
  assumes "name \<noteq> []" "name \<noteq> ''.''" "name \<noteq> ''..''" "CHR ''/'' \<notin> set name"
  shows "last (PathJoin [d, name]) = last name"
  using assms last_Clean(1) [OF assms, of d] last_Clean(2) [OF assms] by (cases "d = []") (simp_all add: PathJoin_def)

end
