(* ===== verification/StateDB.thy ===== *)
theory StateDB
  imports Startup Files
begin

text \<open>
  The file of the SQLite store: \<open>OpenSQLite\<close> of \<open>internal/store/sqlite.go\<close> on the disk of
  \<open>Files\<close>. \<open>StoreSqlite\<close> has the tables and the statements; here is the part before, which
  decides who can read them. The driver is an argument: what it answers to \<open>sql.Open\<close>, what executing
  the schema makes of the file it finds (or of a missing one), and the mode it gives to a file it has
  to make itself, which is not the daemon's to choose. (The journal SQLite keeps beside the file while
  it writes takes the file's permissions and is not modelled.)
\<close>

section \<open>Definitions\<close>

text \<open>\<open>os.OpenFile\<close> with \<open>O_CREATE|O_RDWR\<close>: a file that is there is opened as it is.\<close>

definition os_OpenFile :: "gostring \<Rightarrow> nat \<Rightarrow> disk \<Rightarrow> goerr option \<times> disk" where
  "os_OpenFile path perm d =
     (case next_fault d of
        Some (err, _) \<Rightarrow> (Some err, tick d)
      | None \<Rightarrow>
          (None, if dk_files d path = None then put_file path [] perm (tick d) else tick d))"

record driver =
  dr_mode :: nat
  dr_open :: "goerr option"
  dr_schema :: "file_entry option \<Rightarrow> goerr option \<times> gostring \<times> sqlite"

text \<open>\<open>db.Exec(schema)\<close>: the driver opens the file at the path, making it with its own mode when it
  is missing, and writes the tables.\<close>

definition driver_exec :: "driver \<Rightarrow> gostring \<Rightarrow> disk \<Rightarrow> goerr option \<times> sqlite \<times> disk" where
  "driver_exec drv path d =
     (case dr_schema drv (dk_files d path) of
        (err, content, db) \<Rightarrow> (err, db, put_file path content (dr_mode drv) d))"

definition open_state_db :: "driver \<Rightarrow> gostring \<Rightarrow> int \<Rightarrow> disk \<Rightarrow> (goerr + sqlite) \<times> disk" where
  "open_state_db drv path capacity d =
     (case (if PathDir path \<noteq> [] \<and> PathDir path \<noteq> ''.'' then os_MkdirAll (PathDir path) d else (None, d)) of
        (Some err, d) \<Rightarrow> (Inl (Wrap ''state dir: '' err []), d)
      | (None, d) \<Rightarrow>
          (case os_OpenFile path 0x180 d of
             (Some err, d) \<Rightarrow> (Inl (Wrap ''state db: '' err []), d)
           | (None, d) \<Rightarrow>
               (case dr_open drv of
                  Some err \<Rightarrow> (Inl (Wrap ''open state db: '' err []), d)
                | None \<Rightarrow>
                    (case driver_exec drv path d of
                       (Some err, db, d) \<Rightarrow> (Inl (Wrap ''state db schema: '' err []), d)
                     | (None, db, d) \<Rightarrow> (Inr (OpenSQLite capacity db), d)))))"

section \<open>Lemmas\<close>

lemma OpenSQLite_twice: "OpenSQLite c (OpenSQLite c db) = OpenSQLite c db"
  by (simp add: OpenSQLite_def)

text \<open>The store \<open>main.go\<close> opens, with the database of the disk.\<close>

lemma newStore_opens:
  assumes "dc_Store (cfg_Daemon cfg) = ''sqlite''"
  shows "newStore (\<lambda>p. fst (open_state_db drv p (dc_HistoryCapacity (cfg_Daemon cfg)) d)) sys cfg =
    (case fst (open_state_db drv (StateDBPath sys cfg) (dc_HistoryCapacity (cfg_Daemon cfg)) d) of
       Inl err \<Rightarrow> Inl err | Inr db \<Rightarrow> Inr (OpenedSQLite db))"
proof -
  have "OpenSQLite c db = db" if "fst (open_state_db drv p c d) = Inr db" for c p db
    using that by (auto simp: open_state_db_def OpenSQLite_twice split: prod.splits option.splits)
  with assms show ?thesis by (auto simp: newStore_def split: sum.split)
qed




section \<open>Properties\<close>





end
