(* ===== verification/EnvFile.thy ===== *)
theory EnvFile
  imports Files JsonRoundTrip
begin

text \<open>
  The environment file of the self-hosting stack: \<open>ensureEnvVar\<close>, \<open>parseEnvVar\<close> and
  \<open>materializeStack\<close> of \<open>internal/setup/synapse.go\<close>. The random source and the embedded
  compose file are arguments.
\<close>

section \<open>Definitions\<close>

text \<open>What a line assigns to a key, if it assigns to it.\<close>

definition env_entry :: "gostring \<Rightarrow> gostring \<Rightarrow> gostring option" where
  "env_entry key line = CutPrefix (TrimSpace line) (key @ ''='')"

fun parse_lines :: "gostring \<Rightarrow> gostring list \<Rightarrow> gostring option" where
  "parse_lines key [] = None"
| "parse_lines key (l # ls) =
     (case env_entry key l of Some v \<Rightarrow> Some v | None \<Rightarrow> parse_lines key ls)"

definition parseEnvVar :: "gostring \<Rightarrow> gostring \<Rightarrow> gostring option" where
  "parseEnvVar content key = parse_lines key (Split content (CHR 0x0A))"

text \<open>The loop of \<open>ensureEnvVar\<close>: the lines passed so far, the lines to come; its value is what
  the function returns from inside the loop, if it does.\<close>

fun ensure_loop ::
  "gostring \<Rightarrow> gostring \<Rightarrow> gostring \<Rightarrow> gostring list \<Rightarrow> gostring list \<Rightarrow> gostring option" where
  "ensure_loop content key assignment pre [] = None"
| "ensure_loop content key assignment pre (l # ls) =
     (case env_entry key l of
        None \<Rightarrow> ensure_loop content key assignment (pre @ [l]) ls
      | Some v \<Rightarrow>
          if v \<noteq> [] then Some content else Some (StrJoin (pre @ assignment # ls) [CHR 0x0A]))"

definition ensureEnvVar :: "gostring \<Rightarrow> gostring \<Rightarrow> gostring \<Rightarrow> gostring" where
  "ensureEnvVar content key val =
     (let assignment = key @ ''='' @ val in
      case ensure_loop content key assignment [] (Split content (CHR 0x0A)) of
        Some res \<Rightarrow> res
      | None \<Rightarrow>
          (let content = (if content \<noteq> [] \<and> \<not> HasSuffix content [CHR 0x0A]
                          then content @ [CHR 0x0A] else content)
           in content @ assignment @ [CHR 0x0A]))"

definition hex_encode :: "gostring \<Rightarrow> gostring" where
  "hex_encode bs = concat (map (\<lambda>c. [hex_digit (bv c div 16), hex_digit (bv c mod 16)]) bs)"

definition randomHex :: "(nat \<Rightarrow> goerr + gostring) \<Rightarrow> nat \<Rightarrow> goerr + gostring" where
  "randomHex rand n =
     (case rand n of
        Inl err \<Rightarrow> Inl (Wrap ''generate random bytes: '' err [])
      | Inr buf \<Rightarrow> Inr (hex_encode buf))"

fun make_volumes :: "gostring \<Rightarrow> gostring list \<Rightarrow> disk \<Rightarrow> goerr option \<times> disk" where
  "make_volumes dir [] d = (None, d)"
| "make_volumes dir (sub # subs) d =
     (case os_MkdirAll (PathJoin [dir, ''data'', sub]) d of
        (Some err, d) \<Rightarrow> (Some (Wrap (''create data/'' @ sub @ '': '') err []), d)
      | (None, d) \<Rightarrow> make_volumes dir subs d)"

text \<open>From the content of \<open>.env\<close> on: the password kept or made, the file brought up to date.\<close>

definition update_env ::
  "(nat \<Rightarrow> goerr + gostring) \<Rightarrow> nat \<Rightarrow> nat \<Rightarrow> gostring \<Rightarrow> goerr + (gostring \<times> gostring)" where
  "update_env rand uid gid existing =
     (let kept = (case parseEnvVar existing ''POSTGRES_PASSWORD'' of
                    Some pw \<Rightarrow> pw | None \<Rightarrow> []);
          made = (if kept \<noteq> [] then Inr (kept, existing)
                  else case randomHex rand 16 of
                         Inl err \<Rightarrow> Inl err
                       | Inr pw \<Rightarrow> Inr (pw, ensureEnvVar existing ''POSTGRES_PASSWORD'' pw))
      in case made of
           Inl err \<Rightarrow> Inl err
         | Inr (pw, updated) \<Rightarrow>
             Inr (pw, ensureEnvVar (ensureEnvVar updated ''QUIETDM_UID'' (itoa (int uid)))
                        ''QUIETDM_GID'' (itoa (int gid))))"

definition read_env :: "gostring \<Rightarrow> disk \<Rightarrow> (goerr + gostring) \<times> disk" where
  "read_env envPath d =
     (case os_ReadFile envPath d of
        (Inr content, d) \<Rightarrow> (Inr content, d)
      | (Inl err, d) \<Rightarrow>
          (if is_not_exist err then Inr [] else Inl (Wrap (''read '' @ envPath @ '': '') err []), d))"

definition write_env :: "gostring \<Rightarrow> gostring \<Rightarrow> gostring \<Rightarrow> disk \<Rightarrow> goerr option \<times> disk" where
  "write_env envPath existing updated d =
     (if updated \<noteq> existing
      then (case os_WriteFile envPath updated 0x180 d of
              (Some err, d) \<Rightarrow> (Some (Wrap (''write '' @ envPath @ '': '') err []), d)
            | (None, d) \<Rightarrow> (None, d))
      else (None, d))"

definition materializeStack ::
  "(nat \<Rightarrow> goerr + gostring) \<Rightarrow> nat \<Rightarrow> nat \<Rightarrow> gostring \<Rightarrow> gostring \<Rightarrow> disk
     \<Rightarrow> (goerr + gostring) \<times> disk" where
  "materializeStack rand uid gid ComposeYAML dir d =
     (let composePath = PathJoin [dir, ''compose.yaml'']; envPath = PathJoin [dir, ''.env''] in
      case os_MkdirAll dir d of
        (Some err, d) \<Rightarrow> (Inl (Wrap (''create '' @ dir @ '': '') err []), d)
      | (None, d) \<Rightarrow>
          (case os_WriteFile composePath ComposeYAML 0x1A4 d of
             (Some err, d) \<Rightarrow> (Inl (Wrap (''write '' @ composePath @ '': '') err []), d)
           | (None, d) \<Rightarrow>
               (case read_env envPath d of
                  (Inl err, d) \<Rightarrow> (Inl err, d)
                | (Inr existing, d) \<Rightarrow>
                    (case update_env rand uid gid existing of
                       Inl err \<Rightarrow> (Inl err, d)
                     | Inr (pw, updated) \<Rightarrow>
                         (case write_env envPath existing updated d of
                            (Some err, d) \<Rightarrow> (Inl err, d)
                          | (None, d) \<Rightarrow>
                              (case make_volumes dir [''postgres'', ''synapse'', ''bridge''] d of
                                 (Some err, d) \<Rightarrow> (Inl err, d)
                               | (None, d) \<Rightarrow> (Inr pw, d)))))))"

section \<open>Trimming plain words\<close>

text \<open>Keys and values of printable ASCII without spaces; keys have no equals sign.\<close>

definition env_word :: "gostring \<Rightarrow> bool" where
  "env_word s \<longleftrightarrow> list_all (\<lambda>c. 0x21 \<le> bv c \<and> bv c < 0x7F) s"

definition env_key :: "gostring \<Rightarrow> bool" where
  "env_key k \<longleftrightarrow> k \<noteq> [] \<and> env_word k \<and> CHR ''='' \<notin> set k"

lemma chunks_ascii: "list_all (\<lambda>c. bv c < 0x80) s \<Longrightarrow> chunks s = map (\<lambda>c. (bv c, [c])) s"
  by (induction s) (simp_all add: decode_rune_def)

lemma not_IsSpace: "0x21 \<le> r \<Longrightarrow> r < 0x7F \<Longrightarrow> \<not> IsSpace r"
  by (auto simp: IsSpace_def)

lemma TrimSpace_word: "env_word s \<Longrightarrow> TrimSpace s = s"
proof -
  assume w: "env_word s"
  then have "chunks s = map (\<lambda>c. (bv c, [c])) s"
    by (intro chunks_ascii) (auto simp: env_word_def list_all_iff)
  moreover have keep: "dropWhile (\<lambda>(r, bs). IsSpace r) (map (\<lambda>c. (bv c, [c])) t) = map (\<lambda>c. (bv c, [c])) t"
    if "set t \<subseteq> set s" for t
  proof (cases t)
    case (Cons c cs)
    with w that have "\<not> IsSpace (bv c)" by (intro not_IsSpace) (auto simp: env_word_def list_all_iff)
    then show ?thesis by (simp add: Cons)
  qed simp
  ultimately show ?thesis using keep [of s] keep [of "rev s"]
    by (simp add: TrimSpace_def Let_def rev_map comp_def)
qed

lemma TrimSpace_Nil [simp]: "TrimSpace [] = []"
  by (simp add: TrimSpace_def)

lemma env_word_simps [simp]:
  "env_word []" "env_word (s @ t) \<longleftrightarrow> env_word s \<and> env_word t"
  "env_word (c # s) \<longleftrightarrow> 0x21 \<le> bv c \<and> bv c < 0x7F \<and> env_word s"
  by (simp_all add: env_word_def)

lemma env_word_no_newline: "env_word s \<Longrightarrow> CHR 0x0A \<notin> set s"
  by (auto simp: env_word_def list_all_iff)

section \<open>Entries\<close>

lemma env_entry_own: "env_key k \<Longrightarrow> env_word v \<Longrightarrow> env_entry k (k @ ''='' @ v) = Some v"
  using TrimSpace_word [of "k @ ''='' @ v"]
  by (simp add: env_entry_def env_key_def CutPrefix_def HasPrefix_def)

lemma env_entry_Nil [simp]: "env_entry k [] = None"
  by (simp add: env_entry_def CutPrefix_def HasPrefix_def)

text \<open>A line assigns to one key only.\<close>

lemma env_entry_unique:
  assumes "env_key k" and "env_key k'" and "env_entry k l = Some v" and "env_entry k' l = Some v'"
  shows "k = k'"
proof -
  have "TrimSpace l = k @ CHR ''='' # v" "TrimSpace l = k' @ CHR ''='' # v'"
    using assms(3,4)
    by (auto simp: env_entry_def CutPrefix_def HasPrefix_def split: if_splits) (metis append_Cons append_Nil append_assoc append_take_drop_id)+
  then have "k @ CHR ''='' # v = k' @ CHR ''='' # v'" by simp
  then have "takeWhile (\<lambda>c. c \<noteq> CHR ''='') (k @ CHR ''='' # v)
      = takeWhile (\<lambda>c. c \<noteq> CHR ''='') (k' @ CHR ''='' # v')" by simp
  moreover have "takeWhile (\<lambda>c. c \<noteq> CHR ''='') (q @ CHR ''='' # w) = q" if "env_key q" for q w
  proof -
    from that have "\<forall>c\<in>set q. c \<noteq> CHR ''=''" by (auto simp: env_key_def)
    then show ?thesis by (simp add: takeWhile_append)
  qed
  ultimately show ?thesis using assms(1,2) by simp
qed

section \<open>Reading what was written\<close>

lemma parse_lines_append:
  "parse_lines k (us @ vs) = (case parse_lines k us of Some v \<Rightarrow> Some v | None \<Rightarrow> parse_lines k vs)"
  by (induction us) (simp_all split: option.split)

lemma ensure_loop_cases:
  "(parse_lines key ls = None \<and> ensure_loop content key a pre ls = None)
   \<or> (\<exists>v. v \<noteq> [] \<and> parse_lines key ls = Some v \<and> ensure_loop content key a pre ls = Some content)
   \<or> (\<exists>us l vs. ls = us @ l # vs \<and> parse_lines key us = None \<and> env_entry key l = Some []
        \<and> ensure_loop content key a pre ls = Some (StrJoin (pre @ us @ a # vs) [CHR 0x0A]))"
proof (induction ls arbitrary: pre)
  case Nil
  then show ?case by simp
next
  case (Cons l ls)
  show ?case
  proof (cases "env_entry key l")
    case (Some v)
    show ?thesis
    proof (cases "v = []")
      case True
      with Some show ?thesis by (intro disjI2 exI [of _ "[]"] exI [of _ l] exI [of _ ls]) simp
    qed (simp add: Some)
  next
    case None
    from Cons.IH [of "pre @ [l]"] show ?thesis
    proof (elim disjE exE conjE)
      fix us l' vs assume "ls = us @ l' # vs" "parse_lines key us = None" "env_entry key l' = Some []"
        "ensure_loop content key a (pre @ [l]) ls = Some (StrJoin ((pre @ [l]) @ us @ a # vs) [CHR 0x0A])"
      with None show ?thesis by (intro disjI2 exI [of _ "l # us"] exI [of _ l'] exI [of _ vs]) simp
    qed (simp_all add: None)
  qed
qed

text \<open>What \<open>ensureEnvVar\<close> returns: the content as it was, the first (empty) assignment filled in,
  or a line at the end.\<close>

lemma ensure_cases:
  obtains (kept) v where "v \<noteq> []" "parseEnvVar content key = Some v" "ensureEnvVar content key val = content"
  | (filled) us l vs where "Split content (CHR 0x0A) = us @ l # vs" "parse_lines key us = None"
      "env_entry key l = Some []"
      "ensureEnvVar content key val = StrJoin (us @ (key @ ''='' @ val) # vs) [CHR 0x0A]"
  | (added) base where "parseEnvVar content key = None"
      "ensureEnvVar content key val = base @ (key @ ''='' @ val) @ [CHR 0x0A]"
      "base = [] \<and> content = [] \<or> base = content \<and> HasSuffix content [CHR 0x0A]
         \<or> base = content @ [CHR 0x0A]"
  using ensure_loop_cases [of key "Split content (CHR 0x0A)" content "key @ ''='' @ val" "[]"]
  by (auto simp: ensureEnvVar_def parseEnvVar_def Let_def split: if_splits)

lemma HasSuffix_newline: "HasSuffix s [c] \<longleftrightarrow> (\<exists>t. s = t @ [c])"
proof
  assume "HasSuffix s [c]"
  then have "s = take (length s - 1) s @ [c]" unfolding HasSuffix_def by (metis append_take_drop_id list.size(3) length_Cons One_nat_def)
  then show "\<exists>t. s = t @ [c]" by blast
qed (auto simp: HasSuffix_def)

text \<open>A line added at the end is read after everything else.\<close>

lemma parse_added:
  assumes "base = [] \<and> content = [] \<or> base = content \<and> HasSuffix content [CHR 0x0A]
      \<or> base = content @ [CHR 0x0A]"
    and "CHR 0x0A \<notin> set a"
  shows "parseEnvVar (base @ a @ [CHR 0x0A]) k =
    (case parseEnvVar content k of Some v \<Rightarrow> Some v | None \<Rightarrow> env_entry k a)"
proof -
  have tail: "Split (a @ [CHR 0x0A]) (CHR 0x0A) = [a, []]"
    using assms(2) by (simp add: Split_append_sep)
  have line: "parse_lines k [a, []] = env_entry k a" by (simp split: option.split)
  from assms(1) show ?thesis
  proof (elim disjE conjE)
    assume "base = []" "content = []"
    then show ?thesis using tail line by (simp add: parseEnvVar_def)
  next
    assume b: "base = content" "HasSuffix content [CHR 0x0A]"
    then obtain t where t: "content = t @ [CHR 0x0A]" by (auto simp: HasSuffix_newline)
    have "Split (base @ a @ [CHR 0x0A]) (CHR 0x0A) = Split t (CHR 0x0A) @ [a, []]"
      using Split_append [of t "CHR 0x0A" "a @ [CHR 0x0A]"] tail by (simp add: b(1) t)
    moreover have "Split content (CHR 0x0A) = Split t (CHR 0x0A) @ [[]]"
      using Split_append [of t "CHR 0x0A" "[]"] by (simp add: t)
    ultimately show ?thesis
      by (simp add: parseEnvVar_def parse_lines_append split: option.split)
  next
    assume b: "base = content @ [CHR 0x0A]"
    have "Split (base @ a @ [CHR 0x0A]) (CHR 0x0A) = Split content (CHR 0x0A) @ [a, []]"
      using Split_append [of content "CHR 0x0A" "a @ [CHR 0x0A]"] tail by (simp add: b)
    then show ?thesis by (simp add: parseEnvVar_def parse_lines_append split: option.split)
  qed
qed

lemma Split_filled:
  assumes "Split content (CHR 0x0A) = us @ l # vs" and "CHR 0x0A \<notin> set a"
  shows "Split (StrJoin (us @ a # vs) [CHR 0x0A]) (CHR 0x0A) = us @ a # vs"
proof (rule Split_StrJoin)
  fix s assume "s \<in> set (us @ a # vs)"
  then show "CHR 0x0A \<notin> set s"
    using assms Split_parts [of s content "CHR 0x0A"] by auto
qed simp

section \<open>\<open>ensureEnvVar\<close>\<close>

lemma assignment_no_newline: "env_key k \<Longrightarrow> env_word v \<Longrightarrow> CHR 0x0A \<notin> set (k @ ''='' @ v)"
  by (auto simp: env_key_def dest: env_word_no_newline)

lemma parse_ensure:
  assumes "env_key k" and "env_word v"
  shows "parseEnvVar (ensureEnvVar content k v) q =
    (if q = k then Some (case parseEnvVar content k of None \<Rightarrow> v | Some w \<Rightarrow> if w = [] then v else w)
     else if env_key q then parseEnvVar content q
     else parseEnvVar (ensureEnvVar content k v) q)"
proof (cases rule: ensure_cases [of content k v])
  case (kept w)
  then show ?thesis by simp
next
  case (filled us l vs)
  let ?a = "k @ ''='' @ v"
  have new: "parseEnvVar (ensureEnvVar content k v) q = parse_lines q (us @ ?a # vs)"
    using Split_filled [OF filled(1) assignment_no_newline [OF assms]]
    by (simp add: parseEnvVar_def filled(4))
  have old: "parseEnvVar content q = parse_lines q (us @ l # vs)"
    by (simp add: parseEnvVar_def filled(1))
  consider "q = k" | "q \<noteq> k" "env_key q" | "q \<noteq> k" "\<not> env_key q" by blast
  then show ?thesis
  proof cases
    case 1
    then show ?thesis using new old filled(2,3) env_entry_own [OF assms]
      by (simp add: parse_lines_append)
  next
    case 2
    have "env_entry q ?a = None" "env_entry q l = None"
      using env_entry_unique [OF assms(1) 2(2)] env_entry_own [OF assms] filled(3) 2(1)
      by (metis not_Some_eq)+
    with 2 new old show ?thesis by (simp add: parse_lines_append split: option.split)
  qed simp
next
  case (added base)
  have new: "parseEnvVar (ensureEnvVar content k v) q =
      (case parseEnvVar content q of Some w \<Rightarrow> Some w | None \<Rightarrow> env_entry q (k @ ''='' @ v))"
    using parse_added [OF added(3) assignment_no_newline [OF assms]] by (simp add: added(2))
  show ?thesis
  proof (cases "q = k")
    case True
    with new added(1) env_entry_own [OF assms] show ?thesis by simp
  next
    case False
    have "env_entry q (k @ ''='' @ v) = None" if "env_key q"
      using env_entry_unique [OF assms(1) that] env_entry_own [OF assms] False by (metis not_Some_eq)
    with False new show ?thesis by (simp split: option.split)
  qed
qed

lemma parse_ensure_own:
  "env_key k \<Longrightarrow> env_word v \<Longrightarrow> parseEnvVar (ensureEnvVar content k v) k
     = Some (case parseEnvVar content k of None \<Rightarrow> v | Some w \<Rightarrow> if w = [] then v else w)"
  using parse_ensure [of k v content k] by simp

lemma parse_ensure_other:
  "env_key k \<Longrightarrow> env_word v \<Longrightarrow> env_key q \<Longrightarrow> q \<noteq> k \<Longrightarrow>
     parseEnvVar (ensureEnvVar content k v) q = parseEnvVar content q"
  using parse_ensure [of k v content q] by simp

lemma ensure_set: "parseEnvVar content k = Some w \<Longrightarrow> w \<noteq> [] \<Longrightarrow> ensureEnvVar content k v = content"
proof (cases rule: ensure_cases [of content k v])
  case (filled us l vs)
  assume "parseEnvVar content k = Some w" "w \<noteq> []"
  with filled show ?thesis by (simp add: parseEnvVar_def parse_lines_append)
qed simp_all

text \<open>Setting a variable in the environment file. Afterwards the key has a value: the one
  it had if that was not empty, else the new one; every other key reads as before; and
  doing it again, with any value, changes nothing.\<close>

theorem ensure_env_var:
  assumes "env_key k" and "env_word v" and "v \<noteq> []"
  shows "parseEnvVar (ensureEnvVar content k v) k =
      Some (case parseEnvVar content k of None \<Rightarrow> v | Some w \<Rightarrow> if w = [] then v else w)
    \<and> (\<forall>q. env_key q \<and> q \<noteq> k \<longrightarrow> parseEnvVar (ensureEnvVar content k v) q = parseEnvVar content q)
    \<and> ensureEnvVar (ensureEnvVar content k v) k v2 = ensureEnvVar content k v"
proof -
  have own: "parseEnvVar (ensureEnvVar content k v) k =
      Some (case parseEnvVar content k of None \<Rightarrow> v | Some w \<Rightarrow> if w = [] then v else w)"
    by (rule parse_ensure_own [OF assms(1,2)])
  have "(case parseEnvVar content k of None \<Rightarrow> v | Some w \<Rightarrow> if w = [] then v else w) \<noteq> []"
    using assms(3) by (simp split: option.split)
  from ensure_set [OF own this] own parse_ensure_other [OF assms(1,2)] show ?thesis by blast
qed

lemma stack_keys: "env_key ''POSTGRES_PASSWORD''" "env_key ''QUIETDM_UID''" "env_key ''QUIETDM_GID''"
  by (simp_all add: env_key_def)

theorem ensure_env_var_witness:
  "parseEnvVar (ensureEnvVar ''A=1'' ''QUIETDM_UID'' ''1000'') ''QUIETDM_UID'' = Some ''1000''
   \<and> ensureEnvVar ''A=1'' ''QUIETDM_UID'' ''1000'' = ''A=1'' @ [CHR 0x0A] @ ''QUIETDM_UID=1000'' @ [CHR 0x0A]"
proof -
  have w: "env_word ''1000''" "''1000'' \<noteq> ([] :: gostring)" by simp_all
  have e: "env_entry ''QUIETDM_UID'' ''A=1'' = None"
    using TrimSpace_word [of "''A=1''"] by (simp add: env_entry_def CutPrefix_def HasPrefix_def)
  then have p: "parseEnvVar ''A=1'' ''QUIETDM_UID'' = None" by (simp add: parseEnvVar_def)
  have "ensureEnvVar ''A=1'' ''QUIETDM_UID'' ''1000'' = ''A=1'' @ [CHR 0x0A] @ ''QUIETDM_UID=1000'' @ [CHR 0x0A]"
    using e by (simp add: ensureEnvVar_def HasSuffix_def)
  with ensure_env_var [OF stack_keys(2) w, of "''A=1''" "[]"] p show ?thesis by simp
qed

section \<open>The stack\<close>

lemma hex_digit_word: "n < 16 \<Longrightarrow> 0x21 \<le> bv (hex_digit n) \<and> bv (hex_digit n) < 0x7F"
  by (auto simp: hex_digit_def bv_char_of simp del: of_char_of)

lemma hex_encode_word: "env_word (hex_encode bs)"
  using hex_digit_word by (auto simp: hex_encode_def env_word_def list_all_iff less_mult_imp_div_less)

lemma hex_encode_eq_Nil_iff [simp]: "hex_encode bs = [] \<longleftrightarrow> bs = []"
  by (cases bs) (simp_all add: hex_encode_def)

lemma itoa_word: "env_word (itoa (int n)) \<and> itoa (int n) \<noteq> []"
  using utoa_digits [of n] by (auto simp: itoa_def env_word_def list_all_iff is_digit_def)

text \<open>What the environment file is after an update: it has the password returned and both ids.\<close>

definition env_ready :: "gostring \<Rightarrow> gostring \<Rightarrow> bool" where
  "env_ready pw content \<longleftrightarrow> parseEnvVar content ''POSTGRES_PASSWORD'' = Some pw \<and> pw \<noteq> []
     \<and> (\<exists>u. parseEnvVar content ''QUIETDM_UID'' = Some u \<and> u \<noteq> [])
     \<and> (\<exists>g. parseEnvVar content ''QUIETDM_GID'' = Some g \<and> g \<noteq> [])"

lemma ensure_own_set:
  assumes "env_key k" and "env_word v" and "v \<noteq> []"
  shows "\<exists>w. parseEnvVar (ensureEnvVar content k v) k = Some w \<and> w \<noteq> []"
  using parse_ensure_own [OF assms(1,2), of content] assms(3) by (auto split: option.split)

lemma update_env_ready:
  assumes "update_env rand uid gid existing = Inr (pw, updated)"
    and "\<And>buf. rand 16 = Inr buf \<Longrightarrow> length buf = 16"
  shows "env_ready pw updated
    \<and> (\<forall>w. parseEnvVar existing ''POSTGRES_PASSWORD'' = Some w \<longrightarrow> w \<noteq> [] \<longrightarrow> pw = w)"
proof -
  let ?kept = "case parseEnvVar existing ''POSTGRES_PASSWORD'' of Some p \<Rightarrow> p | None \<Rightarrow> []"
  obtain mid where mid: "updated = ensureEnvVar (ensureEnvVar mid ''QUIETDM_UID'' (itoa (int uid)))
      ''QUIETDM_GID'' (itoa (int gid))"
    "parseEnvVar mid ''POSTGRES_PASSWORD'' = Some pw" "pw \<noteq> []" "?kept \<noteq> [] \<longrightarrow> pw = ?kept"
  proof (cases "?kept = []")
    case False
    with assms(1) show ?thesis by (intro that [of existing]) (auto simp: update_env_def split: option.splits)
  next
    case True
    with assms(1) obtain buf where b: "rand 16 = Inr buf" "pw = hex_encode buf"
      "updated = ensureEnvVar (ensureEnvVar (ensureEnvVar existing ''POSTGRES_PASSWORD'' pw) ''QUIETDM_UID''
         (itoa (int uid))) ''QUIETDM_GID'' (itoa (int gid))"
      by (auto simp: update_env_def randomHex_def Let_def split: sum.splits)
    have "pw \<noteq> []" using assms(2) [OF b(1)] b(2) by auto
    moreover have "parseEnvVar (ensureEnvVar existing ''POSTGRES_PASSWORD'' pw) ''POSTGRES_PASSWORD'' = Some pw"
      using parse_ensure_own [OF stack_keys(1), of pw existing] True hex_encode_word b(2)
      by (auto split: option.splits)
    ultimately show ?thesis using True b(3) by (intro that) simp_all
  qed
  have u: "env_word (itoa (int uid))" "itoa (int uid) \<noteq> []" "env_word (itoa (int gid))" "itoa (int gid) \<noteq> []"
    using itoa_word by simp_all
  let ?m = "ensureEnvVar mid ''QUIETDM_UID'' (itoa (int uid))"
  have "parseEnvVar updated ''POSTGRES_PASSWORD'' = Some pw"
    using mid(2) by (simp add: mid(1) parse_ensure_other stack_keys u)
  moreover have "parseEnvVar updated ''QUIETDM_UID'' = parseEnvVar ?m ''QUIETDM_UID''"
    by (simp add: mid(1) parse_ensure_other stack_keys u)
  ultimately have "env_ready pw updated"
    using ensure_own_set [OF stack_keys(2) u(1,2), of mid] ensure_own_set [OF stack_keys(3) u(3,4), of ?m] mid(3)
    unfolding env_ready_def mid(1) by auto
  with mid(4) show ?thesis by auto
qed

lemma update_env_again: "env_ready pw content \<Longrightarrow> update_env rand uid gid content = Inr (pw, content)"
  by (auto simp: env_ready_def update_env_def Let_def ensure_set)

lemma make_volumes_files: "make_volumes dir subs d = (e, d') \<Longrightarrow> dk_files d' = dk_files d"
proof (induction subs arbitrary: d)
  case (Cons sub subs)
  obtain e1 d1 where m: "os_MkdirAll (PathJoin [dir, ''data'', sub]) d = (e1, d1)" by fastforce
  from os_frames(3) [OF m] Cons show ?case by (cases e1) (auto simp: m)
qed simp

lemma env_not_compose: "PathJoin [dir, ''.env''] \<noteq> PathJoin [dir, ''compose.yaml'']"
proof
  assume e: "PathJoin [dir, ''.env''] = PathJoin [dir, ''compose.yaml'']"
  have "last (PathJoin [dir, ''.env'']) = CHR ''v''" "last (PathJoin [dir, ''compose.yaml'']) = CHR ''l''"
    using last_PathJoin [of "''.env''" dir] last_PathJoin [of "''compose.yaml''" dir] by simp_all
  with e show False by simp
qed

definition env_content :: "gostring \<Rightarrow> disk \<Rightarrow> gostring" where
  "env_content dir d =
     (case dk_files d (PathJoin [dir, ''.env'']) of None \<Rightarrow> [] | Some f \<Rightarrow> f_content f)"

lemma read_env_ok:
  assumes "read_env p d = (Inr content, d')" and "honest d"
  shows "content = (case dk_files d p of None \<Rightarrow> [] | Some f \<Rightarrow> f_content f) \<and> dk_files d' = dk_files d"
proof -
  obtain res d1 where r: "os_ReadFile p d = (res, d1)" by fastforce
  with assms(1) have "d' = d1" by (auto simp: read_env_def split: sum.splits)
  show ?thesis
  proof (cases res)
    case (Inl err)
    with assms r os_ReadFile_absent [OF r [unfolded Inl] assms(2)] os_frames(1) [OF r] show ?thesis
      by (auto simp: read_env_def split: if_splits)
  next
    case (Inr c)
    with assms r os_ReadFile_ok [OF r [unfolded Inr]] os_frames(1) [OF r] show ?thesis
      by (auto simp: read_env_def)
  qed
qed

lemma write_env_ok:
  assumes "write_env p existing updated d = (None, d')"
  shows "if updated = existing then d' = d else d' = put_file p updated 0x180 (tick d)"
  using assms by (auto simp: write_env_def dest!: os_WriteFile_ok split: if_splits prod.splits option.splits)

text \<open>A run that succeeds: what was read, what was made of it, what is there now.\<close>

lemma materializeStack_ok:
  assumes "materializeStack rand uid gid yaml dir d = (Inr pw, d')" and "honest d"
  shows "\<exists>updated. update_env rand uid gid (env_content dir d) = Inr (pw, updated)
    \<and> env_content dir d' = updated
    \<and> (updated = env_content dir d \<longrightarrow>
         dk_files d' (PathJoin [dir, ''.env'']) = dk_files d (PathJoin [dir, ''.env'']))"
proof -
  let ?env = "PathJoin [dir, ''.env'']" and ?yaml = "PathJoin [dir, ''compose.yaml'']"
  let ?vols = "[''postgres'', ''synapse'', ''bridge'']"
  obtain e1 d1 where m: "os_MkdirAll dir d = (e1, d1)" by fastforce
  obtain e2 d2 where c: "os_WriteFile ?yaml yaml 0x1A4 d1 = (e2, d2)" by fastforce
  obtain res d3 where r: "read_env ?env d2 = (res, d3)" by fastforce
  note run = materializeStack_def Let_def m
  have e1: "e1 = None" using assms(1) by (cases e1) (simp_all add: run)
  have e2: "e2 = None" using assms(1) e1 by (cases e2) (simp_all add: run c)
  note e = e1 e2 c
  obtain existing where x: "res = Inr existing" using assms(1) by (cases res) (simp_all add: run e r)
  obtain p updated where u: "update_env rand uid gid existing = Inr (p, updated)"
    using assms(1) by (cases "update_env rand uid gid existing") (auto simp: run e r x simp del: make_volumes.simps)
  obtain e4 d4 where w: "write_env ?env existing updated d3 = (e4, d4)" by fastforce
  obtain e5 d5 where v: "make_volumes dir ?vols d4 = (e5, d5)" by fastforce
  have "e4 = None" using assms(1) by (cases e4) (simp_all add: run e r x u w del: make_volumes.simps)
  moreover from this have "p = pw \<and> d' = d5"
    using assms(1) v by (cases e5) (simp_all add: run e r x u w del: make_volumes.simps)
  ultimately have fin: "e4 = None" "p = pw" "d' = d5" by simp_all
  have same: "dk_files d2 ?env = dk_files d ?env"
    using os_frames(4) [OF c env_not_compose] os_frames(3) [OF m] by simp
  have "honest d2" using assms(2) os_honest(3) [OF m] os_honest(4) [OF c] by simp
  with read_env_ok [of ?env d2 existing d3] r x same
  have ex: "existing = env_content dir d" "dk_files d3 = dk_files d2" by (auto simp: env_content_def)
  have "dk_files d' = dk_files d4" using make_volumes_files [OF v] by (simp add: fin)
  with write_env_ok [OF w [unfolded fin(1)]] u ex same fin(2) show ?thesis
    by (cases "updated = existing") (auto simp: env_content_def)
qed

text \<open>C31: the database password is made once. A successful run leaves an environment file that
  holds the password it returns, and the one the file had before if it had one; and any
  later successful run, with whatever random source, user and group, returns the same
  password and leaves the file exactly as it is, so the database is never orphaned.\<close>

theorem stack_password_kept:
  assumes "materializeStack rand uid gid yaml dir d = (Inr pw, d1)" and "honest d"
    and "\<And>buf. rand 16 = Inr buf \<Longrightarrow> length buf = 16"
    and "materializeStack rand2 uid2 gid2 yaml2 dir d2 = (Inr pw2, d3)" and "honest d2"
    and "dk_files d2 (PathJoin [dir, ''.env'']) = dk_files d1 (PathJoin [dir, ''.env''])"
  shows "pw \<noteq> [] \<and> parseEnvVar (env_content dir d1) ''POSTGRES_PASSWORD'' = Some pw
    \<and> (\<forall>w. parseEnvVar (env_content dir d) ''POSTGRES_PASSWORD'' = Some w \<and> w \<noteq> [] \<longrightarrow> pw = w)
    \<and> pw2 = pw \<and> dk_files d3 (PathJoin [dir, ''.env'']) = dk_files d2 (PathJoin [dir, ''.env''])"
proof -
  from materializeStack_ok [OF assms(1,2)] obtain upd where 1:
    "update_env rand uid gid (env_content dir d) = Inr (pw, upd)" "env_content dir d1 = upd" by blast
  from update_env_ready [OF 1(1) assms(3)] have ready: "env_ready pw (env_content dir d1)"
    "\<forall>w. parseEnvVar (env_content dir d) ''POSTGRES_PASSWORD'' = Some w \<longrightarrow> w \<noteq> [] \<longrightarrow> pw = w"
    by (simp_all add: 1(2))
  have "env_content dir d2 = env_content dir d1" by (simp add: env_content_def assms(6))
  with update_env_again [OF ready(1)] materializeStack_ok [OF assms(4,5)] ready show ?thesis
    by (auto simp: env_ready_def)
qed

definition empty_disk :: disk where
  "empty_disk = \<lparr>dk_files = Map.empty, dk_faults = (\<lambda>_. None), dk_ops = 0\<rparr>"

lemma empty_disk_faultless: "faultless empty_disk"
  by (simp add: empty_disk_def faultless_def)

lemma make_volumes_faultless: "faultless d \<Longrightarrow> \<exists>d'. make_volumes dir subs d = (None, d') \<and> faultless d'"
  by (induction subs arbitrary: d) (simp_all add: faultless_ops)

lemma materializeStack_runs:
  assumes "faultless d" and "rand 16 = Inr buf"
  shows "\<exists>pw d'. materializeStack rand uid gid yaml dir d = (Inr pw, d') \<and> faultless d'"
proof -
  let ?env = "PathJoin [dir, ''.env'']"
  define d2 where "d2 = put_file (PathJoin [dir, ''compose.yaml'']) yaml 0x1A4 (tick (tick d))"
  have f2: "faultless d2" using assms(1) by (simp add: d2_def)
  obtain existing where r: "read_env ?env d2 = (Inr existing, tick d2)"
    using f2 by (cases "dk_files d2 ?env") (auto simp: read_env_def faultless_ops is_not_exist_def)
  obtain pw updated where u: "update_env rand uid gid existing = Inr (pw, updated)"
  proof -
    have h: "randomHex rand 16 = Inr (hex_encode buf)" using assms(2) by (simp add: randomHex_def)
    have "\<exists>pw updated. update_env rand uid gid existing = Inr (pw, updated)"
      by (cases "(case parseEnvVar existing ''POSTGRES_PASSWORD'' of Some p \<Rightarrow> p | None \<Rightarrow> []) = []")
        (simp_all add: update_env_def Let_def h)
    then show ?thesis using that by blast
  qed
  obtain d4 where w: "write_env ?env existing updated (tick d2) = (None, d4)" "faultless d4"
    using f2 by (cases "updated = existing") (simp_all add: write_env_def faultless_ops)
  from make_volumes_faultless [OF w(2)] obtain d5 where v:
    "make_volumes dir [''postgres'', ''synapse'', ''bridge''] d4 = (None, d5)" "faultless d5" by blast
  show ?thesis
    using assms(1) r u w v
    by (simp add: materializeStack_def faultless_ops d2_def [symmetric] del: make_volumes.simps)
qed

theorem stack_password_kept_witness:
  "\<exists>pw d1 d2. materializeStack (\<lambda>n. Inr (replicate n (CHR ''a''))) 1000 1000 ''yaml'' ''/s'' empty_disk = (Inr pw, d1)
     \<and> materializeStack (\<lambda>n. Inr (replicate n (CHR ''b''))) 0 0 ''yaml'' ''/s'' d1 = (Inr pw, d2) \<and> pw \<noteq> []"
proof -
  let ?a = "\<lambda>n. Inr (replicate n (CHR ''a'')) :: goerr + gostring"
    and ?b = "\<lambda>n. Inr (replicate n (CHR ''b'')) :: goerr + gostring"
  obtain pw d1 where 1: "materializeStack ?a 1000 1000 ''yaml'' ''/s'' empty_disk = (Inr pw, d1)" "faultless d1"
    using materializeStack_runs [OF empty_disk_faultless, of ?a] by blast
  obtain pw2 d2 where 2: "materializeStack ?b 0 0 ''yaml'' ''/s'' d1 = (Inr pw2, d2)"
    using materializeStack_runs [OF 1(2), of ?b] by blast
  have "length buf = 16" if "?a 16 = Inr buf" for buf using that by auto
  from stack_password_kept [OF 1(1) faultless_honest [OF empty_disk_faultless] this 2 faultless_honest [OF 1(2)] refl] 1 2
  show ?thesis by auto
qed

end
