(* ===== verification/Yaml.thy ===== *)
theory Yaml
  imports Files
begin

text \<open>
  \<open>internal/setup/yamlpatch.go\<close>: editing a YAML node tree in place. A node is the part of
  \<open>yaml.Node\<close> the code reads, makes or must keep: kind, tag, value, the three comments and
  the content (for a mapping: keys and values in turn). The tree is updated where the code
  follows pointers into it; parsed trees share no nodes. The parser and the printer
  (\<open>yaml.Unmarshal\<close>, \<open>yaml.Marshal\<close>) are arguments.
\<close>

section \<open>Definitions\<close>

datatype ykind = DocumentNode | SequenceNode | MappingNode | ScalarNode | AliasNode

datatype ynode =
  YNode (y_kind: ykind) (y_tag: gostring) (y_value: gostring)
    (y_comments: "gostring \<times> gostring \<times> gostring") (y_content: "ynode list")

definition fresh :: "ykind \<Rightarrow> gostring \<Rightarrow> gostring \<Rightarrow> ynode list \<Rightarrow> ynode" where
  "fresh kind tag val content = YNode kind tag val ([], [], []) content"

definition Str :: "gostring \<Rightarrow> ynode" where
  "Str s = fresh ScalarNode ''!!str'' s []"

definition Bool :: "bool \<Rightarrow> ynode" where
  "Bool b = fresh ScalarNode ''!!bool'' (if b then ''true'' else ''false'') []"

definition StrList :: "gostring list \<Rightarrow> ynode" where
  "StrList items = fresh SequenceNode ''!!seq'' [] (map Str items)"

definition with_content :: "ynode list \<Rightarrow> ynode \<Rightarrow> ynode" where
  "with_content cs n = YNode (y_kind n) (y_tag n) (y_value n) (y_comments n) cs"

text \<open>\<open>mapValue\<close> and \<open>setMapKey\<close>: the loops over the pairs of a mapping's content.\<close>

fun lookup_pairs :: "gostring \<Rightarrow> ynode list \<Rightarrow> ynode option" where
  "lookup_pairs key (k # v # rest) = (if y_value k = key then Some v else lookup_pairs key rest)"
| "lookup_pairs key _ = None"

definition mapValue :: "ynode \<Rightarrow> gostring \<Rightarrow> ynode option" where
  "mapValue n key = lookup_pairs key (y_content n)"

fun set_pairs :: "gostring \<Rightarrow> ynode \<Rightarrow> ynode list \<Rightarrow> ynode list" where
  "set_pairs key new (k # v # rest) =
     (if y_value k = key then k # new # rest else k # v # set_pairs key new rest)"
| "set_pairs key new rest = rest @ [Str key, new]"

definition setMapKey :: "ynode \<Rightarrow> gostring \<Rightarrow> ynode \<Rightarrow> ynode" where
  "setMapKey n key new = with_content (set_pairs key new (y_content n)) n"

fun FindKey :: "ynode \<Rightarrow> gostring list \<Rightarrow> ynode option" where
  "FindKey n [] = Some n"
| "FindKey n (key # path) =
     (if y_kind n \<noteq> MappingNode then None
      else case mapValue n key of None \<Rightarrow> None | Some m \<Rightarrow> FindKey m path)"

definition GetString :: "ynode \<Rightarrow> gostring list \<Rightarrow> gostring option" where
  "GetString n path =
     (case FindKey n path of
        None \<Rightarrow> None
      | Some m \<Rightarrow> if y_kind m \<noteq> ScalarNode then None else Some (y_value m))"

definition GetBool :: "ynode \<Rightarrow> gostring list \<Rightarrow> bool option" where
  "GetBool n path = map_option (\<lambda>s. s = ''true'') (GetString n path)"

text \<open>\<open>SetPath\<close> walks down the path; the recursion puts the changed child back where the code
  has changed it through its pointer. The whole path is kept for the error's text.\<close>

fun set_path :: "gostring list \<Rightarrow> ynode \<Rightarrow> ynode \<Rightarrow> gostring list \<Rightarrow> goerr + ynode" where
  "set_path full new n [] = Inl (Opaque ''yamlpatch: empty path'')"
| "set_path full new n [key] = Inr (setMapKey n key new)"
| "set_path full new n (key # key2 # path) =
     (case (case mapValue n key of
              None \<Rightarrow> Inr (fresh MappingNode ''!!map'' [] [])
            | Some m \<Rightarrow>
                if y_kind m \<noteq> MappingNode
                then Inl (Opaque (''yamlpatch: '' @ StrJoin full ''.'' @ '' is not a mapping''))
                else Inr m) of
        Inl err \<Rightarrow> Inl err
      | Inr sub \<Rightarrow>
          (case set_path full new sub (key2 # path) of
             Inl err \<Rightarrow> Inl err
           | Inr sub \<Rightarrow> Inr (setMapKey n key sub)))"

definition SetPath :: "ynode \<Rightarrow> ynode \<Rightarrow> gostring list \<Rightarrow> goerr + ynode" where
  "SetPath n new path = set_path path new n path"

text \<open>Several calls in a row, up to the first error.\<close>

fun set_paths :: "(ynode \<times> gostring list) list \<Rightarrow> ynode \<Rightarrow> goerr + ynode" where
  "set_paths [] n = Inr n"
| "set_paths ((new, path) # ps) n =
     (case SetPath n new path of Inl err \<Rightarrow> Inl err | Inr n \<Rightarrow> set_paths ps n)"

definition PatchYAMLFile ::
  "(gostring \<Rightarrow> goerr + ynode) \<Rightarrow> (ynode \<Rightarrow> goerr + gostring) \<Rightarrow> gostring \<Rightarrow> (ynode \<Rightarrow> goerr + ynode)
     \<Rightarrow> disk \<Rightarrow> goerr option \<times> disk" where
  "PatchYAMLFile Unmarshal Marshal path patch d =
     (case os_ReadFile path d of
        (Inl err, d) \<Rightarrow> (Some (Wrap (''read '' @ path @ '': '') err []), d)
      | (Inr content, d) \<Rightarrow>
          (case Unmarshal content of
             Inl err \<Rightarrow> (Some (Wrap (''parse '' @ path @ '': '') err []), d)
           | Inr doc \<Rightarrow>
               (case y_content doc of
                  [] \<Rightarrow> (Some (Opaque (''parse '' @ path @ '': not a YAML mapping document'')), d)
                | root # rest \<Rightarrow>
                    if y_kind root \<noteq> MappingNode
                    then (Some (Opaque (''parse '' @ path @ '': not a YAML mapping document'')), d)
                    else (case patch root of
                       Inl err \<Rightarrow> (Some (Wrap (''patch '' @ path @ '': '') err []), d)
                     | Inr root \<Rightarrow>
                         (case Marshal (with_content (root # rest) doc) of
                            Inl err \<Rightarrow> (Some (Wrap (''encode '' @ path @ '': '') err []), d)
                          | Inr out \<Rightarrow>
                              (case os_Stat path d of
                                 (st, d) \<Rightarrow>
                                   (case os_WriteFile path out (case st of Inr m \<Rightarrow> m | Inl _ \<Rightarrow> 0x1A4) d of
                                      (Some err, d) \<Rightarrow> (Some (Wrap (''write '' @ path @ '': '') err []), d)
                                    | (None, d) \<Rightarrow> (None, d))))))))"

section \<open>Pairs\<close>

lemma with_content_simps [simp]:
  "y_kind (with_content cs n) = y_kind n" "y_tag (with_content cs n) = y_tag n"
  "y_value (with_content cs n) = y_value n" "y_comments (with_content cs n) = y_comments n"
  "y_content (with_content cs n) = cs" "with_content cs (with_content ds n) = with_content cs n"
  "with_content (y_content n) n = n"
  by (simp_all add: with_content_def)

lemma fresh_simps [simp]:
  "y_kind (fresh k t v cs) = k" "y_value (fresh k t v cs) = v" "y_content (fresh k t v cs) = cs"
  by (simp_all add: fresh_def)

lemma Str_simps [simp]: "y_kind (Str s) = ScalarNode" "y_value (Str s) = s"
  by (simp_all add: Str_def)

text \<open>Mappings come from the parser with as many values as keys, at every depth.\<close>

fun yaml_wf :: "ynode \<Rightarrow> bool" where
  "yaml_wf (YNode k t v c cs) \<longleftrightarrow> (k = MappingNode \<longrightarrow> even (length cs)) \<and> list_all yaml_wf cs"

lemma yaml_wf_iff:
  "yaml_wf n \<longleftrightarrow> (y_kind n = MappingNode \<longrightarrow> even (length (y_content n))) \<and> list_all yaml_wf (y_content n)"
  by (cases n) simp

lemma lookup_set_same: "even (length cs) \<Longrightarrow> lookup_pairs key (set_pairs key new cs) = Some new"
  by (induction key new cs rule: set_pairs.induct) simp_all

lemma lookup_set_other:
  "even (length cs) \<Longrightarrow> q \<noteq> key \<Longrightarrow> lookup_pairs q (set_pairs key new cs) = lookup_pairs q cs"
  by (induction key new cs rule: set_pairs.induct) simp_all

lemma set_pairs_same: "lookup_pairs key cs = Some v \<Longrightarrow> set_pairs key v cs = cs"
  by (induction key v cs rule: set_pairs.induct) (auto split: if_splits)

lemma even_set_pairs: "even (length cs) \<Longrightarrow> even (length (set_pairs key new cs))"
  by (induction key new cs rule: set_pairs.induct) simp_all

lemma wf_set_pairs:
  "list_all yaml_wf cs \<Longrightarrow> yaml_wf new \<Longrightarrow> yaml_wf (Str key) \<Longrightarrow> list_all yaml_wf (set_pairs key new cs)"
  by (induction key new cs rule: set_pairs.induct) simp_all

lemma wf_lookup: "list_all yaml_wf cs \<Longrightarrow> lookup_pairs key cs = Some v \<Longrightarrow> yaml_wf v"
  by (induction key cs rule: lookup_pairs.induct) (auto split: if_splits)

lemma wf_scalar [simp]: "yaml_wf (Str s)" "yaml_wf (Bool b)" "yaml_wf (StrList ss)"
  by (simp_all add: Str_def Bool_def StrList_def fresh_def list_all_iff)

lemma wf_fresh_map [simp]: "yaml_wf (fresh MappingNode t v [])"
  by (simp add: fresh_def)

lemma mapValue_set_same:
  "yaml_wf n \<Longrightarrow> y_kind n = MappingNode \<Longrightarrow> mapValue (setMapKey n key new) key = Some new"
  by (simp add: mapValue_def setMapKey_def lookup_set_same yaml_wf_iff)

lemma mapValue_set_other:
  "yaml_wf n \<Longrightarrow> y_kind n = MappingNode \<Longrightarrow> q \<noteq> key \<Longrightarrow> mapValue (setMapKey n key new) q = mapValue n q"
  by (simp add: mapValue_def setMapKey_def lookup_set_other yaml_wf_iff)

lemma setMapKey_same: "mapValue n key = Some v \<Longrightarrow> setMapKey n key v = n"
  by (simp add: mapValue_def setMapKey_def set_pairs_same)

lemma setMapKey_kind [simp]: "y_kind (setMapKey n key new) = y_kind n"
  by (simp add: setMapKey_def)

lemma wf_setMapKey: "yaml_wf n \<Longrightarrow> yaml_wf new \<Longrightarrow> yaml_wf (setMapKey n key new)"
  by (auto simp: setMapKey_def yaml_wf_iff [of n] yaml_wf_iff [of "with_content _ _"]
      even_set_pairs wf_set_pairs)

lemma wf_mapValue: "yaml_wf n \<Longrightarrow> mapValue n key = Some v \<Longrightarrow> yaml_wf v"
  using wf_lookup [of "y_content n" key v] by (simp add: mapValue_def yaml_wf_iff [of n])

section \<open>Paths\<close>

text \<open>One step of \<open>SetPath\<close> above the last key.\<close>

lemma set_path_step:
  assumes "set_path full new n (key # key2 # path) = Inr n'" and "yaml_wf n"
  obtains sub sub' where "sub = (case mapValue n key of None \<Rightarrow> fresh MappingNode ''!!map'' [] [] | Some m \<Rightarrow> m)"
    "y_kind sub = MappingNode" "yaml_wf sub" "set_path full new sub (key2 # path) = Inr sub'"
    "n' = setMapKey n key sub'"
proof (cases "mapValue n key")
  case None
  with assms(1) obtain sub' where "set_path full new (fresh MappingNode ''!!map'' [] []) (key2 # path) = Inr sub'"
    "n' = setMapKey n key sub'" by (auto split: sum.splits)
  with None show ?thesis by (intro that [of "fresh MappingNode ''!!map'' [] []" sub']) simp_all
next
  case (Some m)
  with assms(1) have m: "y_kind m = MappingNode" by (auto split: if_splits)
  with assms(1) Some obtain sub' where "set_path full new m (key2 # path) = Inr sub'" "n' = setMapKey n key sub'"
    by (auto split: sum.splits)
  with Some m wf_mapValue [OF assms(2) Some] show ?thesis by (intro that [of m sub']) simp_all
qed

lemma set_path_kind:
  "set_path full new n path = Inr n' \<Longrightarrow> y_kind n' = y_kind n"
  by (cases "(full, new, n, path)" rule: set_path.cases) (auto split: sum.splits)

lemma set_path_wf:
  "set_path full new n path = Inr n' \<Longrightarrow> yaml_wf n \<Longrightarrow> yaml_wf new \<Longrightarrow> yaml_wf n'"
proof (induction path arbitrary: n n' rule: induct_list012)
  case (3 key key2 path)
  from set_path_step [OF 3(3,4)] obtain sub sub' where s: "yaml_wf sub"
    "set_path full new sub (key2 # path) = Inr sub'" "n' = setMapKey n key sub'" by metis
  from 3(2) [OF s(2,1) 3(5)] show ?case by (simp add: s(3) wf_setMapKey 3(4))
qed (auto simp: wf_setMapKey)

lemma set_path_get:
  "set_path full new n path = Inr n' \<Longrightarrow> yaml_wf n \<Longrightarrow> y_kind n = MappingNode \<Longrightarrow>
     FindKey n' path = Some new"
proof (induction path arbitrary: n n' rule: induct_list012)
  case (2 key)
  then show ?case by (auto simp: mapValue_set_same)
next
  case (3 key key2 path)
  from set_path_step [OF 3(3,4)] obtain sub sub' where s: "y_kind sub = MappingNode" "yaml_wf sub"
    "set_path full new sub (key2 # path) = Inr sub'" "n' = setMapKey n key sub'" by metis
  from 3(2) [OF s(3,2,1)] 3(4,5) show ?case by (simp add: s(4) mapValue_set_same)
qed simp

text \<open>Two paths that go different ways at some point.\<close>

fun apart :: "'a list \<Rightarrow> 'a list \<Rightarrow> bool" where
  "apart (x # xs) (y # ys) \<longleftrightarrow> x \<noteq> y \<or> apart xs ys"
| "apart _ _ \<longleftrightarrow> False"

lemma set_path_frame:
  "set_path full new n path = Inr n' \<Longrightarrow> yaml_wf n \<Longrightarrow> y_kind n = MappingNode \<Longrightarrow> apart path q \<Longrightarrow>
     FindKey n' q = FindKey n q"
proof (induction path arbitrary: n n' q rule: induct_list012)
  case (2 key)
  then obtain k ks where q: "q = k # ks" "k \<noteq> key" by (cases q) auto
  with 2 show ?case by (auto simp: mapValue_set_other)
next
  case (3 key key2 path)
  obtain k ks where q: "q = k # ks" using 3(6) by (cases q) auto
  from set_path_step [OF 3(3,4)] obtain sub sub' where s:
    "sub = (case mapValue n key of None \<Rightarrow> fresh MappingNode ''!!map'' [] [] | Some m \<Rightarrow> m)"
    "y_kind sub = MappingNode" "yaml_wf sub" "set_path full new sub (key2 # path) = Inr sub'"
    "n' = setMapKey n key sub'" by metis
  show ?case
  proof (cases "k = key")
    case False
    with 3(4,5) show ?thesis by (simp add: q s(5) mapValue_set_other)
  next
    case True
    with 3(6) q have "apart (key2 # path) ks" by simp
    from 3(2) [OF s(4,3,2) this] have sub: "FindKey sub' ks = FindKey sub ks" .
    have "FindKey n' q = FindKey sub' ks" using 3(4,5) by (simp add: q True s(5) mapValue_set_same)
    moreover have "FindKey n q = FindKey sub ks"
    proof (cases "mapValue n key")
      case None
      have "ks \<noteq> []" using \<open>apart (key2 # path) ks\<close> by auto
      with None 3(5) show ?thesis by (cases ks) (simp_all add: q True s(1) mapValue_def)
    qed (simp add: q True s(1) 3(5))
    ultimately show ?thesis using sub by simp
  qed
qed simp

text \<open>Setting what is there already changes nothing.\<close>

lemma set_path_noop:
  "FindKey n path = Some v \<Longrightarrow> path \<noteq> [] \<Longrightarrow> set_path full v n path = Inr n"
proof (induction path arbitrary: n rule: induct_list012)
  case (2 key)
  then show ?case by (auto simp: setMapKey_same split: option.splits if_splits)
next
  case (3 key key2 path)
  then obtain m where m: "mapValue n key = Some m" "FindKey m (key2 # path) = Some v"
    by (auto simp del: FindKey.simps(2) simp: FindKey.simps(2) [of n] split: if_splits option.splits)
  then have "y_kind m = MappingNode" by (auto split: if_splits)
  with m 3(2) [OF m(2)] show ?case by (simp add: setMapKey_same)
qed simp

section \<open>Several settings\<close>

lemma set_paths_kind: "set_paths ps n = Inr n' \<Longrightarrow> y_kind n' = y_kind n"
  by (induction ps arbitrary: n) (auto simp: SetPath_def dest!: set_path_kind split: sum.splits)

lemma set_paths_ConsE:
  assumes "set_paths ((new, path) # ps) n = Inr n'"
  obtains m where "set_path path new n path = Inr m" "set_paths ps m = Inr n'"
  using assms by (auto simp: SetPath_def split: sum.splits)

lemma set_paths_frame:
  "set_paths ps n = Inr n' \<Longrightarrow> yaml_wf n \<Longrightarrow> y_kind n = MappingNode \<Longrightarrow> list_all (yaml_wf \<circ> fst) ps \<Longrightarrow>
     list_all (\<lambda>p. apart (snd p) q) ps \<Longrightarrow> FindKey n' q = FindKey n q \<and> yaml_wf n'"
proof (induction ps arbitrary: n)
  case (Cons p ps)
  obtain new path where p: "p = (new, path)" by fastforce
  from Cons.prems(1) [unfolded p] obtain m where m: "set_path path new n path = Inr m" "set_paths ps m = Inr n'"
    by (rule set_paths_ConsE)
  have "yaml_wf m" "y_kind m = MappingNode"
    using set_path_wf [OF m(1)] set_path_kind [OF m(1)] Cons.prems p by simp_all
  from Cons.IH [OF m(2) this] set_path_frame [OF m(1) Cons.prems(2,3), of q] Cons.prems(4,5) p
  show ?case by simp
qed simp

lemma set_paths_wf:
  "set_paths ps n = Inr n' \<Longrightarrow> yaml_wf n \<Longrightarrow> list_all (yaml_wf \<circ> fst) ps \<Longrightarrow> yaml_wf n'"
proof (induction ps arbitrary: n)
  case (Cons p ps)
  obtain new path where p: "p = (new, path)" by fastforce
  from Cons.prems(1) [unfolded p] obtain m where m: "set_path path new n path = Inr m" "set_paths ps m = Inr n'"
    by (rule set_paths_ConsE)
  from Cons.IH [OF m(2)] set_path_wf [OF m(1)] Cons.prems p show ?case by simp
qed simp

text \<open>Settings none of which touches another one's path are all there afterwards, and making
  them again changes nothing.\<close>

definition independent :: "(ynode \<times> gostring list) list \<Rightarrow> bool" where
  "independent ps \<longleftrightarrow> sorted_wrt (\<lambda>p q. apart (snd q) (snd p)) ps \<and> list_all (yaml_wf \<circ> fst) ps
     \<and> list_all (\<lambda>p. snd p \<noteq> []) ps"

lemma set_paths_get:
  "set_paths ps n = Inr n' \<Longrightarrow> yaml_wf n \<Longrightarrow> y_kind n = MappingNode \<Longrightarrow> independent ps \<Longrightarrow>
     p \<in> set ps \<Longrightarrow> FindKey n' (snd p) = Some (fst p)"
proof (induction ps arbitrary: n)
  case (Cons p0 ps)
  obtain new path where p: "p0 = (new, path)" by fastforce
  from Cons.prems(1) [unfolded p] obtain m where m: "set_path path new n path = Inr m" "set_paths ps m = Inr n'"
    by (rule set_paths_ConsE)
  have wf: "yaml_wf m" "y_kind m = MappingNode"
    using set_path_wf [OF m(1)] set_path_kind [OF m(1)] Cons.prems p by (simp_all add: independent_def)
  have ind: "independent ps" "list_all (\<lambda>q. apart (snd q) path) ps"
    using Cons.prems(4) by (auto simp: independent_def p list_all_iff)
  show ?case
  proof (cases "p = p0")
    case True
    with set_path_get [OF m(1) Cons.prems(2,3)] set_paths_frame [OF m(2) wf _ ind(2)] ind(1) p
    show ?thesis by (simp add: independent_def)
  next
    case False
    with Cons.prems(5) Cons.IH [OF m(2) wf ind(1)] show ?thesis by simp
  qed
qed simp

lemma set_paths_again:
  "list_all (\<lambda>p. snd p \<noteq> [] \<and> FindKey n (snd p) = Some (fst p)) ps \<Longrightarrow> set_paths ps n = Inr n"
  by (induction ps) (auto simp: SetPath_def set_path_noop)

lemma set_paths_idem:
  assumes "set_paths ps n = Inr n'" "yaml_wf n" "y_kind n = MappingNode" "independent ps"
  shows "set_paths ps n' = Inr n'"
  using set_paths_get [OF assms] assms(4)
  by (intro set_paths_again) (auto simp: independent_def list_all_iff)

section \<open>Properties\<close>

text \<open>Setting a key in a YAML tree. When \<open>SetPath\<close> succeeds on a mapping, the path then has
  the given node; every path that leaves it at some point finds exactly the node it found
  before, comments and all, or nothing if there was nothing; and setting it again changes
  nothing.\<close>

theorem set_path_sets_only_path:
  assumes "SetPath n new path = Inr n'" and "yaml_wf n" and "y_kind n = MappingNode"
  shows "FindKey n' path = Some new \<and> (\<forall>q. apart path q \<longrightarrow> FindKey n' q = FindKey n q)
    \<and> SetPath n' new path = Inr n'"
proof -
  note s = assms(1) [unfolded SetPath_def]
  have "path \<noteq> []" using s by auto
  with set_path_get [OF s assms(2,3)] set_path_frame [OF s assms(2,3)] set_path_noop show ?thesis
    by (simp add: SetPath_def)
qed

definition small_doc :: ynode where
  "small_doc = YNode MappingNode ''!!map'' [] ([], [], [])
     [Str ''a'', YNode ScalarNode ''!!str'' ''1'' ([], ''keep me'', []) []]"

theorem set_path_sets_only_path_witness:
  "\<exists>n. SetPath small_doc (Bool True) [''b'', ''c''] = Inr n \<and> FindKey n [''b'', ''c''] = Some (Bool True)
     \<and> FindKey n [''a''] = Some (YNode ScalarNode ''!!str'' ''1'' ([], ''keep me'', []) [])"
proof -
  obtain n where n: "SetPath small_doc (Bool True) [''b'', ''c''] = Inr n"
    by (simp add: SetPath_def mapValue_def small_doc_def)
  have wf: "yaml_wf small_doc" "y_kind small_doc = MappingNode" by (simp_all add: small_doc_def)
  have a: "apart [''b'', ''c''] [''a'']" by simp
  have "FindKey small_doc [''a''] = Some (YNode ScalarNode ''!!str'' ''1'' ([], ''keep me'', []) [])"
    by (simp add: small_doc_def mapValue_def)
  with set_path_sets_only_path [OF n wf] a n show ?thesis by metis
qed

end
