(* ===== verification/Stack.thy ===== *)
theory Stack
  imports EnvFile Yaml
begin

text \<open>
  The self-hosted stack's services: \<open>internal/setup/synapse.go\<close>, \<open>bridge.go\<close> and
  \<open>dockercmd.go\<close>. What \<open>docker compose\<close> does to the files is an argument, a function of
  the command's arguments; so are the YAML parser and printer, and the clock and the
  answers of the waiting loop.
\<close>

section \<open>Docker and waiting\<close>

type_synonym docker = "gostring list \<Rightarrow> disk \<Rightarrow> goerr option \<times> disk"

definition dockerCompose :: "docker \<Rightarrow> gostring list \<Rightarrow> disk \<Rightarrow> goerr option \<times> disk" where
  "dockerCompose exec args d =
     (case exec args d of
        (Some err, d) \<Rightarrow> (Some (Wrap (''docker compose '' @ StrJoin args '' '' @ '': '') err []), d)
      | (None, d) \<Rightarrow> (None, d))"

definition homeserverReadyTimeout :: int where
  "homeserverReadyTimeout = 60 * 10 ^ 9"

text \<open>The polls of \<open>waitHTTPReady\<close>: whether the i-th request was answered, the time after it, and
  what the context says during the second of waiting. The fuel bounds the number of polls.\<close>

record polls =
  po_answered :: "nat \<Rightarrow> bool"
  po_now :: "nat \<Rightarrow> int"
  po_ctx :: "nat \<Rightarrow> goerr option"

fun wait_loop :: "polls \<Rightarrow> int \<Rightarrow> gostring \<Rightarrow> nat \<Rightarrow> nat \<Rightarrow> goerr option option" where
  "wait_loop po deadline url i 0 = None"
| "wait_loop po deadline url i (Suc fuel) =
     (if po_answered po i then Some None
      else if po_now po i > deadline
      then Some (Some (Opaque (''timed out waiting for '' @ url @ '' to answer'')))
      else case po_ctx po i of
        Some err \<Rightarrow> Some (Some err)
      | None \<Rightarrow> wait_loop po deadline url (Suc i) fuel)"

definition waitHTTPReady :: "polls \<Rightarrow> int \<Rightarrow> gostring \<Rightarrow> int \<Rightarrow> nat \<Rightarrow> goerr option option" where
  "waitHTTPReady po start url timeout fuel = wait_loop po (start + timeout) url 0 fuel"

section \<open>Synapse\<close>

definition Int_node :: "gostring \<Rightarrow> ynode" where
  "Int_node s = fresh ScalarNode ''!!int'' s []"

definition synapse_args :: "gostring \<Rightarrow> goerr + ynode" where
  "synapse_args dbPassword =
     set_paths
       [(Str ''synapse'', [''user'']), (Str dbPassword, [''password'']), (Str ''synapse'', [''database'']),
        (Str ''postgres'', [''host'']), (Int_node ''5'', [''cp_min'']), (Int_node ''10'', [''cp_max''])]
       (fresh MappingNode ''!!map'' [] [])"

definition synapse_patch :: "gostring \<Rightarrow> ynode \<Rightarrow> goerr + ynode" where
  "synapse_patch dbPassword root =
     (case SetPath root (Str ''psycopg2'') [''database'', ''name''] of
        Inl err \<Rightarrow> Inl err
      | Inr root \<Rightarrow>
          (case synapse_args dbPassword of
             Inl err \<Rightarrow> Inl err
           | Inr args \<Rightarrow>
               set_paths
                 [(args, [''database'', ''args'']),
                  (StrList [''/appservices/registration.yaml''], [''app_service_config_files'']),
                  (Bool False, [''enable_registration''])] root))"

text \<open>Make a file if it is missing, then patch it.\<close>

definition ensure_patched ::
  "(gostring \<Rightarrow> goerr + ynode) \<Rightarrow> (ynode \<Rightarrow> goerr + gostring) \<Rightarrow> (disk \<Rightarrow> goerr option \<times> disk)
     \<Rightarrow> gostring \<Rightarrow> gostring \<Rightarrow> (ynode \<Rightarrow> goerr + ynode) \<Rightarrow> disk \<Rightarrow> goerr option \<times> disk" where
  "ensure_patched Unmarshal Marshal generate what path patch d =
     (case (case os_Stat path d of
              (Inr _, d) \<Rightarrow> (None, d)
            | (Inl err, d) \<Rightarrow>
                if is_not_exist err
                then (case generate d of
                        (Some err, d) \<Rightarrow> (Some (Wrap (''generate '' @ what @ '': '') err []), d)
                      | (None, d) \<Rightarrow> (None, d))
                else (Some (Wrap (''stat '' @ path @ '': '') err []), d)) of
        (Some err, d) \<Rightarrow> (Some err, d)
      | (None, d) \<Rightarrow>
          (case PatchYAMLFile Unmarshal Marshal path patch d of
             (Some err, d) \<Rightarrow> (Some (Wrap (''patch '' @ path @ '': '') err []), d)
           | (None, d) \<Rightarrow> (None, d)))"

definition homeserver_yaml :: "gostring \<Rightarrow> gostring" where
  "homeserver_yaml dir = PathJoin [dir, ''data'', ''synapse'', ''homeserver.yaml'']"

definition ensureSynapseConfig ::
  "docker \<Rightarrow> (gostring \<Rightarrow> goerr + ynode) \<Rightarrow> (ynode \<Rightarrow> goerr + gostring) \<Rightarrow> gostring \<Rightarrow> gostring
     \<Rightarrow> gostring \<Rightarrow> disk \<Rightarrow> goerr option \<times> disk" where
  "ensureSynapseConfig exec Unmarshal Marshal dir serverName dbPassword d =
     ensure_patched Unmarshal Marshal
       (dockerCompose exec [''run'', ''--rm'', ''-e'', ''SYNAPSE_SERVER_NAME='' @ serverName,
          ''-e'', ''SYNAPSE_REPORT_STATS=no'', ''synapse'', ''generate''])
       ''synapse config'' (homeserver_yaml dir) (synapse_patch dbPassword) d"

text \<open>The hint added to a timeout names a section of the manual, in Chinese.\<close>

definition see_known_issues :: gostring where
  "see_known_issues = '' (see docs/self-host.md '' @ [DQ]
     @ encode_runes [0x5DF2, 0x77E5, 0x6703, 0x5361, 0x4F4F, 0x7684, 0x5730, 0x65B9] @ [DQ] @ '')''"

definition startSynapse ::
  "docker \<Rightarrow> polls \<Rightarrow> int \<Rightarrow> nat \<Rightarrow> gostring \<Rightarrow> disk \<Rightarrow> goerr option option \<times> disk" where
  "startSynapse exec po start fuel homeserverURL d =
     (case dockerCompose exec [''up'', ''-d'', ''postgres'', ''synapse''] d of
        (Some err, d) \<Rightarrow> (Some (Some err), d)
      | (None, d) \<Rightarrow>
          (case waitHTTPReady po start (homeserverURL @ ''/_matrix/client/versions'')
                  homeserverReadyTimeout fuel of
             None \<Rightarrow> (None, d)
           | Some None \<Rightarrow> (Some None, d)
           | Some (Some err) \<Rightarrow> (Some (Some (Wrap [] err see_known_issues)), d)))"

text \<open>\<open>doc.Content[0]\<close> panics on an empty document: the outer option is the panic.\<close>

definition registrationSharedSecret ::
  "(gostring \<Rightarrow> goerr + ynode) \<Rightarrow> gostring \<Rightarrow> disk \<Rightarrow> (goerr + gostring) option \<times> disk" where
  "registrationSharedSecret Unmarshal dir d =
     (case os_ReadFile (homeserver_yaml dir) d of
        (Inl err, d) \<Rightarrow> (Some (Inl (Wrap (''read '' @ homeserver_yaml dir @ '': '') err [])), d)
      | (Inr content, d) \<Rightarrow>
          (case Unmarshal content of
             Inl err \<Rightarrow> (Some (Inl (Wrap (''parse '' @ homeserver_yaml dir @ '': '') err [])), d)
           | Inr doc \<Rightarrow>
               (case y_content doc of
                  [] \<Rightarrow> (None, d)
                | root # _ \<Rightarrow>
                    (case GetString root [''registration_shared_secret''] of
                       None \<Rightarrow> (Some (Inl (Opaque (homeserver_yaml dir @ '' has no registration_shared_secret''))), d)
                     | Some secret \<Rightarrow>
                         if secret = []
                         then (Some (Inl (Opaque (homeserver_yaml dir @ '' has no registration_shared_secret''))), d)
                         else (Some (Inr secret), d)))))"

section \<open>The bridge\<close>

definition bridge_patch :: "gostring \<Rightarrow> gostring \<Rightarrow> ynode \<Rightarrow> goerr + ynode" where
  "bridge_patch serverName adminMXID root =
     set_paths
       [(Str ''http://synapse:8008'', [''homeserver'', ''address'']),
        (Str serverName, [''homeserver'', ''domain'']),
        (Str ''0.0.0.0'', [''appservice'', ''hostname'']),
        (Str ''admin'', [''bridge'', ''permissions'', adminMXID]),
        (Bool True, [''encryption'', ''allow'']), (Bool True, [''encryption'', ''default''])] root"

definition ensureBridgeConfig ::
  "docker \<Rightarrow> (gostring \<Rightarrow> goerr + ynode) \<Rightarrow> (ynode \<Rightarrow> goerr + gostring) \<Rightarrow> gostring \<Rightarrow> gostring
     \<Rightarrow> gostring \<Rightarrow> disk \<Rightarrow> goerr option \<times> disk" where
  "ensureBridgeConfig exec Unmarshal Marshal dir serverName adminMXID d =
     ensure_patched Unmarshal Marshal (dockerCompose exec [''up'', ''bridge'']) ''bridge config''
       (PathJoin [dir, ''data'', ''bridge'', ''config.yaml'']) (bridge_patch serverName adminMXID) d"

definition ensureBridgeRegistration ::
  "docker \<Rightarrow> polls \<Rightarrow> int \<Rightarrow> nat \<Rightarrow> gostring \<Rightarrow> gostring \<Rightarrow> disk \<Rightarrow> goerr option option \<times> disk" where
  "ensureBridgeRegistration exec po start fuel dir homeserverURL d =
     (let regPath = PathJoin [dir, ''data'', ''bridge'', ''registration.yaml''] in
      case (case os_Stat regPath d of
              (Inr _, d) \<Rightarrow> (None, d)
            | (Inl err, d) \<Rightarrow>
                if is_not_exist err
                then (case dockerCompose exec [''up'', ''bridge''] d of
                        (Some err, d) \<Rightarrow> (Some (Wrap ''generate bridge registration: '' err []), d)
                      | (None, d) \<Rightarrow> (None, d))
                else (Some (Wrap (''stat '' @ regPath @ '': '') err []), d)) of
        (Some err, d) \<Rightarrow> (Some (Some err), d)
      | (None, d) \<Rightarrow>
          (case dockerCompose exec [''restart'', ''synapse''] d of
             (Some err, d) \<Rightarrow> (Some (Some err), d)
           | (None, d) \<Rightarrow>
               (waitHTTPReady po start (homeserverURL @ ''/_matrix/client/versions'')
                  homeserverReadyTimeout fuel, d)))"

definition startBridge :: "docker \<Rightarrow> disk \<Rightarrow> goerr option \<times> disk" where
  "startBridge exec d = dockerCompose exec [''up'', ''-d'', ''bridge''] d"

section \<open>Lemmas\<close>

definition args_node :: "gostring \<Rightarrow> ynode" where
  "args_node dbPassword = fresh MappingNode ''!!map'' []
     [Str ''user'', Str ''synapse'', Str ''password'', Str dbPassword, Str ''database'', Str ''synapse'',
      Str ''host'', Str ''postgres'', Str ''cp_min'', Int_node ''5'', Str ''cp_max'', Int_node ''10'']"

lemma synapse_args_eq: "synapse_args pw = Inr (args_node pw)"
  by (simp add: synapse_args_def SetPath_def setMapKey_def args_node_def fresh_def with_content_def Str_def)

definition synapse_settings :: "gostring \<Rightarrow> (ynode \<times> gostring list) list" where
  "synapse_settings pw =
     [(Str ''psycopg2'', [''database'', ''name'']), (args_node pw, [''database'', ''args'']),
      (StrList [''/appservices/registration.yaml''], [''app_service_config_files'']),
      (Bool False, [''enable_registration''])]"

lemma synapse_patch_eq: "synapse_patch pw root = set_paths (synapse_settings pw) root"
  unfolding synapse_patch_def synapse_settings_def synapse_args_eq set_paths.simps sum.case ..

lemma wf_args_node [simp]: "yaml_wf (args_node pw)"
  by (simp add: args_node_def fresh_def Int_node_def Str_def)

lemma synapse_settings_independent: "independent (synapse_settings pw)"
  by (simp add: independent_def synapse_settings_def)

lemma wait_loop_runs:
  assumes "\<And>j. po_now po j + 10 ^ 9 \<le> po_now po (Suc j)"
    and "deadline < po_now po i + (int fuel - 1) * 10 ^ 9" and "0 < fuel"
  shows "\<exists>r. wait_loop po deadline url i fuel = Some r"
  using assms(2,3)
proof (induction fuel arbitrary: i)
  case (Suc fuel)
  show ?case
  proof (cases "po_answered po i \<or> po_now po i > deadline \<or> po_ctx po i \<noteq> None")
    case True
    then show ?thesis by (cases "po_ctx po i") auto
  next
    case False
    then have "0 < fuel" using Suc.prems(1) by (cases fuel) auto
    moreover have "deadline < po_now po (Suc i) + (int fuel - 1) * 10 ^ 9"
      using Suc.prems(1) assms(1) [of i] by (simp add: algebra_simps)
    ultimately show ?thesis using Suc.IH [of "Suc i"] False by auto
  qed
qed simp

lemma wait_loop_ready: "wait_loop po deadline url i fuel = Some None \<Longrightarrow> \<exists>j\<ge>i. po_answered po j"
proof (induction fuel arbitrary: i)
  case (Suc fuel)
  then show ?case
    by (cases "po_answered po i") (auto split: if_splits option.splits dest!: Suc.IH intro: Suc_leD)
qed simp

text \<open>What a successful patch of a file does: the tree read, the patch of its root, the printed
  result in the file, whose mode stays.\<close>

lemma PatchYAMLFile_ok:
  assumes "PatchYAMLFile Unm Mar path patch d = (None, d')"
  obtains content mode doc root rest root' out where
    "dk_files d path = Some \<lparr>f_content = content, f_mode = mode\<rparr>" "Unm content = Inr doc"
    "y_content doc = root # rest" "y_kind root = MappingNode" "patch root = Inr root'"
    "Mar (with_content (root' # rest) doc) = Inr out"
    "dk_files d' path = Some \<lparr>f_content = out, f_mode = mode\<rparr>"
    "\<And>q. q \<noteq> path \<Longrightarrow> dk_files d' q = dk_files d q"
proof -
  obtain res d1 where r: "os_ReadFile path d = (res, d1)" by fastforce
  obtain content where c: "res = Inr content"
    using assms r by (cases res) (simp_all add: PatchYAMLFile_def)
  obtain f where f: "dk_files d path = Some f" "f_content f = content"
    using os_ReadFile_ok r c by blast
  note run = PatchYAMLFile_def r c
  obtain doc where doc: "Unm content = Inr doc"
    using assms by (cases "Unm content") (simp_all add: run)
  obtain root rest where cs: "y_content doc = root # rest"
    using assms by (cases "y_content doc") (simp_all add: run doc)
  have k: "y_kind root = MappingNode" using assms by (cases "y_kind root = MappingNode") (simp_all add: run doc cs)
  obtain root' where p: "patch root = Inr root'"
    using assms by (cases "patch root") (simp_all add: run doc cs k)
  obtain out where m: "Mar (with_content (root' # rest) doc) = Inr out"
    using assms by (cases "Mar (with_content (root' # rest) doc)") (simp_all add: run doc cs k p)
  obtain st d2 where s: "os_Stat path d1 = (st, d2)" by fastforce
  let ?mode = "case st of Inr m \<Rightarrow> m | Inl _ \<Rightarrow> 0x1A4"
  obtain e d3 where w: "os_WriteFile path out ?mode d2 = (e, d3)" by fastforce
  have "e = None \<and> d3 = d'"
    using assms by (cases e) (simp_all add: run doc cs k p m s w)
  with w have d': "d' = put_file path out ?mode (tick d2)" by (auto dest: os_WriteFile_ok)
  have d2: "dk_files d2 = dk_files d" using os_frames(1) [OF r] os_frames(2) [OF s] by simp
  have "dk_files d' path = Some \<lparr>f_content = out, f_mode = f_mode f\<rparr>"
    "\<And>q. q \<noteq> path \<Longrightarrow> dk_files d' q = dk_files d q"
    using f(1) by (simp_all add: d' d2)
  with f doc cs k p m show ?thesis by (intro that [of content "f_mode f" doc root rest root' out]) simp_all
qed

lemma ensure_patched_ok:
  assumes "ensure_patched Unm Mar generate what path patch d = (None, d')" and "honest d"
  obtains d0 d1 where "PatchYAMLFile Unm Mar path patch d1 = (None, d')" "dk_files d0 = dk_files d"
    "dk_files d path \<noteq> None \<and> d1 = d0 \<or> generate d0 = (None, d1) \<and> dk_files d path = None"
proof -
  let ?first = "\<lambda>st d. case st of
      Inr _ \<Rightarrow> (None, d)
    | Inl err \<Rightarrow>
        if is_not_exist err
        then (case generate d of
                (Some err, d) \<Rightarrow> (Some (Wrap (''generate '' @ what @ '': '') err []), d)
              | (None, d) \<Rightarrow> (None, d))
        else (Some (Wrap (''stat '' @ path @ '': '') err []), d)"
  obtain st d0 where st: "os_Stat path d = (st, d0)" by fastforce
  obtain e1 d1 where f: "?first st d0 = (e1, d1)" by fastforce
  have eq: "ensure_patched Unm Mar generate what path patch d =
      (case ?first st d0 of (Some err, d) \<Rightarrow> (Some err, d)
       | (None, d) \<Rightarrow> (case PatchYAMLFile Unm Mar path patch d of
             (Some err, d) \<Rightarrow> (Some (Wrap (''patch '' @ path @ '': '') err []), d)
           | (None, d) \<Rightarrow> (None, d)))"
    by (simp add: ensure_patched_def st)
  have e1: "e1 = None" using assms(1) unfolding eq f by (cases e1) simp_all
  obtain e2 d2 where p: "PatchYAMLFile Unm Mar path patch d1 = (e2, d2)" by fastforce
  have "e2 = None \<and> d2 = d'"
    using assms(1) unfolding eq f e1 by (cases e2) (simp_all add: p)
  moreover have "dk_files d path \<noteq> None \<and> d1 = d0 \<or> generate d0 = (None, d1) \<and> dk_files d path = None"
  proof (cases st)
    case (Inr mode)
    with f os_Stat_ok [of path d mode d0] st show ?thesis by auto
  next
    case (Inl err)
    with f e1 have "is_not_exist err" by (auto split: if_splits)
    with f e1 Inl os_Stat_absent [OF st [unfolded Inl] assms(2)] show ?thesis by (auto split: prod.splits option.splits)
  qed
  ultimately show ?thesis using p os_frames(2) [OF st] by (intro that [of d1 d0]) simp_all
qed

text \<open>What the parser is taken to guarantee: mappings with as many values as keys.\<close>

definition parses_wf :: "(gostring \<Rightarrow> goerr + ynode) \<Rightarrow> bool" where
  "parses_wf Unmarshal \<longleftrightarrow> (\<forall>s doc. Unmarshal s = Inr doc \<longrightarrow> yaml_wf doc)"

section \<open>Properties\<close>

text \<open>The tree the patch makes of a mapping.\<close>

lemma patched_root:
  assumes "synapse_patch pw root = Inr root'" and "yaml_wf root" and "y_kind root = MappingNode"
  shows "y_kind root' = MappingNode" "synapse_patch pw root' = Inr root'"
    "GetString root' [''database'', ''name''] = Some ''psycopg2''"
    "GetString root' [''database'', ''args'', ''password''] = Some pw"
    "FindKey root' [''app_service_config_files''] = Some (StrList [''/appservices/registration.yaml''])"
    "GetBool root' [''enable_registration''] = Some False"
    "\<forall>k. k \<notin> {''database'', ''app_service_config_files'', ''enable_registration''} \<longrightarrow>
       FindKey root' [k] = FindKey root [k]"
    "\<forall>k. k \<notin> {''name'', ''args''} \<longrightarrow> FindKey root' [''database'', k] = FindKey root [''database'', k]"
proof -
  note sp = assms(1) [unfolded synapse_patch_eq]
  have get: "FindKey root' path = Some new" if "(new, path) \<in> set (synapse_settings pw)" for new path
    using set_paths_get [OF sp assms(2,3) synapse_settings_independent that] by simp
  have name: "FindKey root' [''database'', ''name''] = Some (Str ''psycopg2'')"
    and args: "FindKey root' [''database'', ''args''] = Some (args_node pw)"
    and app: "FindKey root' [''app_service_config_files''] = Some (StrList [''/appservices/registration.yaml''])"
    and reg: "FindKey root' [''enable_registration''] = Some (Bool False)"
    by (rule get; simp add: synapse_settings_def)+
  have pass: "FindKey root' [''database'', ''args'', ''password''] = Some (Str pw)"
    using args by (auto simp: args_node_def mapValue_def split: option.splits if_splits)
  have frame: "FindKey root' q = FindKey root q" if "list_all (\<lambda>p. apart (snd p) q) (synapse_settings pw)" for q
    using set_paths_frame [OF sp assms(2,3), of q] synapse_settings_independent [of pw] that
    unfolding independent_def by blast
  show "y_kind root' = MappingNode" using set_paths_kind [OF sp] assms(3) by simp
  show "synapse_patch pw root' = Inr root'"
    using set_paths_idem [OF sp assms(2,3) synapse_settings_independent] by (simp add: synapse_patch_eq)
  show "GetString root' [''database'', ''name''] = Some ''psycopg2''" using name by (simp add: GetString_def)
  show "GetString root' [''database'', ''args'', ''password''] = Some pw" using pass by (simp add: GetString_def)
  show "FindKey root' [''app_service_config_files''] = Some (StrList [''/appservices/registration.yaml''])" by (rule app)
  show "GetBool root' [''enable_registration''] = Some False"
    using reg by (simp add: GetBool_def GetString_def Bool_def)
  show "\<forall>k. k \<notin> {''database'', ''app_service_config_files'', ''enable_registration''} \<longrightarrow>
      FindKey root' [k] = FindKey root [k]"
  proof (intro allI impI)
    fix k assume "k \<notin> {''database'', ''app_service_config_files'', ''enable_registration''}"
    then show "FindKey root' [k] = FindKey root [k]" by (intro frame) (auto simp: synapse_settings_def)
  qed
  show "\<forall>k. k \<notin> {''name'', ''args''} \<longrightarrow> FindKey root' [''database'', k] = FindKey root [''database'', k]"
  proof (intro allI impI)
    fix k assume "k \<notin> {''name'', ''args''}"
    then show "FindKey root' [''database'', k] = FindKey root [''database'', k]"
      by (intro frame) (auto simp: synapse_settings_def)
  qed
qed

text \<open>The same step again on the file it left, for a parser that reads what was printed.\<close>

lemma patch_again:
  assumes "dk_files d (homeserver_yaml dir) = Some \<lparr>f_content = out, f_mode = mode\<rparr>"
    and "Unm out = Inr (with_content (root # rest) doc)" and "Mar (with_content (root # rest) doc) = Inr out"
    and "y_kind root = MappingNode" and "synapse_patch pw root = Inr root" and "honest d"
  shows "ensureSynapseConfig exec Unm Mar dir serverName pw d = (None, d') \<Longrightarrow> dk_files d' = dk_files d"
    and "faultless d \<Longrightarrow> \<exists>d'. ensureSynapseConfig exec Unm Mar dir serverName pw d = (None, d')"
proof -
  have w: "with_content cs (with_content cs' n) = with_content cs n" for cs cs' n by (simp add: with_content_def)
  show "dk_files d' = dk_files d" if "ensureSynapseConfig exec Unm Mar dir serverName pw d = (None, d')"
    using that assms(6) unfolding ensureSynapseConfig_def
  proof (rule ensure_patched_ok)
    fix d0 d1
    let ?path = "homeserver_yaml dir"
    assume p: "PatchYAMLFile Unm Mar ?path (synapse_patch pw) d1 = (None, d')"
      and "dk_files d0 = dk_files d"
      and "dk_files d ?path \<noteq> None \<and> d1 = d0 \<or> dockerCompose exec [''run'', ''--rm'', ''-e'',
        ''SYNAPSE_SERVER_NAME='' @ serverName, ''-e'', ''SYNAPSE_REPORT_STATS=no'', ''synapse'', ''generate''] d0
          = (None, d1) \<and> dk_files d ?path = None"
    with assms(1) have same: "dk_files d1 = dk_files d" by simp
    from p show "dk_files d' = dk_files d"
    proof (rule PatchYAMLFile_ok)
      fix content2 mode2 doc2 root2 rest2 root2' out2
      assume q: "dk_files d1 ?path = Some \<lparr>f_content = content2, f_mode = mode2\<rparr>" "Unm content2 = Inr doc2"
        "y_content doc2 = root2 # rest2" "synapse_patch pw root2 = Inr root2'"
        "Mar (with_content (root2' # rest2) doc2) = Inr out2"
        "dk_files d' ?path = Some \<lparr>f_content = out2, f_mode = mode2\<rparr>"
        "\<And>q. q \<noteq> ?path \<Longrightarrow> dk_files d' q = dk_files d1 q"
      from q(1,2) assms(1,2) same have "doc2 = with_content (root # rest) doc" "mode2 = mode" by simp_all
      with q(3-5) assms(3,5) w have "out2 = out" by simp
      with q(6,7) assms(1) same \<open>mode2 = mode\<close> show ?thesis by (intro ext) metis
    qed
  qed
  show "\<exists>d'. ensureSynapseConfig exec Unm Mar dir serverName pw d = (None, d')" if "faultless d"
    using that assms(1-5)
    by (simp add: ensureSynapseConfig_def ensure_patched_def PatchYAMLFile_def faultless_ops w)
qed

text \<open>What a further run of the step does on these files: nothing, and it succeeds if nothing fails.\<close>

definition settled ::
  "(gostring \<Rightarrow> goerr + ynode) \<Rightarrow> (ynode \<Rightarrow> goerr + gostring) \<Rightarrow> gostring \<Rightarrow> gostring
     \<Rightarrow> (gostring \<rightharpoonup> file_entry) \<Rightarrow> bool" where
  "settled Unm Mar dir pw files \<longleftrightarrow>
     (\<forall>exec serverName d. dk_files d = files \<and> honest d \<longrightarrow>
        (\<forall>d'. ensureSynapseConfig exec Unm Mar dir serverName pw d = (None, d') \<longrightarrow> dk_files d' = files)
      \<and> (faultless d \<longrightarrow> (\<exists>d'. ensureSynapseConfig exec Unm Mar dir serverName pw d = (None, d'))))"

text \<open>C32: patching Synapse's configuration. When the step succeeds on a disk whose failures are
  honest, there is a file \<open>f\<close> it patched: the one that was there, or, where none was, the one
  docker's \<open>generate\<close> left. The file's mode stays, no other file changes, and its content is
  the printed form of the tree that parsing \<open>f\<close> gave with the four settings made in its root:
  PostgreSQL, its arguments with the password, the bridge's registration and closed
  registration. Every other key of the root and of its \<open>database\<close> section finds the node it
  found before, comments and all. And if the parser reads what was printed, the whole step
  run again on these files changes no file, and succeeds if nothing fails.\<close>

theorem synapse_config_patched:
  assumes "ensureSynapseConfig exec Unm Mar dir serverName pw d = (None, d')"
    and "parses_wf Unm" and "honest d"
  shows "\<exists>f doc root rest root' out d0 d1.
      dk_files d0 = dk_files d
    \<and> (dk_files d (homeserver_yaml dir) \<noteq> None \<longrightarrow> d1 = d0)
    \<and> (dk_files d (homeserver_yaml dir) = None \<longrightarrow>
         dockerCompose exec [''run'', ''--rm'', ''-e'', ''SYNAPSE_SERVER_NAME='' @ serverName,
           ''-e'', ''SYNAPSE_REPORT_STATS=no'', ''synapse'', ''generate''] d0 = (None, d1))
    \<and> dk_files d1 (homeserver_yaml dir) = Some f
    \<and> dk_files d' (homeserver_yaml dir) = Some (f\<lparr>f_content := out\<rparr>)
    \<and> (\<forall>q. q \<noteq> homeserver_yaml dir \<longrightarrow> dk_files d' q = dk_files d1 q)
    \<and> Unm (f_content f) = Inr doc \<and> y_content doc = root # rest
    \<and> synapse_patch pw root = Inr root' \<and> Mar (with_content (root' # rest) doc) = Inr out
    \<and> GetString root' [''database'', ''name''] = Some ''psycopg2''
    \<and> GetString root' [''database'', ''args'', ''password''] = Some pw
    \<and> FindKey root' [''app_service_config_files''] = Some (StrList [''/appservices/registration.yaml''])
    \<and> GetBool root' [''enable_registration''] = Some False
    \<and> (\<forall>k. k \<notin> {''database'', ''app_service_config_files'', ''enable_registration''} \<longrightarrow>
         FindKey root' [k] = FindKey root [k])
    \<and> (\<forall>k. k \<notin> {''name'', ''args''} \<longrightarrow> FindKey root' [''database'', k] = FindKey root [''database'', k])
    \<and> (Unm out = Inr (with_content (root' # rest) doc) \<longrightarrow> settled Unm Mar dir pw (dk_files d'))"
proof -
  let ?path = "homeserver_yaml dir"
  let ?generate = "dockerCompose exec [''run'', ''--rm'', ''-e'', ''SYNAPSE_SERVER_NAME='' @ serverName,
      ''-e'', ''SYNAPSE_REPORT_STATS=no'', ''synapse'', ''generate'']"
  from assms(1) [unfolded ensureSynapseConfig_def] assms(3)
  obtain d0 d1 where e: "PatchYAMLFile Unm Mar ?path (synapse_patch pw) d1 = (None, d')" "dk_files d0 = dk_files d"
    "dk_files d ?path \<noteq> None \<and> d1 = d0 \<or> ?generate d0 = (None, d1) \<and> dk_files d ?path = None"
    by (rule ensure_patched_ok)
  from e(1) obtain content mode doc root rest root' out where p:
    "dk_files d1 ?path = Some \<lparr>f_content = content, f_mode = mode\<rparr>"
    "Unm content = Inr doc" "y_content doc = root # rest" "y_kind root = MappingNode"
    "synapse_patch pw root = Inr root'" "Mar (with_content (root' # rest) doc) = Inr out"
    "dk_files d' ?path = Some \<lparr>f_content = out, f_mode = mode\<rparr>"
    and others: "\<forall>q. q \<noteq> ?path \<longrightarrow> dk_files d' q = dk_files d1 q"
    by (rule PatchYAMLFile_ok) (rule that, assumption+, simp)
  have "yaml_wf doc" using assms(2) p(2) by (simp add: parses_wf_def)
  then have wf: "yaml_wf root" using p(3) by (simp add: yaml_wf_iff [of doc])
  note made = patched_root [OF p(5) wf p(4)]
  have gen: "dk_files d ?path \<noteq> None \<longrightarrow> d1 = d0" "dk_files d ?path = None \<longrightarrow> ?generate d0 = (None, d1)"
    using e(3) by auto
  have again: "settled Unm Mar dir pw (dk_files d')" if "Unm out = Inr (with_content (root' # rest) doc)"
    unfolding settled_def
  proof (intro allI impI)
    fix exec2 sn2 d2
    assume "dk_files d2 = dk_files d' \<and> honest d2"
    then have d2: "dk_files d2 = dk_files d'" "honest d2" by simp_all
    note step = patch_again [OF p(7) [folded d2(1)], where Unm = Unm and Mar = Mar and rest = rest and doc = doc
        and root = root' and pw = pw, OF that p(6) made(1,2) d2(2)]
    show "(\<forall>d3. ensureSynapseConfig exec2 Unm Mar dir sn2 pw d2 = (None, d3) \<longrightarrow> dk_files d3 = dk_files d')
        \<and> (faultless d2 \<longrightarrow> (\<exists>d3. ensureSynapseConfig exec2 Unm Mar dir sn2 pw d2 = (None, d3)))"
      using step(1) step(2) unfolding d2(1) by blast
  qed
  let ?f = "\<lparr>f_content = content, f_mode = mode\<rparr>"
  have patched: "dk_files d' ?path = Some (?f\<lparr>f_content := out\<rparr>)" "Unm (f_content ?f) = Inr doc" using p(2,7) by simp_all
  from again have "Unm out = Inr (with_content (root' # rest) doc) \<longrightarrow> settled Unm Mar dir pw (dk_files d')" by blast
  note parts = e(2) gen p(1) patched(1) others patched(2) p(3,5,6) made(3-8) this
  show ?thesis by (intro exI conjI; rule parts)
qed

definition made_synapse :: docker where
  "made_synapse args d = (None, put_file (homeserver_yaml ''/s'') ''generated'' 0x1A4 d)"

definition one_doc :: ynode where
  "one_doc = YNode DocumentNode [] [] ([], [], []) [small_doc]"

definition patched_doc :: ynode where
  "patched_doc =
     (case synapse_patch ''pw'' small_doc of Inr root \<Rightarrow> with_content [root] one_doc | Inl _ \<Rightarrow> one_doc)"

definition two_docs :: "gostring \<Rightarrow> goerr + ynode" where
  "two_docs s = Inr (if s = ''patched'' then patched_doc else one_doc)"

theorem synapse_config_patched_witness:
  "\<exists>d' root'. ensureSynapseConfig made_synapse two_docs (\<lambda>_. Inr ''patched'') ''/s'' ''h'' ''pw'' empty_disk = (None, d')
     \<and> dk_files d' (homeserver_yaml ''/s'') = Some \<lparr>f_content = ''patched'', f_mode = 0x1A4\<rparr>
     \<and> FindKey root' [''a''] = FindKey small_doc [''a''] \<and> GetBool root' [''enable_registration''] = Some False
     \<and> (\<exists>d3. ensureSynapseConfig made_synapse two_docs (\<lambda>_. Inr ''patched'') ''/s'' ''h'' ''pw''
            (empty_disk\<lparr>dk_files := dk_files d'\<rparr>) = (None, d3) \<and> dk_files d3 = dk_files d')"
proof -
  have wf: "yaml_wf one_doc" "y_content one_doc = [small_doc]" "y_kind small_doc = MappingNode" "yaml_wf small_doc"
    by (simp_all add: small_doc_def one_doc_def)
  obtain root1 where root1: "synapse_patch ''pw'' small_doc = Inr root1"
    by (simp add: synapse_patch_eq synapse_settings_def SetPath_def mapValue_def setMapKey_def small_doc_def
        fresh_def with_content_def)
  define d1 where "d1 = put_file (homeserver_yaml ''/s'') ''generated'' 0x1A4 (tick empty_disk)"
  have f: "faultless d1" "faultless (tick d1)" using empty_disk_faultless by (simp_all add: d1_def)
  have made: "dk_files d1 (homeserver_yaml ''/s'') = Some \<lparr>f_content = ''generated'', f_mode = 0x1A4\<rparr>"
    by (simp add: d1_def empty_disk_def)
  have "os_Stat (homeserver_yaml ''/s'') empty_disk = (Inl (ErrNotExist (homeserver_yaml ''/s'')), tick empty_disk)"
    using empty_disk_faultless by (simp add: faultless_ops) (simp add: empty_disk_def)
  then obtain d' where run: "ensureSynapseConfig made_synapse two_docs (\<lambda>_. Inr ''patched'')
      ''/s'' ''h'' ''pw'' empty_disk = (None, d')"
    using f wf root1 made
    by (simp add: ensureSynapseConfig_def ensure_patched_def is_not_exist_def dockerCompose_def two_docs_def
        made_synapse_def d1_def [symmetric] PatchYAMLFile_def faultless_ops)
  have "yaml_wf root1"
    using root1 [unfolded synapse_patch_eq] wf(4) by (rule set_paths_wf) (simp_all add: synapse_settings_def)
  then have "parses_wf two_docs"
    using wf(1) by (simp add: parses_wf_def two_docs_def patched_doc_def root1 one_doc_def with_content_def)
  from synapse_config_patched [OF run this faultless_honest [OF empty_disk_faultless]]
  show ?thesis
  proof (elim exE conjE)
    fix g doc root rest root' out d0 d2
    assume r: "two_docs (f_content g) = Inr doc" "y_content doc = root # rest"
      "(Inr ''patched'' :: goerr + gostring) = Inr out" "dk_files d0 = dk_files empty_disk"
      "dk_files empty_disk (homeserver_yaml ''/s'') = None \<longrightarrow>
         dockerCompose made_synapse [''run'', ''--rm'', ''-e'', ''SYNAPSE_SERVER_NAME='' @ ''h'',
           ''-e'', ''SYNAPSE_REPORT_STATS=no'', ''synapse'', ''generate''] d0 = (None, d2)"
      "dk_files d2 (homeserver_yaml ''/s'') = Some g"
      "dk_files d' (homeserver_yaml ''/s'') = Some (g\<lparr>f_content := out\<rparr>)"
      "GetBool root' [''enable_registration''] = Some False" "synapse_patch ''pw'' root = Inr root'"
      and again: "two_docs out = Inr (with_content (root' # rest) doc) \<longrightarrow>
         settled two_docs (\<lambda>_. Inr ''patched'') ''/s'' ''pw'' (dk_files d')"
      and frame: "\<forall>k. k \<notin> {''database'', ''app_service_config_files'', ''enable_registration''} \<longrightarrow>
         FindKey root' [k] = FindKey root [k]"
    from r(5) have "d2 = put_file (homeserver_yaml ''/s'') ''generated'' 0x1A4 d0"
      by (simp add: empty_disk_def dockerCompose_def made_synapse_def)
    with r(4,6) have g: "g = \<lparr>f_content = ''generated'', f_mode = 0x1A4\<rparr>" by (simp add: empty_disk_def)
    then have doc: "doc = one_doc" "root = small_doc" "rest = []" using r(1,2) wf(2) by (simp_all add: two_docs_def)
    then have "two_docs out = Inr (with_content (root' # rest) doc)"
      using r(3,9) root1 by (simp add: two_docs_def patched_doc_def)
    then have settled: "settled two_docs (\<lambda>_. Inr ''patched'') ''/s'' ''pw'' (dk_files d')" using again by blast
    let ?d = "empty_disk\<lparr>dk_files := dk_files d'\<rparr>"
    have d: "faultless ?d" "dk_files ?d = dk_files d'" using empty_disk_faultless by (simp_all add: faultless_def)
    have "\<exists>d3. ensureSynapseConfig made_synapse two_docs (\<lambda>_. Inr ''patched'') ''/s'' ''h'' ''pw'' ?d = (None, d3)
        \<and> dk_files d3 = dk_files d'"
      using settled [unfolded settled_def, rule_format, OF conjI [OF d(2) faultless_honest [OF d(1)]]] d(1) by metis
    note second = this
    from doc(2) frame have "FindKey root' [''a''] = FindKey small_doc [''a'']" by (simp del: FindKey.simps)
    moreover have "dk_files d' (homeserver_yaml ''/s'') = Some \<lparr>f_content = ''patched'', f_mode = 0x1A4\<rparr>"
      using r(3,7) g by simp
    ultimately show ?thesis using run r(8) second by blast
  qed
qed

text \<open>C33: waiting for the homeserver ends. When every poll takes at least its second, 62 polls
  are enough for the timeout of 60 seconds, whatever is answered and whenever the context
  ends; and it reports success only if a request was answered.\<close>

theorem wait_ends:
  assumes "\<And>j. po_now po j + 10 ^ 9 \<le> po_now po (Suc j)" and "start \<le> po_now po 0"
  shows "\<exists>r. waitHTTPReady po start url homeserverReadyTimeout 62 = Some r
    \<and> (r = None \<longrightarrow> (\<exists>j. po_answered po j))"
proof -
  have "\<exists>r. waitHTTPReady po start url homeserverReadyTimeout 62 = Some r"
    unfolding waitHTTPReady_def homeserverReadyTimeout_def
    by (rule wait_loop_runs) (use assms in simp_all)
  with wait_loop_ready show ?thesis unfolding waitHTTPReady_def by blast
qed

definition dead_server :: polls where
  "dead_server = \<lparr>po_answered = (\<lambda>_. False), po_now = (\<lambda>i. int i * 10 ^ 9), po_ctx = (\<lambda>_. None)\<rparr>"

theorem wait_ends_witness:
  "\<exists>err. waitHTTPReady dead_server 0 ''u'' homeserverReadyTimeout 62 = Some (Some err)"
proof -
  have "\<exists>r. waitHTTPReady dead_server 0 ''u'' homeserverReadyTimeout 62 = Some r
      \<and> (r = None \<longrightarrow> (\<exists>j. po_answered dead_server j))"
    by (rule wait_ends) (simp_all add: dead_server_def)
  then show ?thesis by (auto simp: dead_server_def)
qed

end
