(* ===== verification/SetupFiles.thy ===== *)
theory SetupFiles
  imports EnvFile Config "HOL-Library.List_Lexorder" "HOL-Library.Char_ord"
begin

text \<open>
  The files the set-up wizard leaves for the daemon: \<open>internal/setup/writeconfig.go\<close> with its
  template, and the token file of \<open>setup.go\<close>. The alias map is an association list with
  distinct keys; \<open>text/template\<close> visits a map in the order of its keys.
\<close>

section \<open>Definitions\<close>

text \<open>\<open>strings.ReplaceAll\<close> of a single byte.\<close>

definition ReplaceAll :: "gostring \<Rightarrow> char \<Rightarrow> gostring \<Rightarrow> gostring" where
  "ReplaceAll s old new = concat (map (\<lambda>c. if c = old then new else [c]) s)"

definition tomlEscape :: "gostring \<Rightarrow> gostring" where
  "tomlEscape s = ReplaceAll (ReplaceAll s BS [BS, BS]) DQ [BS, DQ]"

definition quoted :: "gostring \<Rightarrow> gostring" where
  "quoted s = DQ # s @ [DQ]"

text \<open>The template, line by line. Its trim markers remove the line breaks after the opening and
  the closing action of the loop, so the alias lines stand directly before the last section.
  One dash is not ASCII.\<close>

definition alias_lines :: "(gostring \<times> gostring) list \<Rightarrow> gostring list" where
  "alias_lines escaped = map (\<lambda>(mxid, name). quoted mxid @ '' = '' @ quoted name) (sort_key fst escaped)"

definition config_lines ::
  "gostring \<Rightarrow> gostring \<Rightarrow> gostring \<Rightarrow> (gostring \<times> gostring) list \<Rightarrow> gostring list" where
  "config_lines homeserver userID tokenFile escaped =
     [''# Generated by `quietdmd setup`. See docs/matrix-setup.md for what every'',
      ''# field here means, and examples/matrix.toml for the hand-written version of'',
      ''# the same file.'', [],
      ''[transport]'', ''kind = '' @ quoted ''matrix'', [],
      ''[matrix]'', ''homeserver = '' @ quoted homeserver, ''user_id    = '' @ quoted userID, [],
      ''# The access token never goes in this file. quietdmd setup wrote it here'',
      ''# instead, with mode 0600 '' @ encode_rune 0x2014 @ '' the daemon refuses to read a token file anybody'',
      ''# else on the machine can.'', ''token_file = '' @ quoted tokenFile, [],
      ''# Left empty, the daemon asks the homeserver which device the token belongs'',
      ''# to.'', ''# device_id = '' @ quoted [], [],
      ''# Olm/Megolm, on by default. Every room the bridge creates is encrypted, so'',
      ''# turning this off means reading nothing at all.'', ''encrypt = true'', [],
      ''[aliases]'',
      ''# The frontend shows the localpart of the sender by default, which already'',
      ''# reads like a git author name. quietdm setup pre-filled whatever puppet'',
      ''# display names it could see when it ran; override or add more as you like.'']
     @ alias_lines escaped
     @ [''[sanitize]'', ''strip_emoji = true'', []]"

definition renderConfig ::
  "gostring \<Rightarrow> gostring \<Rightarrow> gostring \<Rightarrow> (gostring \<times> gostring) list \<Rightarrow> gostring" where
  "renderConfig homeserver userID tokenFile aliases =
     StrJoin (config_lines (tomlEscape homeserver) (tomlEscape userID) (tomlEscape tokenFile)
       (map (\<lambda>(k, v). (tomlEscape k, tomlEscape v)) aliases)) [CHR 0x0A]"

definition writeTokenFile :: "gostring \<Rightarrow> gostring \<Rightarrow> disk \<Rightarrow> goerr option \<times> disk" where
  "writeTokenFile path token d =
     (case os_MkdirAll (PathDir path) d of
        (Some err, d) \<Rightarrow> (Some (Wrap (''create '' @ PathDir path @ '': '') err []), d)
      | (None, d) \<Rightarrow>
          (case os_WriteFile path (token @ [CHR 0x0A]) 0x180 d of
             (Some err, d) \<Rightarrow> (Some (Wrap (''write '' @ path @ '': '') err []), d)
           | (None, d) \<Rightarrow> os_Chmod path 0x180 d))"

definition write_new_config :: "gostring \<Rightarrow> gostring \<Rightarrow> disk \<Rightarrow> (goerr + gostring) \<times> disk" where
  "write_new_config path content d =
     (case os_MkdirAll (PathDir path) d of
        (Some err, d) \<Rightarrow> (Inl (Wrap (''create '' @ PathDir path @ '': '') err []), d)
      | (None, d) \<Rightarrow>
          (case os_WriteFile path content 0x1A4 d of
             (Some err, d) \<Rightarrow> (Inl (Wrap (''write '' @ path @ '': '') err []), d)
           | (None, d) \<Rightarrow> (Inr path, d)))"

definition writeConfigFile :: "gostring \<Rightarrow> bool \<Rightarrow> gostring \<Rightarrow> disk \<Rightarrow> (goerr + gostring) \<times> disk" where
  "writeConfigFile path force content d =
     (if force then write_new_config path content d
      else case os_Stat path d of
        (Inr _, d) \<Rightarrow>
          (let sidecar = path @ ''.generated'' in
           case os_WriteFile sidecar content 0x1A4 d of
             (Some err, d) \<Rightarrow> (Inl (Wrap (''write '' @ sidecar @ '': '') err []), d)
           | (None, d) \<Rightarrow> (Inr sidecar, d))
      | (Inl err, d) \<Rightarrow>
          if is_not_exist err then write_new_config path content d
          else (Inl (Wrap (''stat '' @ path @ '': '') err []), d))"

function trimNewline :: "gostring \<Rightarrow> gostring" where
  "trimNewline s =
     (if s \<noteq> [] \<and> (last s = CHR 0x0A \<or> last s = CHR 0x0D) then trimNewline (butlast s) else s)"
  by pat_completeness auto
termination
  by (relation "measure length") auto

declare trimNewline.simps [simp del]

definition readExistingToken :: "gostring \<Rightarrow> disk \<Rightarrow> gostring option \<times> disk" where
  "readExistingToken path d =
     (case os_ReadFile path d of
        (Inl err, d) \<Rightarrow> (None, d)
      | (Inr content, d) \<Rightarrow>
          (let token = trimNewline content in if token = [] then (None, d) else (Some token, d)))"

section \<open>Escaping\<close>

lemma tomlEscape_simps [simp]:
  "tomlEscape [] = []"
  "tomlEscape (c # s) = (if c = BS then [BS, BS] else if c = DQ then [BS, DQ] else [c]) @ tomlEscape s"
  by (simp_all add: tomlEscape_def ReplaceAll_def)

text \<open>A basic string of TOML, after its opening quote: its value and what follows the closing
  quote. No control character but the tab may stand in it. (Of the escapes, the two the
  wizard writes.)\<close>

definition toml_plain :: "char \<Rightarrow> bool" where
  "toml_plain c \<longleftrightarrow> c \<noteq> DQ \<and> c \<noteq> BS \<and> (0x20 \<le> bv c \<or> bv c = 9) \<and> bv c \<noteq> 0x7F"

fun toml_basic :: "gostring \<Rightarrow> (gostring \<times> gostring) option" where
  "toml_basic [] = None"
| "toml_basic (c # s) =
     (if c = DQ then Some ([], s)
      else if c = BS
      then (case s of
              [] \<Rightarrow> None
            | e # t \<Rightarrow>
                if e = BS \<or> e = DQ
                then (case toml_basic t of None \<Rightarrow> None | Some (v, rest) \<Rightarrow> Some (e # v, rest))
                else None)
      else if toml_plain c
      then (case toml_basic s of None \<Rightarrow> None | Some (v, rest) \<Rightarrow> Some (c # v, rest))
      else None)"

definition toml_char :: "char \<Rightarrow> bool" where
  "toml_char c \<longleftrightarrow> (0x20 \<le> bv c \<or> bv c = 9) \<and> bv c \<noteq> 0x7F"

lemma toml_char_quote [simp]: "toml_char DQ" "toml_char BS"
  by (simp_all add: toml_char_def)

lemma toml_basic_escape:
  "toml_basic (tomlEscape s @ DQ # rest) = (if list_all toml_char s then Some (s, rest) else None)"
proof (induction s)
  case (Cons c s)
  then show ?case
    by (cases "c = BS"; cases "c = DQ") (simp_all add: toml_plain_def toml_char_def split: option.split)
qed simp

text \<open>Names survive the configuration file. A homeserver, user, path, alias or display name
  written between quotes reads back as itself exactly when it has no control character; a
  display name with a newline in it makes the generated file unreadable.\<close>

theorem toml_escape_roundtrip:
  "toml_basic (tl (quoted (tomlEscape s)) @ rest) =
     (if list_all toml_char s then Some (s, rest) else None)"
  by (simp add: quoted_def toml_basic_escape)

section \<open>The token file\<close>

lemma trimNewline_keep: "s = [] \<or> (last s \<noteq> CHR 0x0A \<and> last s \<noteq> CHR 0x0D) \<Longrightarrow> trimNewline s = s"
  by (subst trimNewline.simps) auto

lemma trimNewline_line: "trimNewline (s @ [CHR 0x0A]) = trimNewline s"
  by (subst trimNewline.simps) simp

lemma trimNewline_token: "env_word s \<Longrightarrow> trimNewline (s @ [CHR 0x0A]) = s"
proof -
  assume w: "env_word s"
  have "s = [] \<or> (last s \<noteq> CHR 0x0A \<and> last s \<noteq> CHR 0x0D)"
  proof (cases "s = []")
    case False
    with w have "0x21 \<le> bv (last s)" by (simp add: env_word_def list_all_iff)
    then show ?thesis by auto
  qed simp
  then show ?thesis by (simp add: trimNewline_line trimNewline_keep)
qed

lemma trimNewline_split: "\<exists>ws. s = trimNewline s @ ws \<and> set ws \<subseteq> {CHR 0x0A, CHR 0x0D}"
proof (induction s rule: rev_induct)
  case Nil
  then show ?case by (simp add: trimNewline.simps)
next
  case (snoc c s)
  show ?case
  proof (cases "c = CHR 0x0A \<or> c = CHR 0x0D")
    case True
    then have "trimNewline (s @ [c]) = trimNewline s" by (subst trimNewline.simps) auto
    moreover from snoc obtain ws where "s = trimNewline s @ ws" "set ws \<subseteq> {CHR 0x0A, CHR 0x0D}" by blast
    ultimately show ?thesis using True by (intro exI [of _ "ws @ [c]"]) auto
  next
    case False
    then have "trimNewline (s @ [c]) = s @ [c]" by (intro trimNewline_keep) simp
    then show ?thesis by simp
  qed
qed

lemma TrimSpace_tail:
  assumes "env_word s" and "set ws \<subseteq> {CHR 0x0A, CHR 0x0D}"
  shows "TrimSpace (s @ ws) = s"
proof -
  let ?ch = "map (\<lambda>c. (bv c, [c]))" and ?dr = "dropWhile (\<lambda>(r, bs). IsSpace r)"
  have ch: "chunks (s @ ws) = ?ch s @ ?ch ws"
    using assms by (subst chunks_ascii) (auto simp: env_word_def list_all_iff)
  have keep: "?dr (?ch t @ u) = ?ch t @ u" if sub: "set t \<subseteq> set s" and ne: "t \<noteq> []" for t u
  proof -
    obtain c cs where c: "t = c # cs" using ne by (cases t) auto
    with assms(1) sub have "\<not> IsSpace (bv c)" by (intro not_IsSpace) (auto simp: env_word_def list_all_iff)
    then show ?thesis by (simp add: c)
  qed
  have sp: "IsSpace 10" "IsSpace 13" by (simp_all add: IsSpace_def)
  have gone: "?dr (?ch v @ u) = ?dr u" if "set v \<subseteq> {CHR 0x0A, CHR 0x0D}" for v u
    using that sp by (induction v) auto
  show ?thesis
  proof (cases "s = []")
    case True
    have "?dr (chunks (s @ ws)) = []" using gone [OF assms(2), of "[]"] unfolding ch by (simp add: True)
    then show ?thesis using True by (simp only: TrimSpace_def Let_def) simp
  next
    case False
    have "?dr (chunks (s @ ws)) = ?ch s @ ?ch ws" using keep [of s "?ch ws"] False by (simp add: ch)
    moreover have "?dr (rev (?ch s @ ?ch ws)) = rev (?ch s)"
      using gone [of "rev ws" "?ch (rev s)"] keep [of "rev s" "[]"] False assms(2) by (simp add: rev_map)
    ultimately show ?thesis by (simp add: TrimSpace_def Let_def comp_def)
  qed
qed

lemma TrimSpace_line: "env_word s \<Longrightarrow> TrimSpace (s @ [CHR 0x0A]) = s"
  by (rule TrimSpace_tail) simp_all

lemma TrimSpace_token: "env_word (trimNewline s) \<Longrightarrow> TrimSpace s = trimNewline s"
  using trimNewline_split [of s] TrimSpace_tail [of "trimNewline s"] by metis

text \<open>What the daemon's operating system sees of a disk.\<close>

definition sees :: "disk \<Rightarrow> os \<Rightarrow> os" where
  "sees d sys = sys\<lparr>
     StatPerm := (\<lambda>p. case dk_files d p of None \<Rightarrow> Inl (ErrNotExist p) | Some f \<Rightarrow> Inr (f_mode f)),
     ReadFile := (\<lambda>p. case dk_files d p of None \<Rightarrow> Inl (ErrNotExist p) | Some f \<Rightarrow> Inr (f_content f))\<rparr>"

lemma writeTokenFile_ok:
  assumes "writeTokenFile path token d = (None, d')"
  shows "dk_files d' path = Some \<lparr>f_content = token @ [CHR 0x0A], f_mode = 0x180\<rparr>"
proof -
  obtain e1 d1 where m: "os_MkdirAll (PathDir path) d = (e1, d1)" by fastforce
  have e1: "e1 = None" using assms by (cases e1) (simp_all add: writeTokenFile_def m)
  obtain e2 d2 where w: "os_WriteFile path (token @ [CHR 0x0A]) 0x180 d1 = (e2, d2)" by fastforce
  have e2: "e2 = None" using assms by (cases e2) (simp_all add: writeTokenFile_def m e1 w)
  from w e2 have d2: "d2 = put_file path (token @ [CHR 0x0A]) 0x180 (tick d1)" by (auto dest: os_WriteFile_ok)
  from assms have "os_Chmod path 0x180 d2 = (None, d')" by (simp add: writeTokenFile_def m e1 w e2)
  then show ?thesis by (auto simp: os_Chmod_def d2 split: option.splits prod.splits)
qed

lemma writeTokenFile_frame:
  assumes "writeTokenFile path token d = (e, d')" and "q \<noteq> path"
  shows "dk_files d' q = dk_files d q"
proof -
  obtain e1 d1 where m: "os_MkdirAll (PathDir path) d = (e1, d1)" by fastforce
  obtain e2 d2 where w: "os_WriteFile path (token @ [CHR 0x0A]) 0x180 d1 = (e2, d2)" by fastforce
  have same: "dk_files d1 q = dk_files d q" "dk_files d2 q = dk_files d1 q"
    using os_frames(3) [OF m] os_frames(4) [OF w assms(2)] by simp_all
  show ?thesis
  proof (cases "e1 = None \<and> e2 = None")
    case True
    with assms(1) m w have "os_Chmod path 0x180 d2 = (e, d')" by (simp add: writeTokenFile_def)
    with os_frames(5) assms(2) same show ?thesis by metis
  next
    case False
    with assms(1) m w same show ?thesis by (cases e1; cases e2) (auto simp: writeTokenFile_def)
  qed
qed

text \<open>The token the wizard writes is the token the daemon reads. After a successful write,
  whatever file or mode was there before, the daemon accepts the file and gets the same
  token (when its environment does not override it), and so does a later run of the wizard;
  no other file has changed.\<close>

theorem token_file_roundtrip:
  assumes "writeTokenFile path token d = (None, d')" and "env_word token" and "token \<noteq> []" and "path \<noteq> []"
    and "xc_TokenFile (cfg_Matrix c) = path" and "Getenv sys TokenEnv = []"
  shows "MatrixToken (sees d' sys) c = Inr token
    \<and> (next_fault d' = None \<longrightarrow> fst (readExistingToken path d') = Some token)
    \<and> (\<forall>q. q \<noteq> path \<longrightarrow> dk_files d' q = dk_files d q)"
proof -
  from writeTokenFile_ok [OF assms(1)]
  have f: "dk_files d' path = Some \<lparr>f_content = token @ [CHR 0x0A], f_mode = 0x180\<rparr>" .
  have s: "StatPerm (sees d' sys) path = Inr 0x180" "ReadFile (sees d' sys) path = Inr (token @ [CHR 0x0A])"
    "Getenv (sees d' sys) TokenEnv = []"
    using f assms(6) by (simp_all add: sees_def)
  have "MatrixToken (sees d' sys) c = Inr token"
    using TrimSpace_line [OF assms(2)] assms(3,4) by (simp add: MatrixToken_def s assms(5))
  moreover have "next_fault d' = None \<longrightarrow> fst (readExistingToken path d') = Some token"
    using trimNewline_token [OF assms(2)] assms(3) f by (simp add: readExistingToken_def os_ReadFile_def)
  ultimately show ?thesis using writeTokenFile_frame [OF assms(1)] by blast
qed

definition stale_token :: disk where
  "stale_token = put_file ''/t'' ''old'' 0x1A4 empty_disk"

theorem token_file_roundtrip_witness:
  "\<exists>d'. writeTokenFile ''/t'' ''syt_x'' stale_token = (None, d')
     \<and> MatrixToken (sees d' \<lparr>Getenv = (\<lambda>_. []), Getuid = 0, StatPerm = (\<lambda>p. Inl Canceled),
          IsDirectory = (\<lambda>_. False), ReadFile = (\<lambda>p. Inl Canceled), UserHomeDir = Inr ''/h'', TempDir = ''/tmp''\<rparr>)
        (Default\<lparr>cfg_Matrix := (cfg_Matrix Default)\<lparr>xc_TokenFile := ''/t''\<rparr>\<rparr>) = Inr ''syt_x''"
proof -
  have f: "faultless stale_token" using empty_disk_faultless by (simp add: stale_token_def)
  obtain d' where w: "writeTokenFile ''/t'' ''syt_x'' stale_token = (None, d')"
    using f by (simp add: writeTokenFile_def faultless_ops os_Chmod_def)
  have t: "env_word ''syt_x''" "''syt_x'' \<noteq> ([] :: gostring)" "''/t'' \<noteq> ([] :: gostring)" by simp_all
  let ?sys = "\<lparr>Getenv = (\<lambda>_. []), Getuid = 0, StatPerm = (\<lambda>p. Inl Canceled), IsDirectory = (\<lambda>_. False),
    ReadFile = (\<lambda>p. Inl Canceled), UserHomeDir = Inr ''/h'', TempDir = ''/tmp''\<rparr>"
  have "xc_TokenFile (cfg_Matrix (Default\<lparr>cfg_Matrix := (cfg_Matrix Default)\<lparr>xc_TokenFile := ''/t''\<rparr>\<rparr>)) = ''/t''"
    and "Getenv ?sys TokenEnv = []" by simp_all
  from token_file_roundtrip [OF w t this] w show ?thesis by blast
qed

section \<open>The configuration file\<close>

lemma write_new_config_ok:
  assumes "write_new_config path content d = (Inr p, d')"
  shows "p = path \<and> content_at d' path = Some content"
proof -
  obtain e1 d1 where m: "os_MkdirAll (PathDir path) d = (e1, d1)" by fastforce
  have e1: "e1 = None" using assms by (cases e1) (simp_all add: write_new_config_def m)
  obtain e2 d2 where w: "os_WriteFile path content 0x1A4 d1 = (e2, d2)" by fastforce
  have e2: "e2 = None" "p = path" "d' = d2"
    using assms by (cases e2; simp add: write_new_config_def m e1 w)+
  with w have "d' = put_file path content 0x1A4 (tick d1)" by (auto dest: os_WriteFile_ok)
  with e2(2) show ?thesis by (simp only: content_at_put)
qed

lemma write_new_config_keeps:
  assumes "write_new_config path content d = (Inr p, d')" and "q \<noteq> path"
  shows "dk_files d' q = dk_files d q"
proof -
  obtain e1 d1 where m: "os_MkdirAll (PathDir path) d = (e1, d1)" by fastforce
  have e1: "e1 = None" using assms(1) by (cases e1) (simp_all add: write_new_config_def m)
  obtain e2 d2 where w: "os_WriteFile path content 0x1A4 d1 = (e2, d2)" by fastforce
  have "d' = d2" using assms(1) by (cases e2) (simp_all add: write_new_config_def m e1 w)
  with os_frames(4) [OF w assms(2)] os_frames(3) [OF m] show ?thesis by simp
qed

lemma writeConfigFile_ok:
  assumes "writeConfigFile path force content d = (Inr p, d')"
  shows "content_at d' p = Some content
    \<and> (\<forall>q. q \<noteq> path \<and> q \<noteq> path @ ''.generated'' \<longrightarrow> dk_files d' q = dk_files d q)"
proof -
  obtain st d1 where s: "os_Stat path d = (st, d1)" by fastforce
  have d1: "dk_files d1 = dk_files d" by (rule os_frames(2) [OF s])
  have new: ?thesis if "write_new_config path content d2 = (Inr p, d')" "dk_files d2 = dk_files d" for d2
    using write_new_config_ok [OF that(1)] write_new_config_keeps [OF that(1)] that(2) by auto
  show ?thesis
  proof (cases force)
    case True
    with assms new [of d] show ?thesis by (simp add: writeConfigFile_def)
  next
    case False
    show ?thesis
    proof (cases st)
      case (Inl err)
      with assms False s new [of d1] d1 show ?thesis by (simp add: writeConfigFile_def split: if_splits)
    next
      case (Inr mode)
      obtain e d2 where w: "os_WriteFile (path @ ''.generated'') content 0x1A4 d1 = (e, d2)" by fastforce
      have e: "e = None" "p = path @ ''.generated''" "d' = d2"
        using assms False s Inr w by (cases e; simp add: writeConfigFile_def)+
      with w have "d2 = put_file (path @ ''.generated'') content 0x1A4 (tick d1)" by (auto dest: os_WriteFile_ok)
      with e os_frames(4) [OF w] d1 show ?thesis by simp
    qed
  qed
qed

text \<open>C35: an existing configuration is never overwritten unless asked. Without \<open>force\<close> an existing
  file keeps its content and its mode whatever fails, and success means that the content is
  in the sidecar; otherwise success means that it is at the path.\<close>

theorem config_not_clobbered:
  assumes "writeConfigFile path force content d = (res, d')" and "honest d"
  shows "(\<not> force \<and> dk_files d path \<noteq> None \<longrightarrow> dk_files d' path = dk_files d path)
    \<and> (\<forall>p. res = Inr p \<longrightarrow> content_at d' p = Some content
         \<and> p = (if \<not> force \<and> dk_files d path \<noteq> None then path @ ''.generated'' else path))"
proof (cases force)
  case True
  with assms(1) have "write_new_config path content d = (res, d')" by (simp add: writeConfigFile_def)
  with True show ?thesis by (cases res) (auto dest: write_new_config_ok)
next
  case False
  obtain st d1 where s: "os_Stat path d = (st, d1)" by fastforce
  note same = os_frames(2) [OF s]
  show ?thesis
  proof (cases st)
    case (Inl err)
    show ?thesis
    proof (cases "is_not_exist err")
      case True
      with os_Stat_absent s Inl assms(2) have "dk_files d path = None" by blast
      moreover have "write_new_config path content d1 = (res, d')"
        using assms(1) False s Inl True by (simp add: writeConfigFile_def)
      ultimately show ?thesis using write_new_config_ok by metis
    next
      case none: False
      with assms(1) False s Inl same show ?thesis by (auto simp: writeConfigFile_def)
    qed
  next
    case (Inr mode)
    then have there: "dk_files d path \<noteq> None" using os_Stat_ok s by blast
    obtain e d2 where w: "os_WriteFile (path @ ''.generated'') content 0x1A4 d1 = (e, d2)" by fastforce
    have "dk_files d2 path = dk_files d path" using os_frames(4) [OF w, of path] same by simp
    moreover have "d' = d2" "res = (case e of Some err \<Rightarrow> Inl (Wrap (''write '' @ (path @ ''.generated'') @ '': '') err [])
        | None \<Rightarrow> Inr (path @ ''.generated''))"
      using assms(1) False s Inr w by (cases e; simp add: writeConfigFile_def)+
    moreover have "content_at d2 (path @ ''.generated'') = Some content" if "e = None"
      using w that by (auto dest: os_WriteFile_ok)
    ultimately show ?thesis using there False by (cases e) auto
  qed
qed

definition hand_written :: disk where
  "hand_written = put_file ''/c'' ''mine'' 0x1A4 empty_disk"

theorem config_not_clobbered_witness:
  "\<exists>d'. writeConfigFile ''/c'' False ''new'' hand_written = (Inr ''/c.generated'', d')
     \<and> content_at d' ''/c'' = Some ''mine'' \<and> content_at d' ''/c.generated'' = Some ''new''"
proof -
  have f: "faultless hand_written" using empty_disk_faultless by (simp add: hand_written_def)
  have c: "dk_files hand_written ''/c'' \<noteq> None" "content_at hand_written ''/c'' = Some ''mine''"
    by (simp_all add: hand_written_def)
  then obtain d' where w: "writeConfigFile ''/c'' False ''new'' hand_written = (Inr ''/c.generated'', d')"
    using f by (cases "dk_files hand_written ''/c''") (auto simp: writeConfigFile_def faultless_ops Let_def)
  from config_not_clobbered [OF w faultless_honest [OF f]] c
  have "dk_files d' ''/c'' = dk_files hand_written ''/c''" "content_at d' ''/c.generated'' = Some ''new''" by simp_all
  with c w show ?thesis by (auto simp: content_at_def)
qed

end
