(* ===== verification/Wizard.thy ===== *)
theory Wizard
  imports Stack SetupFiles
begin

text \<open>
  The set-up wizard's dealings with the homeserver: the daemon's account and the options of
  \<open>internal/setup/setup.go\<close>, and the conversation with the bridge bot of \<open>chat.go\<close>. What the
  mautrix client answers is an argument. What the loop prints and sends is collected in a
  record; the wizard's own two lines of text around it are left out.
\<close>

section \<open>Options\<close>

record setup_options =
  so_DockerDir :: gostring
  so_ServerName :: gostring
  so_ConfigPath :: gostring
  so_TokenPath :: gostring
  so_Force :: bool

definition setDefaults :: "os \<Rightarrow> setup_options \<Rightarrow> setup_options" where
  "setDefaults sys opts =
     opts\<lparr>so_DockerDir := set_or (so_DockerDir opts) (SelfHostDir sys),
          so_ServerName := set_or (so_ServerName opts) ''quietdm.local'',
          so_ConfigPath := set_or (so_ConfigPath opts) (DefaultConfigPath sys),
          so_TokenPath := set_or (so_TokenPath opts) (PathJoin [StateDir sys, ''token''])\<rparr>"

section \<open>The daemon's account\<close>

record matrix_world =
  mw_NewClient :: "gostring \<Rightarrow> goerr option"
  mw_Whoami :: "gostring \<Rightarrow> goerr + gostring"
  mw_NewUserID :: "gostring \<Rightarrow> gostring \<Rightarrow> gostring"
  mw_Localpart :: "gostring \<Rightarrow> gostring"
  mw_Register :: "gostring \<Rightarrow> gostring \<Rightarrow> gostring \<Rightarrow> goerr option"
  mw_Login :: "gostring \<Rightarrow> gostring \<Rightarrow> goerr + (gostring \<times> gostring)"

text \<open>\<open>base64.RawURLEncoding\<close>: four characters for three bytes, no padding.\<close>

definition b64_digit :: "nat \<Rightarrow> char" where
  "b64_digit n = ''ABCDEFGHIJKLMNOPQRSTUVWXYZabcdefghijklmnopqrstuvwxyz0123456789-_'' ! n"

fun RawURLEncoding :: "gostring \<Rightarrow> gostring" where
  "RawURLEncoding (a # b # c # rest) =
     [b64_digit (bv a div 4), b64_digit (bv a mod 4 * 16 + bv b div 16),
      b64_digit (bv b mod 16 * 4 + bv c div 64), b64_digit (bv c mod 64)] @ RawURLEncoding rest"
| "RawURLEncoding [a, b] =
     [b64_digit (bv a div 4), b64_digit (bv a mod 4 * 16 + bv b div 16), b64_digit (bv b mod 16 * 4)]"
| "RawURLEncoding [a] = [b64_digit (bv a div 4), b64_digit (bv a mod 4 * 16)]"
| "RawURLEncoding [] = []"

definition randomUsername :: "(nat \<Rightarrow> goerr + gostring) \<Rightarrow> goerr + gostring" where
  "randomUsername rand =
     (case randomHex rand 4 of Inl err \<Rightarrow> Inl err | Inr suffix \<Rightarrow> Inr (''qd-'' @ suffix))"

definition randomPassword :: "(nat \<Rightarrow> goerr + gostring) \<Rightarrow> goerr + gostring" where
  "randomPassword rand =
     (case rand 24 of
        Inl err \<Rightarrow> Inl (Wrap ''generate password: '' err [])
      | Inr buf \<Rightarrow> Inr (RawURLEncoding buf))"

definition registerAdmin ::
  "matrix_world \<Rightarrow> (nat \<Rightarrow> goerr + gostring) \<Rightarrow> gostring \<Rightarrow> gostring
     \<Rightarrow> goerr + (gostring \<times> gostring \<times> gostring)" where
  "registerAdmin mw rand serverName sharedSecret =
     (case mw_NewClient mw [] of
        Some err \<Rightarrow> Inl (Wrap ''matrix client: '' err [])
      | None \<Rightarrow>
          (case randomUsername rand of
             Inl err \<Rightarrow> Inl err
           | Inr username \<Rightarrow>
               (case randomPassword rand of
                  Inl err \<Rightarrow> Inl err
                | Inr password \<Rightarrow>
                    (case mw_Register mw sharedSecret username password of
                       Some err \<Rightarrow> Inl (Wrap ''register admin account: '' err [])
                     | None \<Rightarrow> Inr (username, password, mw_NewUserID mw username serverName)))))"

text \<open>A token on disk that still works.\<close>

definition reuse_token :: "matrix_world \<Rightarrow> gostring \<Rightarrow> disk \<Rightarrow> (gostring \<times> gostring) option \<times> disk" where
  "reuse_token mw path d =
     (case readExistingToken path d of
        (None, d) \<Rightarrow> (None, d)
      | (Some token, d) \<Rightarrow>
          (if mw_NewClient mw token = None
           then (case mw_Whoami mw token of Inr uid \<Rightarrow> (Some (uid, token), d) | Inl _ \<Rightarrow> (None, d))
           else (None, d)))"

definition login_account ::
  "matrix_world \<Rightarrow> gostring \<Rightarrow> gostring \<Rightarrow> gostring \<Rightarrow> disk \<Rightarrow> (goerr + (gostring \<times> gostring)) \<times> disk" where
  "login_account mw path password adminMXID d =
     (case mw_NewClient mw [] of
        Some err \<Rightarrow> (Inl (Wrap ''matrix client: '' err []), d)
      | None \<Rightarrow>
          (case mw_Login mw (mw_Localpart mw adminMXID) password of
             Inl err \<Rightarrow> (Inl (Wrap ''login as daemon account: '' err []), d)
           | Inr (uid, token) \<Rightarrow>
               (case writeTokenFile path token d of
                  (Some err, d) \<Rightarrow> (Inl err, d)
                | (None, d) \<Rightarrow> (Inr (uid, token), d))))"

text \<open>The outer option is the panic of \<open>registrationSharedSecret\<close>.\<close>

definition ensureDaemonAccount ::
  "matrix_world \<Rightarrow> (gostring \<Rightarrow> goerr + ynode) \<Rightarrow> (nat \<Rightarrow> goerr + gostring) \<Rightarrow> setup_options \<Rightarrow> disk
     \<Rightarrow> (goerr + (gostring \<times> gostring)) option \<times> disk" where
  "ensureDaemonAccount mw Unmarshal rand opts d =
     (case reuse_token mw (so_TokenPath opts) d of
        (Some account, d) \<Rightarrow> (Some (Inr account), d)
      | (None, d) \<Rightarrow>
          (case registrationSharedSecret Unmarshal (so_DockerDir opts) d of
             (None, d) \<Rightarrow> (None, d)
           | (Some (Inl err), d) \<Rightarrow> (Some (Inl err), d)
           | (Some (Inr secret), d) \<Rightarrow>
               (case registerAdmin mw rand (so_ServerName opts) secret of
                  Inl err \<Rightarrow> (Some (Inl err), d)
                | Inr (_, password, adminMXID) \<Rightarrow>
                    (case login_account mw (so_TokenPath opts) password adminMXID d of
                       (res, d) \<Rightarrow> (Some res, d)))))"

section \<open>The bridge bot\<close>

definition bridgeBotLocalpart :: gostring where
  "bridgeBotLocalpart = ''instagrambot''"

text \<open>The members of a room: ids with display names, in the order the map is visited.\<close>

type_synonym members = "(gostring \<times> gostring) list"

fun find_dm :: "(gostring \<Rightarrow> goerr + members) \<Rightarrow> gostring \<Rightarrow> gostring list \<Rightarrow> gostring option" where
  "find_dm JoinedMembers botID [] = None"
| "find_dm JoinedMembers botID (r # rs) =
     (case JoinedMembers r of
        Inl err \<Rightarrow> find_dm JoinedMembers botID rs
      | Inr ms \<Rightarrow>
          if botID \<in> fst ` set ms \<and> length ms = 2 then Some r else find_dm JoinedMembers botID rs)"

text \<open>With the room, whether it was created.\<close>

definition findOrCreateBridgeDM ::
  "goerr + gostring list \<Rightarrow> (gostring \<Rightarrow> goerr + members) \<Rightarrow> goerr + gostring \<Rightarrow> gostring
     \<Rightarrow> (goerr + gostring) \<times> bool" where
  "findOrCreateBridgeDM JoinedRooms JoinedMembers CreateRoom botID =
     (case JoinedRooms of
        Inl err \<Rightarrow> (Inl (Wrap ''list joined rooms: '' err []), False)
      | Inr rooms \<Rightarrow>
          (case find_dm JoinedMembers botID rooms of
             Some r \<Rightarrow> (Inr r, False)
           | None \<Rightarrow>
               (case CreateRoom of
                  Inl err \<Rightarrow> (Inl (Wrap (''open DM with '' @ botID @ '': '') err []), True)
                | Inr r \<Rightarrow> (Inr r, True))))"

record room_event =
  re_sender :: gostring
  re_message :: bool
  re_body :: "gostring option"

record sync_answer =
  sa_next :: gostring
  sa_events :: "room_event list"

record login =
  lg_printed :: "gostring list"
  lg_sent :: "gostring list"
  lg_asked :: "gostring list"

definition bot_bodies :: "gostring \<Rightarrow> room_event list \<Rightarrow> gostring list" where
  "bot_bodies botID evs =
     concat (map (\<lambda>e. if re_sender e \<noteq> botID \<or> \<not> re_message e then []
                      else case re_body e of Some b \<Rightarrow> [b] | None \<Rightarrow> []) evs)"

text \<open>The answers to the sync requests (an error comes with what \<open>ctx.Err()\<close> is then), the lines
  of the standard input, the outcome of the n-th message sent. No result when the answers
  run out: the loop still waits.\<close>

fun login_loop ::
  "(nat \<Rightarrow> goerr option) \<Rightarrow> gostring \<Rightarrow> ((goerr \<times> goerr option) + sync_answer) list \<Rightarrow> gostring list
     \<Rightarrow> gostring \<Rightarrow> login \<Rightarrow> goerr option option \<times> login" where
  "login_loop sent botID [] typed since lg = (None, lg)"
| "login_loop sent botID (Inl (err, ctx) # answers) typed since lg =
     (Some (Some (case ctx of Some c \<Rightarrow> c | None \<Rightarrow> Wrap ''waiting for bridge bot: '' err [])),
      lg\<lparr>lg_asked := lg_asked lg @ [since]\<rparr>)"
| "login_loop sent botID (Inr a # answers) typed since lg =
     (let lg = lg\<lparr>lg_asked := lg_asked lg @ [since]\<rparr> in
      if sa_events a = [] then login_loop sent botID answers typed (sa_next a) lg
      else
        (let lg = lg\<lparr>lg_printed := lg_printed lg @ bot_bodies botID (sa_events a)\<rparr> in
         case typed of
           [] \<Rightarrow> (Some (Some (Opaque ''stdin closed before bridge login finished'')), lg)
         | t # ts \<Rightarrow>
             (let line = TrimSpace t in
              if line = [] \<or> line = ''/done'' then (Some None, lg)
              else case sent (length (lg_sent lg)) of
                Some err \<Rightarrow> (Some (Some (Wrap ''send reply: '' err [])), lg)
              | None \<Rightarrow>
                  login_loop sent botID answers ts (sa_next a) (lg\<lparr>lg_sent := lg_sent lg @ [line]\<rparr>))))"

definition runBridgeLogin ::
  "(nat \<Rightarrow> goerr option) \<Rightarrow> gostring \<Rightarrow> goerr + sync_answer \<Rightarrow> ((goerr \<times> goerr option) + sync_answer) list
     \<Rightarrow> gostring list \<Rightarrow> goerr option option \<times> login" where
  "runBridgeLogin sent botID baseline answers typed =
     (let lg = \<lparr>lg_printed = [], lg_sent = [], lg_asked = []\<rparr> in
      case sent 0 of
        Some err \<Rightarrow> (Some (Some (Wrap ''send login: '' err [])), lg)
      | None \<Rightarrow>
          (let lg = lg\<lparr>lg_sent := [''login''], lg_asked := [[]]\<rparr>;
               since = (case baseline of Inr b \<Rightarrow> sa_next b | Inl _ \<Rightarrow> [])
           in login_loop sent botID answers typed since lg))"

fun add_aliases :: "gostring \<Rightarrow> gostring \<Rightarrow> members \<Rightarrow> (gostring \<rightharpoonup> gostring) \<Rightarrow> gostring \<rightharpoonup> gostring" where
  "add_aliases me botID [] aliases = aliases"
| "add_aliases me botID ((uid, name) # ms) aliases =
     (if uid = me \<or> uid = botID \<or> name = [] then add_aliases me botID ms aliases
      else add_aliases me botID ms (aliases(uid \<mapsto> name)))"

fun alias_rooms ::
  "(gostring \<Rightarrow> goerr + members) \<Rightarrow> gostring \<Rightarrow> gostring \<Rightarrow> gostring list \<Rightarrow> (gostring \<rightharpoonup> gostring)
     \<Rightarrow> gostring \<rightharpoonup> gostring" where
  "alias_rooms JoinedMembers me botID [] aliases = aliases"
| "alias_rooms JoinedMembers me botID (r # rs) aliases =
     (case JoinedMembers r of
        Inl err \<Rightarrow> alias_rooms JoinedMembers me botID rs aliases
      | Inr ms \<Rightarrow> alias_rooms JoinedMembers me botID rs (add_aliases me botID ms aliases))"

definition aliasSkeleton ::
  "goerr + gostring list \<Rightarrow> (gostring \<Rightarrow> goerr + members) \<Rightarrow> gostring \<Rightarrow> gostring \<Rightarrow> gostring \<rightharpoonup> gostring" where
  "aliasSkeleton JoinedRooms JoinedMembers me botID =
     (case JoinedRooms of
        Inl err \<Rightarrow> Map.empty
      | Inr rooms \<Rightarrow> alias_rooms JoinedMembers me botID rooms Map.empty)"

end
