(* ===== verification/WizardProps.thy ===== *)
theory WizardProps
  imports Wizard
begin

text \<open>
  What the wizard's dealings with the homeserver guarantee: a working token is reused, a new
  one is on disk before it is used; the bridge conversation is relayed and ends.
\<close>

section \<open>The bridge conversation\<close>

text \<open>What a log-in should do, said without the loop: the answers that bring something, up to the first
  failed request; what the bot says in them; the lines that are passed on, up to the first that is
  blank, the end mark, or cannot be sent (\<open>k\<close> messages having been sent before).\<close>

fun heard :: "((goerr \<times> goerr option) + sync_answer) list \<Rightarrow> sync_answer list" where
  "heard [] = []"
| "heard (Inl e # answers) = []"
| "heard (Inr a # answers) = (if sa_events a = [] then heard answers else a # heard answers)"

definition said_by :: "gostring \<Rightarrow> sync_answer list \<Rightarrow> gostring list" where
  "said_by botID as =
     map (the \<circ> re_body) (filter (\<lambda>e. re_sender e = botID \<and> re_message e \<and> re_body e \<noteq> None)
       (concat (map sa_events as)))"

definition passes_on :: "gostring \<Rightarrow> bool" where
  "passes_on t \<longleftrightarrow> TrimSpace t \<noteq> [] \<and> TrimSpace t \<noteq> ''/done''"

fun passed_on :: "(nat \<Rightarrow> goerr option) \<Rightarrow> nat \<Rightarrow> gostring list \<Rightarrow> nat" where
  "passed_on snt k [] = 0"
| "passed_on snt k (t # ts) = (if passes_on t \<and> snt k = None then Suc (passed_on snt (Suc k) ts) else 0)"

lemma said_by_Cons: "said_by botID (a # as) = bot_bodies botID (sa_events a) @ said_by botID as"
proof -
  have "map (the \<circ> re_body) (filter (\<lambda>e. re_sender e = botID \<and> re_message e \<and> re_body e \<noteq> None) evs)
      = bot_bodies botID evs" for evs
    by (induction evs) (auto simp: bot_bodies_def split: option.split)
  then show ?thesis by (simp add: said_by_def)
qed

lemma said_by_Nil [simp]: "said_by botID [] = []"
  by (simp add: said_by_def)

lemma login_loop_relays:
  "login_loop snt botID answers typed since lg = (r, lg') \<Longrightarrow> n = passed_on snt (length (lg_sent lg)) typed \<Longrightarrow>
     lg_sent lg' = lg_sent lg @ map TrimSpace (take (min n (length (heard answers))) typed)
   \<and> lg_printed lg' = lg_printed lg @ said_by botID (take (Suc n) (heard answers))
   \<and> (r = None \<longleftrightarrow> length (heard answers) \<le> n \<and> \<not> list_ex isl answers)
   \<and> (r = Some None \<longleftrightarrow> n < length (heard answers) \<and> n < length typed \<and> \<not> passes_on (typed ! n))"
proof (induction answers arbitrary: typed since lg n)
  case Nil
  then show ?case by auto
next
  case step: (Cons x answers)
  show ?case
  proof (cases x)
    case (Inl e)
    with step.prems show ?thesis by (cases e) auto
  next
    case (Inr a)
    let ?asked = "lg\<lparr>lg_asked := lg_asked lg @ [since]\<rparr>"
    let ?said = "?asked\<lparr>lg_printed := lg_printed lg @ bot_bodies botID (sa_events a)\<rparr>"
    show ?thesis
    proof (cases "sa_events a = []")
      case True
      then have "login_loop snt botID answers typed (sa_next a) ?asked = (r, lg')"
        using step.prems(1) Inr by simp
      from step.IH [OF this, of n] step.prems(2) True Inr show ?thesis by simp
    next
      case news: False
      show ?thesis
      proof (cases "n")
        case 0
        then have "lg' = ?said \<and> r \<noteq> None
            \<and> (r = Some None \<longleftrightarrow> typed \<noteq> [] \<and> \<not> passes_on (hd typed))"
          using step.prems Inr news
          by (cases typed) (auto simp: passes_on_def Let_def split: if_splits option.splits)
        with 0 news Inr show ?thesis by (cases typed) (auto simp: said_by_Cons)
      next
        case (Suc k)
        then obtain t ts where ts: "typed = t # ts" "passes_on t" "snt (length (lg_sent lg)) = None"
          "k = passed_on snt (Suc (length (lg_sent lg))) ts"
          using step.prems(2) by (cases typed) (auto split: if_splits)
        let ?next = "?said\<lparr>lg_sent := lg_sent lg @ [TrimSpace t]\<rparr>"
        have run: "login_loop snt botID answers ts (sa_next a) ?next = (r, lg')"
          using step.prems(1) Inr news ts by (simp add: passes_on_def Let_def)
        from step.IH [OF run, of k] ts(4) Suc news Inr ts(1) show ?thesis by (simp add: said_by_Cons)
      qed
    qed
  qed
qed

text \<open>C36: the bridge log-in is a relay, exactly. If the word \<open>login\<close> cannot be sent nothing else is
  done. Otherwise the room gets it and then the user's lines, trimmed and in order: one for each
  answer in which something happened, as long as the next line is neither blank nor \<open>/done\<close> and can be
  sent. The user is shown the text messages of the bot in the answers read, those and no others, in
  order. It ends well just when an answer meets a line that is blank or \<open>/done\<close>, and still waits only
  while every answer so far has been met with a line passed on.\<close>

theorem login_is_a_relay:
  assumes "runBridgeLogin snt botID baseline answers typed = (r, lg)" and "n = passed_on snt 1 typed"
  shows "if snt 0 \<noteq> None then r \<notin> {None, Some None} \<and> lg_sent lg = [] \<and> lg_printed lg = []
    else lg_sent lg = ''login'' # map TrimSpace (take (min n (length (heard answers))) typed)
      \<and> lg_printed lg = map (the \<circ> re_body)
          (filter (\<lambda>e. re_sender e = botID \<and> re_message e \<and> re_body e \<noteq> None)
             (concat (map sa_events (take (Suc n) (heard answers)))))
      \<and> (r = None \<longleftrightarrow> length (heard answers) \<le> n \<and> \<not> list_ex isl answers)
      \<and> (r = Some None \<longleftrightarrow> n < length (heard answers) \<and> n < length typed \<and> \<not> passes_on (typed ! n))"
proof (cases "snt 0")
  case (Some err)
  with assms show ?thesis by (auto simp: runBridgeLogin_def)
next
  case None
  let ?lg = "\<lparr>lg_printed = [], lg_sent = [''login''], lg_asked = [[]]\<rparr>"
  from assms(1) None have "login_loop snt botID answers typed (case baseline of Inr b \<Rightarrow> sa_next b | Inl _ \<Rightarrow> []) ?lg = (r, lg)"
    by (simp add: runBridgeLogin_def Let_def)
  from login_loop_relays [OF this, of n] assms(2) None show ?thesis by (simp add: said_by_def)
qed

definition bot_asks :: "sync_answer" where
  "bot_asks = \<lparr>sa_next = ''s1'', sa_events =
     [\<lparr>re_sender = ''@bot:h'', re_message = True, re_body = Some ''Paste your cookie''\<rparr>,
      \<lparr>re_sender = ''@me:h'', re_message = True, re_body = Some ''login''\<rparr>]\<rparr>"

theorem login_is_a_relay_witness:
  "\<exists>lg. runBridgeLogin (\<lambda>_. None) ''@bot:h'' (Inr bot_asks) [Inr bot_asks, Inr bot_asks] [''cookie'', ''/done'']
       = (Some None, lg)
     \<and> lg_sent lg = [''login'', ''cookie''] \<and> lg_printed lg = [''Paste your cookie'', ''Paste your cookie'']"
proof -
  obtain r lg where run: "runBridgeLogin (\<lambda>_. None) ''@bot:h'' (Inr bot_asks) [Inr bot_asks, Inr bot_asks]
      [''cookie'', ''/done''] = (r, lg)" by fastforce
  have trim: "TrimSpace ''cookie'' = ''cookie''" "TrimSpace ''/done'' = ''/done''"
    by (simp_all add: TrimSpace_def decode_rune_def IsSpace_def)
  then have n: "1 = passed_on (\<lambda>_. None) 1 [''cookie'', ''/done'']" by (simp add: passes_on_def)
  from login_is_a_relay [OF run n] trim run show ?thesis by (simp add: bot_asks_def passes_on_def)
qed

section \<open>The account\<close>

lemma readExistingToken_files: "readExistingToken path d = (t, d') \<Longrightarrow> dk_files d' = dk_files d"
  by (auto simp: readExistingToken_def Let_def dest: os_frames(1) split: prod.splits sum.splits if_splits)

lemma reuse_token_files: "reuse_token mw path d = (x, d') \<Longrightarrow> dk_files d' = dk_files d"
  by (auto simp: reuse_token_def dest: readExistingToken_files split: prod.splits option.splits sum.splits if_splits)

lemma secret_files: "registrationSharedSecret Unm dir d = (x, d') \<Longrightarrow> dk_files d' = dk_files d"
  by (auto simp: registrationSharedSecret_def dest: os_frames(1)
      split: prod.splits option.splits sum.splits list.splits if_splits)

lemma login_account_ok:
  assumes "login_account mw path pw mxid d = (Inr (uid, token), d')"
  shows "writeTokenFile path token d = (None, d') \<and> mw_Login mw (mw_Localpart mw mxid) pw = Inr (uid, token)"
  using assms
  by (auto simp: login_account_def split: option.splits sum.splits prod.splits)

lemma daemon_account_cases:
  assumes "ensureDaemonAccount mw Unm rand opts d = (Some (Inr (uid, token)), d')"
  shows "(fst (reuse_token mw (so_TokenPath opts) d) = Some (uid, token) \<and> dk_files d' = dk_files d)
    \<or> (fst (reuse_token mw (so_TokenPath opts) d) = None
       \<and> dk_files d' (so_TokenPath opts) = Some \<lparr>f_content = token @ [CHR 0x0A], f_mode = 0x180\<rparr>
       \<and> (\<exists>user pw. mw_Login mw user pw = Inr (uid, token))
       \<and> (\<forall>q. q \<noteq> so_TokenPath opts \<longrightarrow> dk_files d' q = dk_files d q))"
proof -
  obtain x d1 where r: "reuse_token mw (so_TokenPath opts) d = (x, d1)" by fastforce
  show ?thesis
  proof (cases x)
    case (Some account)
    with assms r reuse_token_files [OF r] show ?thesis by (simp add: ensureDaemonAccount_def)
  next
    case None
    obtain y d2 where s: "registrationSharedSecret Unm (so_DockerDir opts) d1 = (y, d2)" by fastforce
    obtain secret where y: "y = Some (Inr secret)"
      using assms r None s by (auto simp: ensureDaemonAccount_def split: option.splits sum.splits)
    obtain user pw mxid where reg: "registerAdmin mw rand (so_ServerName opts) secret = Inr (user, pw, mxid)"
      using assms r None s y by (auto simp: ensureDaemonAccount_def split: sum.splits)
    have "login_account mw (so_TokenPath opts) pw mxid d2 = (Inr (uid, token), d')"
      using assms r None s y reg by (auto simp: ensureDaemonAccount_def split: prod.splits)
    from login_account_ok [OF this] have w: "writeTokenFile (so_TokenPath opts) token d2 = (None, d')"
      "mw_Login mw (mw_Localpart mw mxid) pw = Inr (uid, token)" by simp_all
    have "dk_files d2 = dk_files d" using secret_files [OF s] reuse_token_files [OF r] by simp
    with writeTokenFile_ok [OF w(1)] writeTokenFile_frame [OF w(1)] w(2) r None show ?thesis by auto
  qed
qed

text \<open>The daemon's account. A token on disk that the homeserver accepts is used as it is and
  no file changes; otherwise a run that succeeds has logged in, and the token it returns is
  in the token file, with mode 0600, before anything else is done with it.\<close>

theorem daemon_account:
  assumes "ensureDaemonAccount mw Unm rand opts d = (Some (Inr (uid, token)), d')"
  shows "(fst (reuse_token mw (so_TokenPath opts) d) = Some (uid, token) \<and> dk_files d' = dk_files d)
    \<or> (fst (reuse_token mw (so_TokenPath opts) d) = None
       \<and> dk_files d' (so_TokenPath opts) = Some \<lparr>f_content = token @ [CHR 0x0A], f_mode = 0x180\<rparr>
       \<and> (\<exists>user pw. mw_Login mw user pw = Inr (uid, token))
       \<and> (\<forall>q. q \<noteq> so_TokenPath opts \<longrightarrow> dk_files d' q = dk_files d q))"
  by (rule daemon_account_cases [OF assms])

definition plain_matrix_world :: matrix_world where
  "plain_matrix_world =
     \<lparr>mw_NewClient = (\<lambda>_. None), mw_Whoami = (\<lambda>t. if t = ''good'' then Inr ''@qd:h'' else Inl (MUnknownToken ''no'')),
      mw_NewUserID = (\<lambda>u s. ''@'' @ u @ '':'' @ s), mw_Localpart = tl, mw_Register = (\<lambda>_ _ _. None),
      mw_Login = (\<lambda>_ _. Inr (''@qd:h'', ''fresh''))\<rparr>"

definition plain_setup :: setup_options where
  "plain_setup = \<lparr>so_DockerDir = ''/s'', so_ServerName = ''h'', so_ConfigPath = ''/c'', so_TokenPath = ''/t'', so_Force = False\<rparr>"

definition good_token :: disk where
  "good_token = put_file ''/t'' (''good'' @ [CHR 0x0A]) 0x180 empty_disk"

theorem daemon_account_witness:
  "\<exists>d'. ensureDaemonAccount plain_matrix_world (\<lambda>_. Inl Canceled) (\<lambda>_. Inl Canceled) plain_setup good_token
       = (Some (Inr (''@qd:h'', ''good'')), d')
     \<and> dk_files d' = dk_files good_token"
proof -
  have t: "trimNewline (''good'' @ [CHR 0x0A]) = ''good''" by (rule trimNewline_token) simp
  have "next_fault good_token = None" by (simp add: good_token_def empty_disk_def next_fault_def put_file_def)
  moreover have "dk_files good_token ''/t'' = Some \<lparr>f_content = ''good'' @ [CHR 0x0A], f_mode = 0x180\<rparr>"
    by (simp add: good_token_def empty_disk_def)
  ultimately have r: "reuse_token plain_matrix_world ''/t'' good_token = (Some (''@qd:h'', ''good''), tick good_token)"
    using t by (simp add: reuse_token_def readExistingToken_def os_ReadFile_def plain_matrix_world_def)
  then have run: "ensureDaemonAccount plain_matrix_world (\<lambda>_. Inl Canceled) (\<lambda>_. Inl Canceled) plain_setup good_token
       = (Some (Inr (''@qd:h'', ''good'')), tick good_token)"
    by (simp add: ensureDaemonAccount_def plain_setup_def)
  have "fst (reuse_token plain_matrix_world (so_TokenPath plain_setup) good_token) = Some (''@qd:h'', ''good'')"
    using r by (simp add: plain_setup_def)
  with daemon_account [OF run] run show ?thesis by auto
qed

section \<open>Rooms and aliases\<close>

lemma find_dm_Some:
  "find_dm JM botID rs = Some r \<Longrightarrow> r \<in> set rs \<and> (\<exists>ms. JM r = Inr ms \<and> botID \<in> fst ` set ms \<and> length ms = 2)"
  by (induction rs) (auto split: sum.splits if_splits)

lemma find_dm_None:
  "find_dm JM botID rs = None \<Longrightarrow> r \<in> set rs \<Longrightarrow> JM r = Inr ms \<Longrightarrow> botID \<in> fst ` set ms \<Longrightarrow> length ms \<noteq> 2"
  by (induction rs) (auto split: sum.splits if_splits)

lemma add_aliases_sound:
  "add_aliases me botID ms al uid = Some name \<Longrightarrow>
     al uid = Some name \<or> (uid \<noteq> me \<and> uid \<noteq> botID \<and> name \<noteq> [] \<and> (uid, name) \<in> set ms)"
  by (induction me botID ms al rule: add_aliases.induct) (auto split: if_splits)

lemma alias_rooms_sound:
  "alias_rooms JM me botID rs al uid = Some name \<Longrightarrow>
     al uid = Some name \<or> (uid \<noteq> me \<and> uid \<noteq> botID \<and> name \<noteq> []
       \<and> (\<exists>r ms. r \<in> set rs \<and> JM r = Inr ms \<and> (uid, name) \<in> set ms))"
proof (induction JM me botID rs al rule: alias_rooms.induct)
  case (2 JM me botID r rs al)
  then show ?case using add_aliases_sound by (fastforce split: sum.splits)
qed simp

text \<open>The room with the bridge bot is reused, and the proposed aliases are real. A room is
  opened only when no joined room has exactly the bot and one other member; and every
  proposed alias is the non-empty display name of a member of a joined room who is neither
  the account itself nor the bot.\<close>

theorem bridge_rooms:
  "(findOrCreateBridgeDM (Inr rooms) JM create botID = (Inr r, False) \<longrightarrow>
      r \<in> set rooms \<and> (\<exists>ms. JM r = Inr ms \<and> botID \<in> fst ` set ms \<and> length ms = 2))
   \<and> (findOrCreateBridgeDM (Inr rooms) JM create botID = (res, True) \<longrightarrow>
      (\<forall>q ms. q \<in> set rooms \<longrightarrow> JM q = Inr ms \<longrightarrow> botID \<in> fst ` set ms \<longrightarrow> length ms \<noteq> 2))
   \<and> (aliasSkeleton (Inr rooms) JM me botID uid = Some name \<longrightarrow>
      uid \<noteq> me \<and> uid \<noteq> botID \<and> name \<noteq> []
      \<and> (\<exists>q ms. q \<in> set rooms \<and> JM q = Inr ms \<and> (uid, name) \<in> set ms))"
proof (intro conjI impI)
  assume "findOrCreateBridgeDM (Inr rooms) JM create botID = (Inr r, False)"
  then have "find_dm JM botID rooms = Some r"
    by (auto simp: findOrCreateBridgeDM_def split: option.splits sum.splits)
  then show "r \<in> set rooms" "\<exists>ms. JM r = Inr ms \<and> botID \<in> fst ` set ms \<and> length ms = 2"
    using find_dm_Some by blast+
next
  assume "findOrCreateBridgeDM (Inr rooms) JM create botID = (res, True)"
  then have "find_dm JM botID rooms = None"
    by (auto simp: findOrCreateBridgeDM_def split: option.splits sum.splits)
  then show "\<forall>q ms. q \<in> set rooms \<longrightarrow> JM q = Inr ms \<longrightarrow> botID \<in> fst ` set ms \<longrightarrow> length ms \<noteq> 2"
    using find_dm_None by blast
next
  assume "aliasSkeleton (Inr rooms) JM me botID uid = Some name"
  then have "alias_rooms JM me botID rooms Map.empty uid = Some name" by (simp add: aliasSkeleton_def)
  from alias_rooms_sound [OF this] show "uid \<noteq> me" "uid \<noteq> botID" "name \<noteq> []"
    "\<exists>q ms. q \<in> set rooms \<and> JM q = Inr ms \<and> (uid, name) \<in> set ms" by auto
qed

theorem bridge_rooms_witness:
  "findOrCreateBridgeDM (Inr [''!a'', ''!b'']) (\<lambda>r. if r = ''!a'' then Inl Canceled
      else Inr [(''@bot:h'', []), (''@me:h'', [])]) (Inl Canceled) ''@bot:h'' = (Inr ''!b'', False)
   \<and> ''!b'' \<in> set [''!a'', ''!b'' :: gostring]"
proof -
  let ?JM = "\<lambda>r. if r = ''!a'' then Inl Canceled else Inr [(''@bot:h'', []), (''@me:h'', [])]"
  have f: "findOrCreateBridgeDM (Inr [''!a'', ''!b'']) ?JM (Inl Canceled) ''@bot:h'' = (Inr ''!b'', False)"
    by (simp add: findOrCreateBridgeDM_def)
  with bridge_rooms [of "[''!a'', ''!b'']" ?JM "Inl Canceled" "''@bot:h''" "''!b''" "Inl Canceled" "[]" "[]" "[]"]
  show ?thesis by blast
qed

end
