(* ===== verification/Setup.thy ===== *)
theory Setup
  imports WizardProps
begin

text \<open>
  \<open>Run\<close> of \<open>internal/setup/setup.go\<close>: the whole wizard, phase by phase, in the order of the
  code. What the surroundings answer is the record \<open>setup_world\<close>. A phase finishes with a value
  or an error, panics, or still waits after the polls and answers given.
\<close>

section \<open>Definitions\<close>

definition homeserverURL :: gostring where
  "homeserverURL = ''http://localhost:8008''"

record setup_world =
  sw_look_path :: "goerr option"
  sw_compose_version :: "goerr option"
  sw_rand :: "nat \<Rightarrow> goerr + gostring"
  sw_uid :: nat
  sw_gid :: nat
  sw_compose :: gostring
  sw_docker :: docker
  sw_unmarshal :: "gostring \<Rightarrow> goerr + ynode"
  sw_marshal :: "ynode \<Rightarrow> goerr + gostring"
  sw_polls :: "nat \<Rightarrow> polls"
  sw_clock :: "nat \<Rightarrow> int"
  sw_fuel :: nat
  sw_matrix :: matrix_world
  sw_rooms :: "nat \<Rightarrow> goerr + gostring list"
  sw_members :: "gostring \<Rightarrow> goerr + members"
  sw_create :: "goerr + gostring"
  sw_sent :: "nat \<Rightarrow> goerr option"
  sw_baseline :: "goerr + sync_answer"
  sw_answers :: "((goerr \<times> goerr option) + sync_answer) list"
  sw_typed :: "gostring list"

text \<open>A phase: its outcome on the disk it finds. A panic ends the process with everything in it.\<close>

datatype 'a outcome =
    StillWaits
  | Panicked
  | Finished "goerr + 'a"

type_synonym 'a phase = "disk \<Rightarrow> 'a outcome \<times> disk"

definition andthen :: "'a phase \<Rightarrow> ('a \<Rightarrow> 'b phase) \<Rightarrow> 'b phase" where
  "andthen p f d =
     (case p d of
        (StillWaits, d) \<Rightarrow> (StillWaits, d)
      | (Panicked, d) \<Rightarrow> (Panicked, d)
      | (Finished (Inl err), d) \<Rightarrow> (Finished (Inl err), d)
      | (Finished (Inr x), d) \<Rightarrow> f x d)"

definition value_phase :: "goerr + 'a \<Rightarrow> 'a phase" where
  "value_phase r d = (Finished r, d)"

definition error_phase :: "(disk \<Rightarrow> goerr option \<times> disk) \<Rightarrow> unit phase" where
  "error_phase step d =
     (case step d of (Some err, d) \<Rightarrow> (Finished (Inl err), d) | (None, d) \<Rightarrow> (Finished (Inr ()), d))"

definition wait_phase :: "(disk \<Rightarrow> goerr option option \<times> disk) \<Rightarrow> unit phase" where
  "wait_phase step d =
     (case step d of
        (None, d) \<Rightarrow> (StillWaits, d)
      | (Some (Some err), d) \<Rightarrow> (Finished (Inl err), d)
      | (Some None, d) \<Rightarrow> (Finished (Inr ()), d))"

definition result_phase :: "(disk \<Rightarrow> (goerr + 'a) \<times> disk) \<Rightarrow> 'a phase" where
  "result_phase step d = (case step d of (r, d) \<Rightarrow> (Finished r, d))"

text \<open>A step without a result has panicked.\<close>

definition panic_phase :: "(disk \<Rightarrow> (goerr + 'a) option \<times> disk) \<Rightarrow> 'a phase" where
  "panic_phase step d =
     (case step d of (None, d) \<Rightarrow> (Panicked, d) | (Some r, d) \<Rightarrow> (Finished r, d))"

text \<open>The errors of \<open>preflight\<close> point to a section of the manual, in Chinese after a dash.\<close>

definition see_manual :: gostring where
  "see_manual = encode_runes [0x20, 0x2014, 0x20] @ ''see docs/self-host.md '' @ [DQ]
     @ encode_runes [0x3007, 0x3001, 0x9700, 0x8981, 0x7684, 0x6771, 0x897F] @ [DQ]"

definition preflight :: "setup_world \<Rightarrow> goerr option" where
  "preflight w =
     (case sw_look_path w of
        Some err \<Rightarrow> Some (Opaque (''docker not found in PATH'' @ see_manual))
      | None \<Rightarrow>
          (case sw_compose_version w of
             Some err \<Rightarrow> Some (Wrap ''docker compose not available: '' err see_manual)
           | None \<Rightarrow> None))"

definition setup_stack :: "setup_world \<Rightarrow> setup_options \<Rightarrow> unit phase" where
  "setup_stack w opts =
     andthen (value_phase (case preflight w of Some err \<Rightarrow> Inl err | None \<Rightarrow> Inr ())) (\<lambda>_.
     andthen (result_phase (materializeStack (sw_rand w) (sw_uid w) (sw_gid w) (sw_compose w) (so_DockerDir opts)))
       (\<lambda>dbPassword.
     andthen (error_phase (ensureSynapseConfig (sw_docker w) (sw_unmarshal w) (sw_marshal w)
       (so_DockerDir opts) (so_ServerName opts) dbPassword)) (\<lambda>_.
     wait_phase (startSynapse (sw_docker w) (sw_polls w 0) (sw_clock w 0) (sw_fuel w) homeserverURL))))"

definition setup_bridge :: "setup_world \<Rightarrow> setup_options \<Rightarrow> gostring \<Rightarrow> unit phase" where
  "setup_bridge w opts adminMXID =
     andthen (error_phase (ensureBridgeConfig (sw_docker w) (sw_unmarshal w) (sw_marshal w)
       (so_DockerDir opts) (so_ServerName opts) adminMXID)) (\<lambda>_.
     andthen (wait_phase (ensureBridgeRegistration (sw_docker w) (sw_polls w 1) (sw_clock w 1) (sw_fuel w)
       (so_DockerDir opts) homeserverURL)) (\<lambda>_.
     error_phase (startBridge (sw_docker w))))"

text \<open>The conversation with the bot, then the aliases. The client is the account's.\<close>

definition setup_chat ::
  "setup_world \<Rightarrow> setup_options \<Rightarrow> gostring \<Rightarrow> gostring \<Rightarrow> (gostring \<rightharpoonup> gostring) phase" where
  "setup_chat w opts adminMXID token =
     (let botID = mw_NewUserID (sw_matrix w) bridgeBotLocalpart (so_ServerName opts) in
      andthen (value_phase (case mw_NewClient (sw_matrix w) token of
        Some err \<Rightarrow> Inl (Wrap ''matrix client: '' err []) | None \<Rightarrow> Inr ())) (\<lambda>_.
      andthen (value_phase (fst (findOrCreateBridgeDM (sw_rooms w 0) (sw_members w) (sw_create w) botID))) (\<lambda>roomID.
      andthen (wait_phase (\<lambda>d. (fst (runBridgeLogin (sw_sent w) botID (sw_baseline w) (sw_answers w) (sw_typed w)), d)))
        (\<lambda>_.
      value_phase (Inr (aliasSkeleton (sw_rooms w 1) (sw_members w) adminMXID botID))))))"

text \<open>The map of aliases as the list of its entries.\<close>

definition entries :: "(gostring \<rightharpoonup> gostring) \<Rightarrow> (gostring \<times> gostring) list" where
  "entries al = map (\<lambda>k. (k, the (al k))) (sorted_list_of_set (dom al))"

text \<open>With the path written: the account, its token and the aliases.\<close>

definition setup_Run ::
  "setup_world \<Rightarrow> os \<Rightarrow> setup_options
     \<Rightarrow> (gostring \<times> gostring \<times> gostring \<times> (gostring \<rightharpoonup> gostring)) phase" where
  "setup_Run w sys opts0 =
     (let opts = setDefaults sys opts0 in
      andthen (setup_stack w opts) (\<lambda>_.
      andthen (panic_phase (ensureDaemonAccount (sw_matrix w) (sw_unmarshal w) (sw_rand w) opts)) (\<lambda>(adminMXID, token).
      andthen (setup_bridge w opts adminMXID) (\<lambda>_.
      andthen (setup_chat w opts adminMXID token) (\<lambda>aliases.
      andthen (result_phase (writeConfigFile (so_ConfigPath opts) (so_Force opts)
        (renderConfig homeserverURL adminMXID (so_TokenPath opts) (entries aliases)))) (\<lambda>written.
      value_phase (Inr (written, adminMXID, token, aliases))))))))"

section \<open>Phases\<close>

lemma andthen_ok:
  assumes "andthen p f d = (Finished (Inr y), d')"
  obtains x d1 where "p d = (Finished (Inr x), d1)" "f x d1 = (Finished (Inr y), d')"
  using assms by (auto simp: andthen_def split: prod.splits outcome.splits sum.splits)

text \<open>A phase leaves a file alone when it succeeds.\<close>

definition keeps :: "gostring \<Rightarrow> 'a phase \<Rightarrow> bool" where
  "keeps q p \<longleftrightarrow> (\<forall>d x d'. p d = (Finished (Inr x), d') \<longrightarrow> dk_files d' q = dk_files d q)"

lemma keepsD: "keeps q p \<Longrightarrow> p d = (Finished (Inr x), d') \<Longrightarrow> dk_files d' q = dk_files d q"
  unfolding keeps_def by blast

lemma keeps_andthen: "keeps q p \<Longrightarrow> (\<And>x. keeps q (f x)) \<Longrightarrow> keeps q (andthen p f)"
  by (force simp: keeps_def elim!: andthen_ok)

lemma keeps_value: "keeps q (value_phase r)"
  by (simp add: keeps_def value_phase_def)

lemma keeps_error:
  assumes "\<And>d d'. step d = (None, d') \<Longrightarrow> dk_files d' q = dk_files d q"
  shows "keeps q (error_phase step)"
  using assms by (auto simp: keeps_def error_phase_def split: prod.splits option.splits)

lemma keeps_wait:
  assumes "\<And>d d' r. step d = (r, d') \<Longrightarrow> dk_files d' q = dk_files d q"
  shows "keeps q (wait_phase step)"
  using assms by (auto simp: keeps_def wait_phase_def split: prod.splits option.splits)

text \<open>A phase that cannot panic; only the search for the shared secret can.\<close>

definition calm :: "'a phase \<Rightarrow> bool" where
  "calm p \<longleftrightarrow> (\<forall>d d'. p d \<noteq> (Panicked, d'))"

lemma calm_andthen: "calm p \<Longrightarrow> (\<And>x. calm (f x)) \<Longrightarrow> calm (andthen p f)"
  by (force simp: calm_def andthen_def split: prod.splits outcome.splits sum.splits)

lemma calm_phases: "calm (value_phase r)" "calm (error_phase step)" "calm (wait_phase step1)" "calm (result_phase step2)"
  by (simp_all add: calm_def value_phase_def error_phase_def wait_phase_def result_phase_def
      split: prod.splits option.splits)

lemma calm_parts: "calm (setup_stack w opts)" "calm (setup_bridge w opts mxid)" "calm (setup_chat w opts mxid token)"
  unfolding setup_stack_def setup_bridge_def setup_chat_def Let_def
  by (intro calm_andthen calm_phases)+

lemma calmD: "calm p \<Longrightarrow> p d \<noteq> (Panicked, d')"
  by (simp add: calm_def)

lemma andthen_panics:
  assumes "andthen p f d = (Panicked, d')"
  obtains (first) "p d = (Panicked, d')"
  | (later) x d1 where "p d = (Finished (Inr x), d1)" "f x d1 = (Panicked, d')"
  using assms by (auto simp: andthen_def split: prod.splits outcome.splits sum.splits)

lemma secret_panics:
  assumes "registrationSharedSecret Unm dir d = (None, d')"
  shows "\<exists>f doc. dk_files d' (homeserver_yaml dir) = Some f \<and> Unm (f_content f) = Inr doc \<and> y_content doc = []"
proof -
  obtain res d1 where r: "os_ReadFile (homeserver_yaml dir) d = (res, d1)" by fastforce
  with assms obtain content where c: "res = Inr content"
    by (cases res) (simp_all add: registrationSharedSecret_def)
  with assms r have d1: "d' = d1" "\<exists>doc. Unm content = Inr doc \<and> y_content doc = []"
    by (auto simp: registrationSharedSecret_def split: sum.splits list.splits option.splits if_splits)
  from os_ReadFile_ok r c obtain f where "dk_files d (homeserver_yaml dir) = Some f" "f_content f = content" by blast
  with d1 os_frames(1) [OF r] show ?thesis by auto
qed

lemma account_panics:
  assumes "ensureDaemonAccount mw Unm rand opts d = (None, d')"
  shows "\<exists>d1. registrationSharedSecret Unm (so_DockerDir opts) d1 = (None, d')"
  using assms by (auto simp: ensureDaemonAccount_def split: prod.splits option.splits sum.splits)

text \<open>The wizard panics on one thing only: a \<open>homeserver.yaml\<close> that holds no document when it looks
  for the secret.\<close>

lemma setup_Run_panics:
  assumes "setup_Run w sys opts0 d = (Panicked, d')"
  shows "\<exists>f doc. dk_files d' (homeserver_yaml (so_DockerDir (setDefaults sys opts0))) = Some f
    \<and> sw_unmarshal w (f_content f) = Inr doc \<and> y_content doc = []"
proof -
  let ?opts = "setDefaults sys opts0"
  from assms obtain d1 where "panic_phase (ensureDaemonAccount (sw_matrix w) (sw_unmarshal w) (sw_rand w) ?opts) d1
      = (Panicked, d')"
    unfolding setup_Run_def Let_def
    by (elim andthen_panics)
      (auto simp: calm_parts [THEN calmD] calm_phases [THEN calmD] split: prod.splits elim!: andthen_panics)
  then have "ensureDaemonAccount (sw_matrix w) (sw_unmarshal w) (sw_rand w) ?opts d1 = (None, d')"
    by (simp add: panic_phase_def split: prod.splits option.splits)
  from account_panics [OF this] secret_panics show ?thesis by blast
qed

section \<open>What docker and the patches leave alone\<close>

definition docker_keeps :: "docker \<Rightarrow> gostring \<Rightarrow> bool" where
  "docker_keeps exec q \<longleftrightarrow> (\<forall>args d. dk_files (snd (exec args d)) q = dk_files d q)"

lemma dockerCompose_keeps:
  assumes "docker_keeps exec q" and "dockerCompose exec args d = (r, d')"
  shows "dk_files d' q = dk_files d q"
proof -
  obtain e d1 where x: "exec args d = (e, d1)" by fastforce
  from assms(1) [unfolded docker_keeps_def, rule_format, of args d] x
  have "dk_files d1 q = dk_files d q" by simp
  with assms(2) x show ?thesis by (cases e) (simp_all add: dockerCompose_def)
qed

lemma PatchYAMLFile_keeps:
  assumes "PatchYAMLFile Unm Mar path patch d = (None, d')" and "q \<noteq> path"
  shows "dk_files d' q = dk_files d q"
  using assms(1) by (rule PatchYAMLFile_ok) (use assms(2) in auto)

lemma ensure_patched_keeps:
  assumes "ensure_patched Unm Mar generate what path patch d = (None, d')" and "q \<noteq> path"
    and "\<And>d d'. generate d = (None, d') \<Longrightarrow> dk_files d' q = dk_files d q"
  shows "dk_files d' q = dk_files d q"
proof -
  obtain st d1 where s: "os_Stat path d = (st, d1)" by fastforce
  have d1: "dk_files d1 = dk_files d" by (rule os_frames(2) [OF s])
  show ?thesis
  proof (cases st)
    case (Inr mode)
    with assms(1) s have "PatchYAMLFile Unm Mar path patch d1 = (None, d')"
      by (auto simp: ensure_patched_def split: prod.splits option.splits)
    with PatchYAMLFile_keeps assms(2) d1 show ?thesis by metis
  next
    case (Inl err)
    then have ne: "is_not_exist err"
      using assms(1) s by (cases "is_not_exist err") (simp_all add: ensure_patched_def)
    obtain e d2 where g: "generate d1 = (e, d2)" by fastforce
    have e: "e = None" using assms(1) s Inl ne g by (cases e) (simp_all add: ensure_patched_def)
    have "PatchYAMLFile Unm Mar path patch d2 = (None, d')"
      using assms(1) s Inl ne g e by (auto simp: ensure_patched_def split: prod.splits option.splits)
    with PatchYAMLFile_keeps assms(2) assms(3) [OF g [unfolded e]] d1 show ?thesis by metis
  qed
qed

lemma ensureBridgeRegistration_keeps:
  assumes "docker_keeps exec q" and "ensureBridgeRegistration exec po start fuel dir url d = (r, d')"
  shows "dk_files d' q = dk_files d q"
proof -
  let ?path = "PathJoin [dir, ''data'', ''bridge'', ''registration.yaml'']"
  obtain st d1 where s: "os_Stat ?path d = (st, d1)" by fastforce
  obtain e2 d2 where u: "dockerCompose exec [''up'', ''bridge''] d1 = (e2, d2)" by fastforce
  obtain e3 d3 where k: "dockerCompose exec [''restart'', ''synapse''] d1 = (e3, d3)" by fastforce
  obtain e4 d4 where l: "dockerCompose exec [''restart'', ''synapse''] d2 = (e4, d4)" by fastforce
  have same: "dk_files d1 q = dk_files d q" "dk_files d2 q = dk_files d1 q" "dk_files d3 q = dk_files d1 q"
    "dk_files d4 q = dk_files d2 q"
    using os_frames(2) [OF s] dockerCompose_keeps [OF assms(1)] u k l by metis+
  show ?thesis
  proof (cases st)
    case (Inr mode)
    with assms(2) s k same show ?thesis
      by (cases e3) (simp_all add: ensureBridgeRegistration_def Let_def)
  next
    case (Inl err)
    with assms(2) s u l same show ?thesis
      by (cases "is_not_exist err"; cases e2; cases e4) (simp_all add: ensureBridgeRegistration_def Let_def)
  qed
qed

lemma setup_bridge_keeps:
  assumes "docker_keeps (sw_docker w) q" and "q \<noteq> PathJoin [so_DockerDir opts, ''data'', ''bridge'', ''config.yaml'']"
  shows "keeps q (setup_bridge w opts mxid)"
proof -
  have "dk_files d' q = dk_files d q"
    if "ensureBridgeConfig (sw_docker w) (sw_unmarshal w) (sw_marshal w) (so_DockerDir opts) (so_ServerName opts) mxid d
          = (None, d')" for d d'
    using that [unfolded ensureBridgeConfig_def] assms(2) dockerCompose_keeps [OF assms(1)]
    by (rule ensure_patched_keeps)
  then show ?thesis
    unfolding setup_bridge_def
    by (intro keeps_andthen keeps_error keeps_wait)
      (simp_all add: ensureBridgeRegistration_keeps [OF assms(1)] startBridge_def dockerCompose_keeps [OF assms(1)])
qed

lemma setup_chat_keeps: "keeps q (setup_chat w opts mxid token)"
  unfolding setup_chat_def Let_def
  by (intro keeps_andthen keeps_value keeps_wait) simp

lemma materializeStack_keeps:
  assumes "materializeStack rand uid gid yaml dir d = (Inr pw, d')" and "q \<noteq> PathJoin [dir, ''compose.yaml'']"
    and "q \<noteq> PathJoin [dir, ''.env'']"
  shows "dk_files d' q = dk_files d q"
proof -
  let ?env = "PathJoin [dir, ''.env'']" and ?yaml = "PathJoin [dir, ''compose.yaml'']"
  let ?vols = "[''postgres'', ''synapse'', ''bridge'']"
  note run = materializeStack_def Let_def
  obtain e1 d1 where m: "os_MkdirAll dir d = (e1, d1)" by fastforce
  have e1: "e1 = None" using assms(1) by (cases e1) (simp_all add: run m)
  obtain e2 d2 where c: "os_WriteFile ?yaml yaml 0x1A4 d1 = (e2, d2)" by fastforce
  have e2: "e2 = None" using assms(1) e1 by (cases e2) (simp_all add: run m c)
  obtain res d3 where r: "read_env ?env d2 = (res, d3)" by fastforce
  have d3: "dk_files d3 = dk_files d2"
    using r by (auto simp: read_env_def dest: os_frames(1) split: prod.splits sum.splits)
  obtain existing where x: "res = Inr existing"
    using assms(1) by (cases res) (simp_all add: run m c r e1 e2)
  obtain p updated where u: "update_env rand uid gid existing = Inr (p, updated)"
    using assms(1) by (cases "update_env rand uid gid existing") (auto simp: run m c r e1 e2 x simp del: make_volumes.simps)
  obtain e4 d4 where w: "write_env ?env existing updated d3 = (e4, d4)" by fastforce
  have e4: "e4 = None" using assms(1) by (cases e4) (simp_all add: run m c r e1 e2 x u w del: make_volumes.simps)
  obtain e5 d5 where v: "make_volumes dir ?vols d4 = (e5, d5)" by fastforce
  have "d' = d5" using assms(1)
    by (cases e5) (simp_all add: run m c r e1 e2 x u w e4 v del: make_volumes.simps)
  moreover have "dk_files d4 q = dk_files d3 q"
    using write_env_ok [OF w [unfolded e4]] assms(3) by (cases "updated = existing") auto
  ultimately show ?thesis
    using make_volumes_files [OF v] d3 os_frames(4) [OF c assms(2)] os_frames(3) [OF m] by simp
qed

definition wizard_files :: "setup_options \<Rightarrow> gostring set" where
  "wizard_files opts =
     {PathJoin [so_DockerDir opts, ''compose.yaml''], PathJoin [so_DockerDir opts, ''.env''],
      homeserver_yaml (so_DockerDir opts), PathJoin [so_DockerDir opts, ''data'', ''bridge'', ''config.yaml''],
      so_ConfigPath opts, so_ConfigPath opts @ ''.generated''}"

lemma startSynapse_keeps:
  assumes "docker_keeps exec q" and "startSynapse exec po start fuel url d = (r, d')"
  shows "dk_files d' q = dk_files d q"
proof -
  obtain e d1 where u: "dockerCompose exec [''up'', ''-d'', ''postgres'', ''synapse''] d = (e, d1)" by fastforce
  have "d' = d1" using assms(2) u
    by (cases e) (auto simp: startSynapse_def split: option.splits)
  with dockerCompose_keeps [OF assms(1) u] show ?thesis by simp
qed

lemma setup_stack_keeps:
  assumes "docker_keeps (sw_docker w) q" and "q \<notin> wizard_files opts"
  shows "keeps q (setup_stack w opts)"
proof -
  have stack: "keeps q (result_phase (materializeStack (sw_rand w) (sw_uid w) (sw_gid w) (sw_compose w) (so_DockerDir opts)))"
    using assms(2) by (auto simp: keeps_def result_phase_def wizard_files_def materializeStack_keeps split: prod.splits)
  have synapse: "dk_files d' q = dk_files d q"
    if "ensureSynapseConfig (sw_docker w) (sw_unmarshal w) (sw_marshal w) (so_DockerDir opts) (so_ServerName opts) pw d
          = (None, d')" for d d' pw
    using that [unfolded ensureSynapseConfig_def] _ dockerCompose_keeps [OF assms(1)]
    by (rule ensure_patched_keeps) (use assms(2) in \<open>simp add: wizard_files_def\<close>)
  show ?thesis
    unfolding setup_stack_def
    by (intro keeps_andthen keeps_value keeps_error keeps_wait stack synapse startSynapse_keeps [OF assms(1)])
qed

section \<open>Properties\<close>

lemma setup_Run_cases:
  assumes "setup_Run w sys opts0 d = (Finished (Inr (written, mxid, token, aliases)), d')"
  obtains d1 d2 d3 d4 where "setup_stack w (setDefaults sys opts0) d = (Finished (Inr ()), d1)"
    "ensureDaemonAccount (sw_matrix w) (sw_unmarshal w) (sw_rand w) (setDefaults sys opts0) d1
       = (Some (Inr (mxid, token)), d2)"
    "setup_bridge w (setDefaults sys opts0) mxid d2 = (Finished (Inr ()), d3)"
    "setup_chat w (setDefaults sys opts0) mxid token d3 = (Finished (Inr aliases), d4)"
    "writeConfigFile (so_ConfigPath (setDefaults sys opts0)) (so_Force (setDefaults sys opts0))
       (renderConfig homeserverURL mxid (so_TokenPath (setDefaults sys opts0)) (entries aliases)) d4 = (Inr written, d')"
  using assms unfolding setup_Run_def Let_def
  by (elim andthen_ok) (auto simp: value_phase_def result_phase_def panic_phase_def elim!: andthen_ok
      split: prod.splits option.splits)

lemma reuse_token_cases:
  assumes "reuse_token mw path d = (Some (uid, token), d')"
  shows "token \<noteq> [] \<and> (\<exists>f. dk_files d path = Some f \<and> trimNewline (f_content f) = token)
    \<and> mw_Whoami mw token = Inr uid"
  using assms
  by (auto simp: reuse_token_def readExistingToken_def Let_def dest!: os_ReadFile_ok
      split: prod.splits option.splits sum.splits if_splits)

text \<open>What a finished set-up leaves behind. Take docker commands that leave the token file
  alone and a token path that is none of the other files the wizard writes. When the wizard
  reports success, the configuration rendered from the account and the aliases it found is
  at the path it names, and the token file holds the account's token; a daemon with that
  token file is given this token, provided the file's mode is 0600, which it is if the
  wizard made the file.\<close>

lemma setup_leaves_working_files:
  assumes "setup_Run w sys opts0 d = (Finished (Inr (written, mxid, token, aliases)), d')"
    and "tok = so_TokenPath (setDefaults sys opts0)" and "tok \<noteq> []"
    and "docker_keeps (sw_docker w) tok" and "tok \<notin> wizard_files (setDefaults sys opts0)"
    and "env_word token" and "token \<noteq> []" and "Getenv sys TokenEnv = []" and "xc_TokenFile (cfg_Matrix c) = tok"
  shows "content_at d' written = Some (renderConfig homeserverURL mxid tok (entries aliases))
    \<and> (\<exists>f. dk_files d' tok = Some f \<and> trimNewline (f_content f) = token
         \<and> (f_mode f = 0x180 \<longrightarrow> MatrixToken (sees d' sys) c = Inr token)
         \<and> (dk_files d tok = None \<longrightarrow> f_mode f = 0x180))"
proof -
  let ?opts = "setDefaults sys opts0"
  from assms(1) obtain d1 d2 d3 d4 where r: "setup_stack w ?opts d = (Finished (Inr ()), d1)"
    "ensureDaemonAccount (sw_matrix w) (sw_unmarshal w) (sw_rand w) ?opts d1 = (Some (Inr (mxid, token)), d2)"
    "setup_bridge w ?opts mxid d2 = (Finished (Inr ()), d3)"
    "setup_chat w ?opts mxid token d3 = (Finished (Inr aliases), d4)"
    "writeConfigFile (so_ConfigPath ?opts) (so_Force ?opts)
       (renderConfig homeserverURL mxid (so_TokenPath ?opts) (entries aliases)) d4 = (Inr written, d')"
    by (rule setup_Run_cases)
  have tok: "tok \<noteq> PathJoin [so_DockerDir ?opts, ''data'', ''bridge'', ''config.yaml'']"
    "tok \<noteq> so_ConfigPath ?opts" "tok \<noteq> so_ConfigPath ?opts @ ''.generated''"
    using assms(5) by (simp_all add: wizard_files_def)
  note written = writeConfigFile_ok [OF r(5)]
  have before: "dk_files d1 tok = dk_files d tok"
    by (rule keepsD [OF setup_stack_keeps [OF assms(4,5)] r(1)])
  have after: "dk_files d' tok = dk_files d2 tok"
    using keepsD [OF setup_bridge_keeps [OF assms(4) tok(1)] r(3)] keepsD [OF setup_chat_keeps r(4)] written tok
    by auto
  have "\<exists>f. dk_files d2 tok = Some f \<and> trimNewline (f_content f) = token \<and> (dk_files d tok = None \<longrightarrow> f_mode f = 0x180)"
  proof (cases "fst (reuse_token (sw_matrix w) tok d1) = None")
    case False
    with daemon_account_cases [OF r(2)] assms(2) have "dk_files d2 = dk_files d1"
      "fst (reuse_token (sw_matrix w) tok d1) = Some (mxid, token)" by auto
    with reuse_token_cases [of "sw_matrix w" tok d1 mxid token] before show ?thesis
      by (metis option.distinct(1) prod.collapse)
  next
    case True
    with daemon_account_cases [OF r(2)] assms(2)
    have "dk_files d2 tok = Some \<lparr>f_content = token @ [CHR 0x0A], f_mode = 0x180\<rparr>" by auto
    then show ?thesis using trimNewline_token [OF assms(6)] by simp
  qed
  then obtain f where f: "dk_files d' tok = Some f" "trimNewline (f_content f) = token"
    "dk_files d tok = None \<longrightarrow> f_mode f = 0x180" using after by auto
  have "MatrixToken (sees d' sys) c = Inr token" if "f_mode f = 0x180"
    using TrimSpace_token [of "f_content f"] f(1,2) that assms(3,6-9)
    by (simp add: MatrixToken_def sees_def)
  with f written assms(2) show ?thesis by auto
qed

text \<open>A run on a machine where every service is in place already and the account is not: docker
  does nothing, the account is registered, the user types an empty line.\<close>

definition quiet_root :: ynode where
  "quiet_root = YNode MappingNode ''!!map'' [] ([], [], []) [Str ''registration_shared_secret'', Str ''s'']"

definition quiet_doc :: ynode where
  "quiet_doc = YNode DocumentNode [] [] ([], [], []) [quiet_root]"

definition quiet_world :: setup_world where
  "quiet_world =
     \<lparr>sw_look_path = None, sw_compose_version = None, sw_rand = (\<lambda>n. Inr (replicate n (CHR ''a''))), sw_uid = 1, sw_gid = 1, sw_compose = ''c'',
      sw_docker = (\<lambda>_ d. (None, d)), sw_unmarshal = (\<lambda>_. Inr quiet_doc), sw_marshal = (\<lambda>_. Inr ''y''),
      sw_polls = (\<lambda>_. \<lparr>po_answered = (\<lambda>_. True), po_now = int, po_ctx = (\<lambda>_. None)\<rparr>), sw_clock = (\<lambda>_. 0),
      sw_fuel = 62, sw_matrix = plain_matrix_world, sw_rooms = (\<lambda>i. if i = 0 then Inr [] else Inr [''!a'']),
      sw_members = (\<lambda>_. Inr [(''@qd:h'', ''me''), (''@ig_1:h'', ''m.chen'')]),
      sw_create = Inr ''!r:h'', sw_sent = (\<lambda>_. None), sw_baseline = Inr bot_asks, sw_answers = [Inr bot_asks],
      sw_typed = [[]]\<rparr>"

definition forced_setup :: setup_options where
  "forced_setup = plain_setup\<lparr>so_Force := True\<rparr>"

definition no_os :: os where
  "no_os = \<lparr>Getenv = (\<lambda>_. []), Getuid = 0, StatPerm = (\<lambda>p. Inl Canceled), IsDirectory = (\<lambda>_. False),
     ReadFile = (\<lambda>p. Inl Canceled), UserHomeDir = Inr ''/h'', TempDir = ''/tmp''\<rparr>"

definition stack_paths :: "gostring list" where
  "stack_paths = [''/s/data/synapse/homeserver.yaml'', ''/s/data/bridge/config.yaml'', ''/s/data/bridge/registration.yaml'']"

definition stocked :: "disk \<Rightarrow> bool" where
  "stocked d \<longleftrightarrow> faultless d \<and> list_all (\<lambda>p. dk_files d p \<noteq> None) stack_paths"

definition quiet_disk :: disk where
  "quiet_disk = empty_disk\<lparr>dk_files := map_of (map (\<lambda>p. (p, \<lparr>f_content = ''x'', f_mode = 0x1A4\<rparr>)) stack_paths)\<rparr>"

lemma quiet_paths:
  "PathJoin [''/s'', ''compose.yaml''] = ''/s/compose.yaml''" "PathJoin [''/s'', ''.env''] = ''/s/.env''"
  "homeserver_yaml ''/s'' = ''/s/data/synapse/homeserver.yaml''"
  "PathJoin [''/s'', ''data'', ''bridge'', ''config.yaml''] = ''/s/data/bridge/config.yaml''"
  "PathJoin [''/s'', ''data'', ''bridge'', ''registration.yaml''] = ''/s/data/bridge/registration.yaml''"
  by (simp_all add: PathJoin_def Clean_def homeserver_yaml_def Let_def HasPrefix_def)

lemma quiet_options: "setDefaults sys forced_setup = forced_setup"
  by (simp add: setDefaults_def forced_setup_def plain_setup_def set_or_def)

lemma ensure_patched_runs:
  assumes "stocked d" and "path \<in> set stack_paths" and "patch quiet_root = Inr root"
  shows "\<exists>d'. ensure_patched (\<lambda>_. Inr quiet_doc) (\<lambda>_. Inr out) generate what path patch d = (None, d') \<and> stocked d'"
proof -
  from assms obtain f where f: "dk_files d path = Some f" "faultless d" by (auto simp: stocked_def list_all_iff)
  have k: "y_kind quiet_root = MappingNode" "y_content quiet_doc = [quiet_root]"
    by (simp_all add: quiet_root_def quiet_doc_def)
  let ?d = "put_file path out (f_mode f) (tick (tick (tick (tick d))))"
  have "ensure_patched (\<lambda>_. Inr quiet_doc) (\<lambda>_. Inr out) generate what path patch d = (None, ?d)"
    by (simp add: ensure_patched_def PatchYAMLFile_def faultless_ops f k assms(3))
  moreover have "dk_files ?d q \<noteq> None" if "q \<in> set stack_paths" for q
    using assms(1) that by (cases "q = path") (auto simp: stocked_def list_all_iff)
  then have "stocked ?d" using f(2) by (simp add: stocked_def list_all_iff)
  ultimately show ?thesis by blast
qed

lemma quiet_patches:
  "\<exists>root. synapse_patch pw quiet_root = Inr root" "\<exists>root. bridge_patch ''h'' mxid quiet_root = Inr root"
  by (simp_all add: synapse_patch_eq synapse_settings_def bridge_patch_def SetPath_def mapValue_def setMapKey_def
      quiet_root_def fresh_def with_content_def Str_def)

lemma quiet_docker: "dockerCompose (sw_docker quiet_world) args d = (None, d)"
  by (simp add: dockerCompose_def quiet_world_def)

lemma quiet_wait: "waitHTTPReady (sw_polls quiet_world i) start url timeout (sw_fuel quiet_world) = Some None"
  by (simp add: waitHTTPReady_def quiet_world_def numeral_eq_Suc)

lemma quiet_fields:
  "sw_unmarshal quiet_world = (\<lambda>_. Inr quiet_doc)" "sw_marshal quiet_world = (\<lambda>_. Inr ''y'')"
  "preflight quiet_world = None" "sw_matrix quiet_world = plain_matrix_world" "sw_rand quiet_world 16 = Inr (replicate 16 (CHR ''a''))"
  by (simp_all add: quiet_world_def preflight_def)

lemma quiet_opts:
  "so_DockerDir forced_setup = ''/s''" "so_ServerName forced_setup = ''h''" "so_TokenPath forced_setup = ''/t''"
  "so_ConfigPath forced_setup = ''/c''" "so_Force forced_setup"
  by (simp_all add: forced_setup_def plain_setup_def)

lemma quiet_stack:
  assumes "stocked d"
  shows "\<exists>d'. setup_stack quiet_world forced_setup d = (Finished (Inr ()), d') \<and> stocked d'"
proof -
  from assms have f: "faultless d" by (simp add: stocked_def)
  let ?m = "materializeStack (sw_rand quiet_world) (sw_uid quiet_world) (sw_gid quiet_world) (sw_compose quiet_world) ''/s''"
  obtain pw d1 where m: "?m d = (Inr pw, d1)" "faultless d1"
    using materializeStack_runs [of d "sw_rand quiet_world", OF f quiet_fields(5)] by blast
  have "dk_files d1 q = dk_files d q" if "q \<in> set stack_paths" for q
  proof -
    from that have "q \<noteq> ''/s/compose.yaml''" "q \<noteq> ''/s/.env''" unfolding stack_paths_def by force+
    then show ?thesis by (intro materializeStack_keeps [OF m(1)]) (simp_all only: quiet_paths not_False_eq_True)
  qed
  with assms m(2) have "stocked d1" by (simp add: stocked_def list_all_iff)
  moreover obtain root where "synapse_patch pw quiet_root = Inr root" using quiet_patches(1) by blast
  ultimately have "\<exists>d2. ensureSynapseConfig (sw_docker quiet_world) (\<lambda>_. Inr quiet_doc) (\<lambda>_. Inr ''y'')
      ''/s'' ''h'' pw d1 = (None, d2) \<and> stocked d2"
    unfolding ensureSynapseConfig_def quiet_paths
    by (intro ensure_patched_runs) (simp_all add: stack_paths_def)
  then obtain d2 where p: "ensureSynapseConfig (sw_docker quiet_world) (\<lambda>_. Inr quiet_doc) (\<lambda>_. Inr ''y'')
      ''/s'' ''h'' pw d1 = (None, d2)" "stocked d2" by blast
  have "startSynapse (sw_docker quiet_world) (sw_polls quiet_world 0) (sw_clock quiet_world 0) (sw_fuel quiet_world)
      homeserverURL d2 = (Some None, d2)"
    by (simp add: startSynapse_def quiet_docker quiet_wait)
  with m p show ?thesis
    by (simp add: setup_stack_def andthen_def value_phase_def result_phase_def error_phase_def wait_phase_def
        quiet_fields quiet_opts)
qed

lemma quiet_account:
  assumes "stocked d" and "dk_files d ''/t'' = None"
  shows "\<exists>d'. ensureDaemonAccount plain_matrix_world (\<lambda>_. Inr quiet_doc) (sw_rand quiet_world) forced_setup d
    = (Some (Inr (''@qd:h'', ''fresh'')), d') \<and> stocked d'"
proof -
  from assms(1) have f: "faultless d" "dk_files d ''/s/data/synapse/homeserver.yaml'' \<noteq> None"
    by (simp_all add: stocked_def stack_paths_def)
  have r: "reuse_token plain_matrix_world ''/t'' d = (None, tick d)"
    by (simp add: reuse_token_def readExistingToken_def faultless_ops f(1) assms(2))
  have s: "registrationSharedSecret (\<lambda>_. Inr quiet_doc) ''/s'' (tick d) = (Some (Inr ''s''), tick (tick d))"
    using f by (auto simp: registrationSharedSecret_def quiet_paths faultless_ops quiet_doc_def quiet_root_def
        GetString_def mapValue_def Str_def fresh_def)
  obtain user pw mxid where reg: "registerAdmin plain_matrix_world (sw_rand quiet_world) ''h'' ''s'' = Inr (user, pw, mxid)"
    by (simp add: registerAdmin_def plain_matrix_world_def randomUsername_def randomPassword_def randomHex_def quiet_world_def)
  let ?d = "(tick (put_file ''/t'' (''fresh'' @ [CHR 0x0A]) 0x180 (tick (tick (tick (tick d))))))"
  obtain d' where w: "writeTokenFile ''/t'' ''fresh'' (tick (tick d)) = (None, d')" "faultless d'"
    using f(1) by (simp add: writeTokenFile_def faultless_ops os_Chmod_def faultless_def)
  have "stocked d'"
    using assms(1) w(2) writeTokenFile_frame [OF w(1)] by (simp add: stocked_def stack_paths_def)
  moreover have "login_account plain_matrix_world ''/t'' pw mxid (tick (tick d)) = (Inr (''@qd:h'', ''fresh''), d')"
    by (simp add: login_account_def w(1)) (simp add: plain_matrix_world_def w(1))
  ultimately show ?thesis
    by (simp add: ensureDaemonAccount_def quiet_opts r s reg)
qed

lemma quiet_bridge:
  assumes "stocked d"
  shows "\<exists>d'. setup_bridge quiet_world forced_setup mxid d = (Finished (Inr ()), d') \<and> stocked d'"
proof -
  obtain root where "bridge_patch ''h'' mxid quiet_root = Inr root" using quiet_patches(2) by blast
  with assms have "\<exists>d1. ensureBridgeConfig (sw_docker quiet_world) (\<lambda>_. Inr quiet_doc) (\<lambda>_. Inr ''y'')
      ''/s'' ''h'' mxid d = (None, d1) \<and> stocked d1"
    unfolding ensureBridgeConfig_def quiet_paths
    by (intro ensure_patched_runs) (simp_all add: stack_paths_def)
  then obtain d1 where p: "ensureBridgeConfig (sw_docker quiet_world) (\<lambda>_. Inr quiet_doc) (\<lambda>_. Inr ''y'')
      ''/s'' ''h'' mxid d = (None, d1)" "stocked d1" by blast
  from p(2) have f: "faultless d1" "dk_files d1 ''/s/data/bridge/registration.yaml'' \<noteq> None"
    by (simp_all add: stocked_def stack_paths_def)
  have "ensureBridgeRegistration (sw_docker quiet_world) (sw_polls quiet_world 1) (sw_clock quiet_world 1)
      (sw_fuel quiet_world) ''/s'' homeserverURL d1 = (Some None, tick d1)"
    using f by (auto simp: ensureBridgeRegistration_def Let_def quiet_paths faultless_ops quiet_docker quiet_wait)
  moreover have "stocked (tick d1)" using p(2) by (simp add: stocked_def)
  ultimately show ?thesis using p(1)
    by (simp add: setup_bridge_def andthen_def error_phase_def wait_phase_def startBridge_def quiet_docker
        quiet_fields quiet_opts)
qed

lemma quiet_chat:
  "setup_chat quiet_world forced_setup ''@qd:h'' token d = (Finished (Inr [''@ig_1:h'' \<mapsto> ''m.chen'']), d)"
proof -
  have "fst (runBridgeLogin (sw_sent quiet_world) botID (sw_baseline quiet_world) (sw_answers quiet_world)
      (sw_typed quiet_world)) = Some None" for botID
    by (simp add: runBridgeLogin_def quiet_world_def bot_asks_def Let_def TrimSpace_def)
  moreover have "fst (findOrCreateBridgeDM (sw_rooms quiet_world 0) (sw_members quiet_world)
      (sw_create quiet_world) botID) = Inr ''!r:h''" for botID
    by (simp add: findOrCreateBridgeDM_def quiet_world_def)
  moreover have "mw_NewClient (sw_matrix quiet_world) token = None"
    by (simp add: quiet_world_def plain_matrix_world_def)
  moreover have "aliasSkeleton (sw_rooms quiet_world 1) (sw_members quiet_world) ''@qd:h''
      (mw_NewUserID (sw_matrix quiet_world) bridgeBotLocalpart (so_ServerName forced_setup)) = [''@ig_1:h'' \<mapsto> ''m.chen'']"
    by (simp add: aliasSkeleton_def quiet_world_def plain_matrix_world_def bridgeBotLocalpart_def quiet_opts)
  ultimately show ?thesis
    by (simp add: setup_chat_def Let_def andthen_def value_phase_def wait_phase_def)
qed

lemma quiet_run:
  "\<exists>d'. setup_Run quiet_world no_os forced_setup quiet_disk =
     (Finished (Inr (''/c'', ''@qd:h'', ''fresh'', [''@ig_1:h'' \<mapsto> ''m.chen''])), d')"
proof -
  have start: "stocked quiet_disk" "dk_files quiet_disk ''/t'' = None"
    using empty_disk_faultless by (simp_all add: stocked_def quiet_disk_def stack_paths_def faultless_def)
  obtain d1 where 1: "setup_stack quiet_world forced_setup quiet_disk = (Finished (Inr ()), d1)" "stocked d1"
    using quiet_stack [OF start(1)] by blast
  have "docker_keeps (sw_docker quiet_world) ''/t''" by (simp add: docker_keeps_def quiet_world_def)
  moreover have "''/t'' \<notin> wizard_files forced_setup"
    by (simp add: wizard_files_def quiet_opts quiet_paths)
  ultimately have "dk_files d1 ''/t'' = None"
    using keepsD [OF setup_stack_keeps 1(1)] start(2) by simp
  with quiet_account [OF 1(2)] obtain d2 where 2: "ensureDaemonAccount plain_matrix_world (\<lambda>_. Inr quiet_doc)
      (sw_rand quiet_world) forced_setup d1 = (Some (Inr (''@qd:h'', ''fresh'')), d2)" "stocked d2" by blast
  obtain d3 where 3: "setup_bridge quiet_world forced_setup ''@qd:h'' d2 = (Finished (Inr ()), d3)" "stocked d3"
    using quiet_bridge [OF 2(2)] by blast
  note 4 = quiet_chat [of "''fresh''" d3]
  have "faultless d3" using 3(2) by (simp add: stocked_def)
  then have "\<exists>d4. writeConfigFile ''/c'' True content d3 = (Inr ''/c'', d4)" for content
    by (simp add: writeConfigFile_def write_new_config_def faultless_ops)
  then obtain d4 where 5: "writeConfigFile ''/c'' True
      (renderConfig homeserverURL ''@qd:h'' ''/t'' (entries [''@ig_1:h'' \<mapsto> ''m.chen''])) d3 = (Inr ''/c'', d4)" by blast
  show ?thesis
    by (simp add: setup_Run_def quiet_options Let_def quiet_fields quiet_opts andthen_def 1 2 3 4 5
        result_phase_def value_phase_def panic_phase_def)
qed

end
