(* ===== verification/Toml.thy ===== *)
theory Toml
  imports SetupFiles Boot "HOL-Library.Multiset"
begin

text \<open>
  The wizard's configuration file as the daemon's loader reads it. TOML is decoded by a
  package that is not under src/, so the loader takes the decoder as an argument; here is
  what is relied on: a reader for documents of comments, table headers, strings and
  booleans, as the TOML specification has them, and the assumption that the decoder agrees
  with it on the documents the reader accepts.
\<close>

section \<open>Documents\<close>

datatype toml_value =
    VString gostring
  | VBool bool

datatype toml_line =
    Blank
  | Header gostring
  | Entry gostring toml_value

text \<open>The characters of a bare key: letters, digits, underscore and dash.\<close>

definition bare :: "char \<Rightarrow> bool" where
  "bare c \<longleftrightarrow> (0x61 \<le> bv c \<and> bv c \<le> 0x7A) \<or> (0x41 \<le> bv c \<and> bv c \<le> 0x5A) \<or> (0x30 \<le> bv c \<and> bv c \<le> 0x39)
     \<or> c = CHR ''_'' \<or> c = CHR ''-''"

definition blank :: "char \<Rightarrow> bool" where
  "blank c \<longleftrightarrow> c = CHR '' '' \<or> bv c = 9"

text \<open>A key, bare or quoted, and what follows it.\<close>

fun read_key :: "gostring \<Rightarrow> (gostring \<times> gostring) option" where
  "read_key [] = None"
| "read_key (c # s) =
     (if c = DQ then toml_basic s
      else if bare c then Some (takeWhile bare (c # s), dropWhile bare (c # s))
      else None)"

definition read_value :: "gostring \<Rightarrow> toml_value option" where
  "read_value s =
     (if s = ''true'' then Some (VBool True)
      else if s = ''false'' then Some (VBool False)
      else case s of
        [] \<Rightarrow> None
      | c # t \<Rightarrow>
          if c = DQ then (case toml_basic t of Some (v, []) \<Rightarrow> Some (VString v) | _ \<Rightarrow> None)
          else None)"

fun read_line :: "gostring \<Rightarrow> toml_line option" where
  "read_line [] = Some Blank"
| "read_line (c # s) =
     (if c = CHR ''#'' then (if list_all toml_char s then Some Blank else None)
      else if c = CHR ''[''
      then (if takeWhile bare s \<noteq> [] \<and> dropWhile bare s = '']'' then Some (Header (takeWhile bare s)) else None)
      else case read_key (c # s) of
        None \<Rightarrow> None
      | Some (k, r) \<Rightarrow>
          (case dropWhile blank r of
             [] \<Rightarrow> None
           | e # v \<Rightarrow>
               if e = CHR ''='' then map_option (Entry k) (read_value (dropWhile blank v)) else None))"

fun read_all :: "gostring list \<Rightarrow> toml_line list option" where
  "read_all [] = Some []"
| "read_all (l # ls) =
     (case read_line l of
        None \<Rightarrow> None
      | Some x \<Rightarrow> (case read_all ls of None \<Rightarrow> None | Some xs \<Rightarrow> Some (x # xs)))"

text \<open>The entries with the table each stands in. (None stands before the first header.)\<close>

type_synonym toml_entries = "((gostring \<times> gostring) \<times> toml_value) list"

fun entries_of :: "gostring option \<Rightarrow> toml_line list \<Rightarrow> toml_entries option" where
  "entries_of table [] = Some []"
| "entries_of table (Blank # ls) = entries_of table ls"
| "entries_of table (Header t # ls) = entries_of (Some t) ls"
| "entries_of table (Entry k v # ls) =
     (case table of
        None \<Rightarrow> None
      | Some t \<Rightarrow> (case entries_of table ls of None \<Rightarrow> None | Some es \<Rightarrow> Some (((t, k), v) # es)))"

fun headers :: "toml_line list \<Rightarrow> gostring list" where
  "headers [] = []"
| "headers (Header t # ls) = t # headers ls"
| "headers (_ # ls) = headers ls"

text \<open>A document is valid UTF-8 and defines no table and no key twice.\<close>

definition toml_read :: "gostring \<Rightarrow> toml_entries option" where
  "toml_read content =
     (if \<not> valid_utf8 content then None
      else case read_all (Split content (CHR 0x0A)) of
        None \<Rightarrow> None
      | Some ls \<Rightarrow>
          (case entries_of None ls of
             None \<Rightarrow> None
           | Some es \<Rightarrow> if distinct (headers ls) \<and> distinct (map fst es) then Some es else None))"

section \<open>The decoder\<close>

text \<open>The keys of the configuration with their types, and the value a document stands for.\<close>

definition string_keys :: "(gostring \<times> gostring) list" where
  "string_keys =
     [(''daemon'', ''socket''), (''daemon'', ''store''), (''daemon'', ''state_db''), (''transport'', ''kind''),
      (''matrix'', ''homeserver''), (''matrix'', ''user_id''), (''matrix'', ''device_id''),
      (''matrix'', ''token_file''), (''matrix'', ''session_db''), (''matrix'', ''pickle_key_file'')]"

definition bool_keys :: "(gostring \<times> gostring) list" where
  "bool_keys = [(''matrix'', ''encrypt''), (''sanitize'', ''strip_emoji''), (''mock'', ''loop'')]"

definition typed_entry :: "(gostring \<times> gostring) \<times> toml_value \<Rightarrow> bool" where
  "typed_entry e =
     (case e of ((t, k), v) \<Rightarrow>
        (case v of VString s \<Rightarrow> t = ''aliases'' \<or> (t, k) \<in> set string_keys | VBool b \<Rightarrow> (t, k) \<in> set bool_keys))"

definition string_at :: "toml_entries \<Rightarrow> gostring \<Rightarrow> gostring \<Rightarrow> gostring" where
  "string_at es t k = (case map_of es (t, k) of Some (VString s) \<Rightarrow> s | _ \<Rightarrow> [])"

definition bool_at :: "toml_entries \<Rightarrow> gostring \<Rightarrow> gostring \<Rightarrow> bool" where
  "bool_at es t k \<longleftrightarrow> map_of es (t, k) = Some (VBool True)"

fun alias_entries :: "toml_entries \<Rightarrow> (gostring \<times> gostring) list" where
  "alias_entries [] = []"
| "alias_entries (((t, k), VString s) # es) = (if t = ''aliases'' then (k, s) # alias_entries es else alias_entries es)"
| "alias_entries (_ # es) = alias_entries es"

definition decoded :: "toml_entries \<Rightarrow> config" where
  "decoded es =
     \<lparr>cfg_Daemon = \<lparr>dc_Socket = string_at es ''daemon'' ''socket'', dc_HistoryCapacity = 0,
        dc_Store = string_at es ''daemon'' ''store'', dc_StateDB = string_at es ''daemon'' ''state_db''\<rparr>,
      cfg_Kind = string_at es ''transport'' ''kind'',
      cfg_Matrix = \<lparr>xc_Homeserver = string_at es ''matrix'' ''homeserver'', xc_UserID = string_at es ''matrix'' ''user_id'',
        xc_DeviceID = string_at es ''matrix'' ''device_id'', xc_TokenFile = string_at es ''matrix'' ''token_file'',
        xc_Encrypt = bool_at es ''matrix'' ''encrypt'', xc_SessionDB = string_at es ''matrix'' ''session_db'',
        xc_PickleKeyFile = string_at es ''matrix'' ''pickle_key_file''\<rparr>,
      cfg_Aliases = alias_entries es,
      cfg_Sanitize = \<lparr>sc_StripEmoji = bool_at es ''sanitize'' ''strip_emoji'', sc_MaxBody = 0\<rparr>,
      cfg_Mock = \<lparr>kc_Loop = bool_at es ''mock'' ''loop'', kc_Rooms = [], kc_Msgs = []\<rparr>\<rparr>"

definition defined_in :: "toml_entries \<Rightarrow> gostring list \<Rightarrow> bool" where
  "defined_in es path \<longleftrightarrow> (\<exists>e\<in>set es. path = [fst (fst e), snd (fst e)])"

text \<open>What is asked of the decoder: on a document of this language it gives the value the document
  stands for, and its \<open>IsDefined\<close>, for a key of a table (the only paths \<open>config.go\<close> asks for), says
  whether the document has it. What it says of other paths, tables among them, is left open.\<close>

definition decodes_toml :: "toml_decoder \<Rightarrow> bool" where
  "decodes_toml D \<longleftrightarrow>
     (\<forall>content es. toml_read content = Some es \<and> list_all typed_entry es \<longrightarrow>
        (\<exists>defined. D content = Inr (decoded es, defined) \<and> (\<forall>t k. defined [t, k] = defined_in es [t, k])))"

section \<open>Reading lines\<close>

lemma read_all_append:
  "read_all xs = Some as \<Longrightarrow> read_all ys = Some bs \<Longrightarrow> read_all (xs @ ys) = Some (as @ bs)"
  by (induction xs arbitrary: as) (auto split: option.splits)

lemma read_comment: "list_all toml_char s \<Longrightarrow> read_line (CHR ''#'' # s) = Some Blank"
  by simp

lemma takeWhile_bare:
  assumes "list_all bare k" and "r = [] \<or> \<not> bare (hd r)"
  shows "takeWhile bare (k @ r) = k \<and> dropWhile bare (k @ r) = r"
  using assms by (induction k) (auto simp: takeWhile_eq_Nil_iff dropWhile_eq_self_iff)

lemma read_header: "list_all bare t \<Longrightarrow> t \<noteq> [] \<Longrightarrow> read_line (CHR ''['' # t @ '']'') = Some (Header t)"
  using takeWhile_bare [of t "'']''"] by (simp add: bare_def)

lemma dropWhile_blanks: "list_all blank sp \<Longrightarrow> s = [] \<or> \<not> blank (hd s) \<Longrightarrow> dropWhile blank (sp @ s) = s"
  by (induction sp) (auto simp: dropWhile_eq_self_iff)

lemma read_string: "read_value (quoted (tomlEscape s)) = (if list_all toml_char s then Some (VString s) else None)"
proof -
  have "quoted (tomlEscape s) \<noteq> ''true''" "quoted (tomlEscape s) \<noteq> ''false''" by (simp_all add: quoted_def)
  then show ?thesis using toml_basic_escape [of s "[]"] by (simp add: read_value_def quoted_def)
qed

lemma read_entry:
  assumes "list_all bare k" and "k \<noteq> []" and "list_all blank sp" and "val \<noteq> []" and "\<not> blank (hd val)"
  shows "read_line (k @ sp @ ''= '' @ val) = map_option (Entry k) (read_value val)"
proof -
  obtain c cs where k: "k = c # cs" using assms(2) by (cases k) auto
  have c: "c \<noteq> CHR ''#''" "c \<noteq> CHR ''[''" "c \<noteq> DQ" "bare c" using assms(1) by (auto simp: k bare_def)
  have "sp @ ''= '' @ val = [] \<or> \<not> bare (hd (sp @ ''= '' @ val))"
    using assms(3) by (cases sp) (auto simp: bare_def blank_def)
  note key = takeWhile_bare [OF assms(1) this, unfolded k append_Cons]
  have "dropWhile blank (sp @ ''= '' @ val) = ''= '' @ val"
    using assms(3) by (intro dropWhile_blanks) (simp_all add: blank_def)
  moreover have "dropWhile blank ('' '' @ val) = val"
    using assms(4,5) by (intro dropWhile_blanks) (simp_all add: blank_def)
  ultimately show ?thesis using key c by (simp add: k)
qed

lemma read_alias:
  assumes "list_all toml_char k"
  shows "read_line (quoted (tomlEscape k) @ '' = '' @ quoted (tomlEscape v)) =
    (if list_all toml_char v then Some (Entry k (VString v)) else None)"
proof -
  have "toml_basic (tomlEscape k @ DQ # '' = '' @ quoted (tomlEscape v)) = Some (k, '' = '' @ quoted (tomlEscape v))"
    using assms by (simp add: toml_basic_escape)
  moreover have "dropWhile blank ('' = '' @ quoted (tomlEscape v)) = ''= '' @ quoted (tomlEscape v)"
    "dropWhile blank ('' '' @ quoted (tomlEscape v)) = quoted (tomlEscape v)"
    by (simp_all add: blank_def quoted_def)
  ultimately show ?thesis by (simp add: quoted_def read_string [unfolded quoted_def])
qed

section \<open>The rendered file\<close>

lemma valid_utf8_append: "valid_utf8 a \<Longrightarrow> valid_utf8 b \<Longrightarrow> valid_utf8 (a @ b)"
  using runes_encode_append [OF runes_valid, of a b] by (simp add: valid_utf8_def)

lemma valid_utf8_ascii: "list_all (\<lambda>c. bv c < 0x80) s \<Longrightarrow> valid_utf8 s"
proof (induction s)
  case (Cons c s)
  then have "runes (c # s) = bv c # runes s" by (simp add: decode_rune_def)
  with Cons show ?case by (simp add: valid_utf8_def encode_rune_ascii)
qed (simp add: valid_utf8_def)

lemma valid_utf8_Cons: "bv c < 0x80 \<Longrightarrow> valid_utf8 s \<Longrightarrow> valid_utf8 (c # s)"
  using valid_utf8_append [of "[c]" s] valid_utf8_ascii [of "[c]"] by simp

lemma tomlEscape_append: "tomlEscape (a @ b) = tomlEscape a @ tomlEscape b"
  by (simp add: tomlEscape_def ReplaceAll_def)

lemma tomlEscape_plain: "BS \<notin> set s \<Longrightarrow> DQ \<notin> set s \<Longrightarrow> tomlEscape s = s"
  by (induction s) auto

lemma encode_rune_high: "0x80 \<le> r \<Longrightarrow> c \<in> set (encode_rune r) \<Longrightarrow> 0x80 \<le> bv c"
proof -
  assume r: "0x80 \<le> r" and c: "c \<in> set (encode_rune r)"
  obtain d ds where e: "encode_rune r = d # ds" using encode_rune_Cons by blast
  show ?thesis
  proof (cases "c = d")
    case False
    with c e have "c \<in> set (tl (encode_rune r))" by auto
    from encode_rune_tail_cont [OF this] show ?thesis by (simp add: cont_byte_def)
  next
    case True
    have "(240 + r div 262144) mod 256 = 240 + r div 262144" if "valid_rune r"
    proof -
      have "r div 262144 \<le> 0x10FFFF div 262144" using that by (intro div_le_mono) (simp add: valid_rune_def)
      then show ?thesis by simp
    qed
    with True e r show ?thesis
      by (auto simp: encode_rune_def split: if_splits)
  qed
qed

lemma valid_utf8_tomlEscape:
  assumes "valid_utf8 s"
  shows "valid_utf8 (tomlEscape s)"
proof -
  have "valid_utf8 (tomlEscape (encode_runes rs))" if "list_all valid_rune rs" for rs
    using that
  proof (induction rs)
    case (Cons r rs)
    then have rest: "valid_utf8 (tomlEscape (encode_runes rs))" by simp
    have "valid_utf8 (tomlEscape (encode_rune r))"
    proof (cases "r < 0x80")
      case True
      then show ?thesis by (intro valid_utf8_ascii) (simp add: encode_rune_ascii)
    next
      case False
      then have "0x80 \<le> bv c" if "c \<in> set (encode_rune r)" for c using that encode_rune_high [of r c] by simp
      then have "tomlEscape (encode_rune r) = encode_rune r" by (intro tomlEscape_plain) force+
      with Cons.prems valid_utf8_encode [of "[r]"] show ?thesis by simp
    qed
    with rest show ?case by (simp add: tomlEscape_append valid_utf8_append)
  qed (simp add: valid_utf8_def)
  from this [OF runes_valid, of s] assms show ?thesis by (simp add: valid_utf8_def)
qed

text \<open>A text the file can carry, and a line of a document.\<close>

definition printable :: "gostring \<Rightarrow> bool" where
  "printable s \<longleftrightarrow> valid_utf8 s \<and> list_all toml_char s"

lemma printable_append: "printable a \<Longrightarrow> printable b \<Longrightarrow> printable (a @ b)"
  by (simp add: printable_def valid_utf8_append)

lemma printable_ascii: "list_all (\<lambda>c. 0x20 \<le> bv c \<and> bv c < 0x7F) s \<Longrightarrow> printable s"
proof -
  assume a: "list_all (\<lambda>c. 0x20 \<le> bv c \<and> bv c < 0x7F) s"
  then have "list_all (\<lambda>c. bv c < 0x80) s" by (rule list.pred_mono_strong) simp
  moreover from a have "list_all toml_char s" by (rule list.pred_mono_strong) (simp add: toml_char_def)
  ultimately show ?thesis by (simp add: printable_def valid_utf8_ascii)
qed

lemma printable_quoted: "printable s \<Longrightarrow> printable (quoted (tomlEscape s))"
proof -
  assume p: "printable s"
  have "list_all toml_char (tomlEscape s)" if "list_all toml_char s" for s
    using that by (induction s) auto
  with p have "printable (tomlEscape s)" by (simp add: printable_def valid_utf8_tomlEscape)
  moreover have "printable [DQ]" by (rule printable_ascii) simp
  ultimately show ?thesis using printable_append [of "[DQ]"] printable_append [of _ "[DQ]"]
    by (simp add: quoted_def)
qed

lemma printable_lines:
  assumes "list_all printable ls" and "ls \<noteq> []"
  shows "valid_utf8 (StrJoin ls [CHR 0x0A]) \<and> Split (StrJoin ls [CHR 0x0A]) (CHR 0x0A) = ls"
proof
  show "valid_utf8 (StrJoin ls [CHR 0x0A])"
    using assms
  proof (induction ls)
    case (Cons l ls)
    have "valid_utf8 l" using Cons.prems by (simp add: printable_def)
    moreover have "ls \<noteq> [] \<Longrightarrow> valid_utf8 (CHR 0x0A # StrJoin ls [CHR 0x0A])"
      using Cons by (intro valid_utf8_Cons) simp_all
    ultimately show ?case by (cases "ls = []") (simp_all add: StrJoin_Cons valid_utf8_append)
  qed simp
  have "CHR 0x0A \<notin> set l" if "l \<in> set ls" for l
  proof
    assume "CHR 0x0A \<in> set l"
    with assms(1) that have "toml_char (CHR 0x0A)" by (auto simp: list_all_iff printable_def)
    then show False by (simp add: toml_char_def)
  qed
  with assms(2) show "Split (StrJoin ls [CHR 0x0A]) (CHR 0x0A) = ls" by (rule Split_StrJoin)
qed

lemma sort_key_map: "sort_key f (map g xs) = map g (sort_key (f \<circ> g) xs)"
proof -
  have "insort_key f (g x) (map g ys) = map g (insort_key (f \<circ> g) x ys)" for x ys
    by (induction ys) auto
  then show ?thesis by (induction xs) simp_all
qed

text \<open>The document of the rendered file: its lines up to the aliases, the aliases, the rest.\<close>

definition head_lines :: "gostring \<Rightarrow> gostring \<Rightarrow> gostring \<Rightarrow> toml_line list" where
  "head_lines h u t =
     [Blank, Blank, Blank, Blank, Header ''transport'', Entry ''kind'' (VString ''matrix''), Blank,
      Header ''matrix'', Entry ''homeserver'' (VString h), Entry ''user_id'' (VString u), Blank,
      Blank, Blank, Blank, Entry ''token_file'' (VString t), Blank, Blank, Blank, Blank, Blank, Blank, Blank,
      Entry ''encrypt'' (VBool True), Blank, Header ''aliases'', Blank, Blank, Blank]"

definition sorted_aliases :: "(gostring \<times> gostring) list \<Rightarrow> (gostring \<times> gostring) list" where
  "sorted_aliases al = sort_key (fst \<circ> (\<lambda>(k, v). (tomlEscape k, tomlEscape v))) al"

definition alias_line :: "gostring \<times> gostring \<Rightarrow> toml_line" where
  "alias_line a = Entry (fst a) (VString (snd a))"

definition tail_lines :: "toml_line list" where
  "tail_lines = [Header ''sanitize'', Entry ''strip_emoji'' (VBool True), Blank]"

lemma read_all_Cons: "read_line l = Some x \<Longrightarrow> read_all ls = Some xs \<Longrightarrow> read_all (l # ls) = Some (x # xs)"
  by simp

lemma read_string_entry:
  assumes "line = k @ sp @ ''= '' @ quoted (tomlEscape s)" and "list_all bare k" and "k \<noteq> []"
    and "list_all blank sp" and "list_all toml_char s"
  shows "read_line line = Some (Entry k (VString s))"
proof -
  have "quoted (tomlEscape s) \<noteq> []" "\<not> blank (hd (quoted (tomlEscape s)))" by (simp_all add: quoted_def blank_def)
  from read_entry [OF assms(2,3,4) this] assms(5) show ?thesis by (simp only: assms(1) read_string) simp
qed

lemma read_alias_lines:
  "list_all (\<lambda>(k, v). list_all toml_char k \<and> list_all toml_char v) al \<Longrightarrow>
     read_all (map (\<lambda>(k, v). quoted (tomlEscape k) @ '' = '' @ quoted (tomlEscape v)) al) = Some (map alias_line al)"
proof (induction al)
  case (Cons a al)
  then show ?case
    using read_alias [of "fst a" "snd a"]
    by (auto simp: alias_line_def split: prod.splits intro!: read_all_Cons simp del: read_line.simps read_all.simps)
qed simp

lemma read_config_lines:
  assumes "list_all toml_char h" and "list_all toml_char u" and "list_all toml_char t"
    and "list_all (\<lambda>(k, v). list_all toml_char k \<and> list_all toml_char v) al"
  shows "read_all (config_lines (tomlEscape h) (tomlEscape u) (tomlEscape t)
       (map (\<lambda>(k, v). (tomlEscape k, tomlEscape v)) al))
     = Some (head_lines h u t @ map alias_line (sorted_aliases al) @ tail_lines)"
proof -
  have m: "tomlEscape ''matrix'' = ''matrix''" by simp
  have k: "read_line (''kind = '' @ quoted ''matrix'') = Some (Entry ''kind'' (VString ''matrix''))"
    by (rule read_string_entry [where sp = "'' ''"]) (simp_all add: m bare_def blank_def toml_char_def)
  have e1: "read_line (''homeserver = '' @ quoted (tomlEscape h)) = Some (Entry ''homeserver'' (VString h))"
    by (rule read_string_entry [where sp = "'' ''"]) (simp_all add: bare_def blank_def assms)
  have e2: "read_line (''user_id    = '' @ quoted (tomlEscape u)) = Some (Entry ''user_id'' (VString u))"
    by (rule read_string_entry [where sp = "''    ''"]) (simp_all add: bare_def blank_def assms)
  have e3: "read_line (''token_file = '' @ quoted (tomlEscape t)) = Some (Entry ''token_file'' (VString t))"
    by (rule read_string_entry [where sp = "'' ''"]) (simp_all add: bare_def blank_def assms)
  have b: "read_line ''encrypt = true'' = Some (Entry ''encrypt'' (VBool True))"
    "read_line ''strip_emoji = true'' = Some (Entry ''strip_emoji'' (VBool True))"
    using read_entry [of "''encrypt''" "'' ''" "''true''"] read_entry [of "''strip_emoji''" "'' ''" "''true''"]
    by (simp_all add: bare_def blank_def read_value_def)
  have hd: "read_line ''[transport]'' = Some (Header ''transport'')" "read_line ''[matrix]'' = Some (Header ''matrix'')"
    "read_line ''[aliases]'' = Some (Header ''aliases'')" "read_line ''[sanitize]'' = Some (Header ''sanitize'')"
    by (simp_all add: bare_def)
  have d: "read_line (''# device_id = '' @ quoted []) = Some Blank"
    by (simp add: quoted_def toml_char_def)
  have dash: "read_line (''# instead, with mode 0600 '' @ encode_rune 0x2014 @ '' the daemon refuses to read a token file anybody'')
      = Some Blank"
    by (simp add: encode_rune_def toml_char_def valid_rune_def)
  have "list_all (\<lambda>(k, v). list_all toml_char k \<and> list_all toml_char v) (sorted_aliases al)"
    using assms(4) by (simp add: list_all_iff sorted_aliases_def)
  from read_alias_lines [OF this]
  have al: "read_all (alias_lines (map (\<lambda>(k, v). (tomlEscape k, tomlEscape v)) al)) = Some (map alias_line (sorted_aliases al))"
    by (simp add: alias_lines_def sort_key_map sorted_aliases_def comp_def case_prod_unfold)
  have nil: "read_all [] = Some []" by simp
  note lines = read_all_Cons nil read_line.simps(1) read_comment k e1 e2 e3 b hd d dash
  have tail: "read_all [''[sanitize]'', ''strip_emoji = true'', []] = Some tail_lines"
    unfolding tail_lines_def by (intro lines)
  show ?thesis
    unfolding config_lines_def
    by (rule read_all_append [OF _ read_all_append [OF al tail]], unfold head_lines_def, intro lines)
      (simp_all add: toml_char_def)
qed

lemma printable_config_lines:
  assumes "printable h" and "printable u" and "printable t" and "list_all (\<lambda>(k, v). printable k \<and> printable v) al"
  shows "list_all printable (config_lines (tomlEscape h) (tomlEscape u) (tomlEscape t)
       (map (\<lambda>(k, v). (tomlEscape k, tomlEscape v)) al))"
proof -
  have key: "printable (k @ quoted (tomlEscape x))" if "printable x" "list_all (\<lambda>c. 0x20 \<le> bv c \<and> bv c < 0x7F) k" for k x
    using that by (intro printable_append) (simp_all add: printable_quoted printable_ascii)
  have "printable (quoted (tomlEscape k) @ '' = '' @ quoted (tomlEscape v))" if "(k, v) \<in> set al" for k v
    using assms(4) that by (intro printable_append printable_quoted) (auto simp: list_all_iff intro: printable_ascii)
  then have aliases: "list_all printable (alias_lines (map (\<lambda>(k, v). (tomlEscape k, tomlEscape v)) al))"
    by (auto simp: alias_lines_def list_all_iff)
  have k: "printable (''kind = '' @ quoted ''matrix'')" "printable (''# device_id = '' @ quoted [])"
    by (rule printable_ascii; simp add: quoted_def)+
  have dash: "printable (''# instead, with mode 0600 '' @ encode_rune 0x2014 @ '' the daemon refuses to read a token file anybody'')"
  proof (intro printable_append)
    show "printable (encode_rune 0x2014)"
      using valid_utf8_encode [of "[0x2014]"] by (simp add: printable_def toml_char_def encode_rune_def valid_rune_def)
  qed (rule printable_ascii; simp)+
  have all: "P x \<Longrightarrow> list_all P xs \<Longrightarrow> list_all P (x # xs)" for P :: "gostring \<Rightarrow> bool" and x xs by simp
  have nil: "list_all P []" for P :: "gostring \<Rightarrow> bool" by simp
  have app: "list_all P xs \<Longrightarrow> list_all P ys \<Longrightarrow> list_all P (xs @ ys)" for P :: "gostring \<Rightarrow> bool" and xs ys by simp
  show ?thesis
    unfolding config_lines_def
    by (intro all app aliases k dash key assms(1,2,3) nil) (auto intro: printable_ascii)
qed

definition file_entries :: "gostring \<Rightarrow> gostring \<Rightarrow> gostring \<Rightarrow> (gostring \<times> gostring) list \<Rightarrow> toml_entries" where
  "file_entries h u t al =
     [((''transport'', ''kind''), VString ''matrix''), ((''matrix'', ''homeserver''), VString h),
      ((''matrix'', ''user_id''), VString u), ((''matrix'', ''token_file''), VString t),
      ((''matrix'', ''encrypt''), VBool True)]
     @ map (\<lambda>a. ((''aliases'', fst a), VString (snd a))) al
     @ [((''sanitize'', ''strip_emoji''), VBool True)]"

lemma entries_of_aliases:
  "entries_of (Some t) (map alias_line al @ ls) =
     map_option ((@) (map (\<lambda>a. ((t, fst a), VString (snd a))) al)) (entries_of (Some t) ls)"
  by (induction al) (auto simp: alias_line_def comp_def option.map_ident split: option.split)

lemma file_entries_of:
  "entries_of None (head_lines h u t @ map alias_line al @ tail_lines) = Some (file_entries h u t al)"
  by (simp add: head_lines_def entries_of_aliases tail_lines_def file_entries_def)

lemma headers_aliases: "headers (map alias_line al @ ls) = headers ls"
  by (induction al) (simp_all add: alias_line_def)

lemma toml_read_rendered:
  assumes "printable h" and "printable u" and "printable t" and "list_all (\<lambda>(k, v). printable k \<and> printable v) al"
    and "distinct (map fst al)"
  shows "toml_read (renderConfig h u t al) = Some (file_entries h u t (sorted_aliases al))"
proof -
  let ?ls = "config_lines (tomlEscape h) (tomlEscape u) (tomlEscape t) (map (\<lambda>(k, v). (tomlEscape k, tomlEscape v)) al)"
  have "?ls \<noteq> []" by (simp add: config_lines_def)
  note doc = printable_lines [OF printable_config_lines [OF assms(1-4)] this, folded renderConfig_def]
  have "list_all (\<lambda>(k, v). list_all toml_char k \<and> list_all toml_char v) al"
    using assms(4) by (auto simp: list_all_iff printable_def)
  then have read: "read_all ?ls = Some (head_lines h u t @ map alias_line (sorted_aliases al) @ tail_lines)"
    using assms(1-3) by (intro read_config_lines) (simp_all add: printable_def)
  have hd: "distinct (headers (head_lines h u t @ map alias_line (sorted_aliases al) @ tail_lines))"
    by (simp add: head_lines_def headers_aliases tail_lines_def)
  have "distinct (map fst (sorted_aliases al))"
  proof -
    have "mset (map fst (sorted_aliases al)) = mset (map fst al)" by (simp only: mset_map sorted_aliases_def mset_sort)
    with assms(5) show ?thesis using mset_eq_imp_distinct_iff by blast
  qed
  then have "distinct (map fst (file_entries h u t (sorted_aliases al)))"
    by (auto simp: file_entries_def distinct_map comp_def inj_on_def)
  with doc read hd show ?thesis by (simp add: toml_read_def file_entries_of)
qed

lemma file_entries_typed: "list_all typed_entry (file_entries h u t al)"
  by (simp add: file_entries_def typed_entry_def string_keys_def bool_keys_def list_all_iff)

lemma alias_entries_map:
  "alias_entries (map (\<lambda>a. ((''aliases'', fst a), VString (snd a))) al @ es) = al @ alias_entries es"
  by (induction al) simp_all

lemma map_of_sorted: "distinct (map fst al) \<Longrightarrow> map_of (sorted_aliases al) = map_of al"
proof (rule map_of_inject_set [THEN iffD2])
  assume d: "distinct (map fst al)"
  have "mset (map fst (sorted_aliases al)) = mset (map fst al)"
    by (simp only: mset_map sorted_aliases_def mset_sort)
  with d show "distinct (map fst (sorted_aliases al))" using mset_eq_imp_distinct_iff by blast
  show "distinct (map fst al)" by (rule d)
  show "set (sorted_aliases al) = set al" by (simp add: sorted_aliases_def)
qed

lemma map_of_aliases_other:
  "t \<noteq> ''aliases'' \<Longrightarrow> map_of (map (\<lambda>a. ((''aliases'', fst a), VString (snd a))) al) (t, k) = None"
  by (induction al) simp_all

lemma decoded_file:
  "decoded (file_entries h u t al) =
     \<lparr>cfg_Daemon = \<lparr>dc_Socket = [], dc_HistoryCapacity = 0, dc_Store = [], dc_StateDB = []\<rparr>, cfg_Kind = ''matrix'',
      cfg_Matrix = \<lparr>xc_Homeserver = h, xc_UserID = u, xc_DeviceID = [], xc_TokenFile = t, xc_Encrypt = True,
        xc_SessionDB = [], xc_PickleKeyFile = []\<rparr>,
      cfg_Aliases = al, cfg_Sanitize = \<lparr>sc_StripEmoji = True, sc_MaxBody = 0\<rparr>,
      cfg_Mock = \<lparr>kc_Loop = False, kc_Rooms = [], kc_Msgs = []\<rparr>\<rparr>"
  by (simp add: decoded_def file_entries_def string_at_def bool_at_def alias_entries_map map_of_aliases_other
      map_add_def)

lemma file_defines:
  "defined_in (file_entries h u t al) [''sanitize'', ''strip_emoji'']"
  "defined_in (file_entries h u t al) [''matrix'', ''encrypt'']"
  "\<not> defined_in (file_entries h u t al) [''mock'', ''loop'']"
  by (auto simp: defined_in_def file_entries_def)

text \<open>What the loader makes of the rendered file, as one equation.\<close>

lemma load_rendered:
  assumes "decodes_toml D" and "printable h" and "printable u" and "printable t"
    and "list_all (\<lambda>(k, v). printable k \<and> printable v) al" and "distinct (map fst al)"
    and "path \<noteq> []" and "RF path = Inr (renderConfig h u t al)"
  shows "\<exists>cfg. Load D RF path = (cfg, None) \<and> cfg_Kind cfg = ''matrix''
    \<and> cfg_Matrix cfg = \<lparr>xc_Homeserver = h, xc_UserID = u, xc_DeviceID = [], xc_TokenFile = t, xc_Encrypt = True,
        xc_SessionDB = [], xc_PickleKeyFile = []\<rparr>
    \<and> map_of (cfg_Aliases cfg) = map_of al \<and> cfg_Daemon cfg = cfg_Daemon Default \<and> cfg_Sanitize cfg = cfg_Sanitize Default"
proof -
  let ?es = "file_entries h u t (sorted_aliases al)"
  obtain defined where D: "D (renderConfig h u t al) = Inr (decoded ?es, defined)"
    "\<And>t k. defined [t, k] = defined_in ?es [t, k]"
    using assms(1) toml_read_rendered [OF assms(2-6)] file_entries_typed unfolding decodes_toml_def by blast
  with assms(7,8) have "Load D RF path = (overlay (decoded ?es) defined, None)"
    by (simp add: Load_def)
  moreover have "overlay (decoded ?es) defined =
      (merge Default (decoded ?es))\<lparr>cfg_Sanitize := (cfg_Sanitize (merge Default (decoded ?es)))\<lparr>sc_StripEmoji := True\<rparr>,
         cfg_Matrix := (cfg_Matrix (merge Default (decoded ?es)))\<lparr>xc_Encrypt := True\<rparr>\<rparr>"
    by (simp add: overlay_def D(2) file_defines Let_def decoded_file)
  moreover have "merge Default (decoded ?es) = Default\<lparr>cfg_Kind := ''matrix'',
      cfg_Matrix := \<lparr>xc_Homeserver = h, xc_UserID = u, xc_DeviceID = [], xc_TokenFile = t, xc_Encrypt = True,
        xc_SessionDB = [], xc_PickleKeyFile = []\<rparr>, cfg_Aliases := sorted_aliases al\<rparr>"
  proof -
    have "set_or s [] = s" for s by (simp add: set_or_def)
    then show ?thesis
      by (cases "sorted_aliases al = []")
        (simp_all add: decoded_file merge_def mergeMatrix_def mergeDaemon_def Default_def set_or_def)
  qed
  ultimately show ?thesis using map_of_sorted [OF assms(6)] by (simp add: Default_def)
qed

section \<open>Properties\<close>

lemma rendered_valid:
  assumes "Load D RF path = (cfg, None)" and "cfg_Kind cfg = ''matrix''" and "cfg_Daemon cfg = cfg_Daemon Default"
    and "xc_Homeserver (cfg_Matrix cfg) \<noteq> []" and "xc_UserID (cfg_Matrix cfg) \<noteq> []"
  shows "Validate cfg = None"
  using assms(2-5) by (simp add: Validate_def) (simp add: Default_def)

text \<open>C34: the rendered configuration loads. With a decoder that reads TOML, whatever homeserver, user,
  token path and display names the wizard has found, so long as they can be printed (valid UTF-8
  without control characters), the daemon's loader accepts the file; the configuration is valid, selects the Matrix transport with exactly these values
  and encryption on, finds every alias, and leaves everything else at its default.\<close>

theorem rendered_config_loads:
  assumes "decodes_toml D" and "printable h" and "printable u" and "printable t"
    and "list_all (\<lambda>(k, v). printable k \<and> printable v) al" and "distinct (map fst al)"
    and "h \<noteq> []" and "u \<noteq> []" and "path \<noteq> []" and "RF path = Inr (renderConfig h u t al)"
  shows "\<exists>cfg. Load D RF path = (cfg, None) \<and> Validate cfg = None \<and> cfg_Kind cfg = ''matrix''
    \<and> cfg_Matrix cfg = \<lparr>xc_Homeserver = h, xc_UserID = u, xc_DeviceID = [], xc_TokenFile = t, xc_Encrypt = True,
        xc_SessionDB = [], xc_PickleKeyFile = []\<rparr>
    \<and> map_of (cfg_Aliases cfg) = map_of al \<and> cfg_Daemon cfg = cfg_Daemon Default \<and> cfg_Sanitize cfg = cfg_Sanitize Default"
proof -
  from load_rendered [where RF = RF, OF assms(1-6,9,10)] obtain cfg where c: "Load D RF path = (cfg, None)" "cfg_Kind cfg = ''matrix''"
    "cfg_Matrix cfg = \<lparr>xc_Homeserver = h, xc_UserID = u, xc_DeviceID = [], xc_TokenFile = t, xc_Encrypt = True,
        xc_SessionDB = [], xc_PickleKeyFile = []\<rparr>"
    "map_of (cfg_Aliases cfg) = map_of al" "cfg_Daemon cfg = cfg_Daemon Default" "cfg_Sanitize cfg = cfg_Sanitize Default"
    by blast
  with rendered_valid [OF c(1,2,5)] assms(7,8) show ?thesis by auto
qed

text \<open>A decoder whose \<open>IsDefined\<close> also knows the tables.\<close>

definition subset_decoder :: toml_decoder where
  "subset_decoder content =
     (case toml_read content of
        None \<Rightarrow> Inl (Opaque ''toml'')
      | Some es \<Rightarrow> 
          if list_all typed_entry es
          then Inr (decoded es, \<lambda>path. defined_in es path \<or> (\<exists>e\<in>set es. path = [fst (fst e)]))
          else Inl (Opaque ''toml''))"

lemma subset_decoder_decodes: "decodes_toml subset_decoder"
  by (simp add: decodes_toml_def subset_decoder_def)

theorem rendered_config_loads_witness:
  "\<exists>cfg. Load subset_decoder (\<lambda>p. Inr (renderConfig ''http://localhost:8008'' ''@qd:h'' ''/t'' [(''@ig_1:h'', (DQ # ''m.'' @ [DQ]))])) ''/c''
       = (cfg, None)
     \<and> Validate cfg = None \<and> map_of (cfg_Aliases cfg) ''@ig_1:h'' = Some (DQ # ''m.'' @ [DQ])"
proof -
  have p: "printable ''http://localhost:8008''" "printable ''@qd:h''" "printable ''/t''" "printable ''@ig_1:h''"
    "printable (DQ # ''m.'' @ [DQ])"
    by (rule printable_ascii; simp)+
  let ?al = "[(''@ig_1:h'', (DQ # ''m.'' @ [DQ]))]"
  have "list_all (\<lambda>(k, v). printable k \<and> printable v) ?al" "distinct (map fst ?al)" using p by simp_all
  from rendered_config_loads [OF subset_decoder_decodes p(1-3) this, of "''/c''" "\<lambda>p. Inr (renderConfig ''http://localhost:8008'' ''@qd:h'' ''/t'' ?al)"]
  show ?thesis by auto
qed

end
