(* ===== verification/Handover.thy ===== *)
theory Handover
  imports Setup Toml Startup
begin

text \<open>
  From the wizard to the daemon: what a finished \<open>quietdmd setup\<close> leaves on disk is what
  \<open>quietdmd\<close> starts from. The wizard's disk becomes the daemon's operating system (\<open>sees\<close>), the
  path it reports the daemon's configuration path.
\<close>

section \<open>Aliases\<close>

lemma add_aliases_finite: "finite (dom al) \<Longrightarrow> finite (dom (add_aliases me botID ms al))"
  by (induction me botID ms al rule: add_aliases.induct) simp_all

lemma alias_rooms_finite: "finite (dom al) \<Longrightarrow> finite (dom (alias_rooms JM me botID rs al))"
  by (induction JM me botID rs al rule: alias_rooms.induct) (simp_all add: add_aliases_finite split: sum.split)

lemma aliasSkeleton_finite: "finite (dom (aliasSkeleton rooms JM me botID))"
  by (simp add: aliasSkeleton_def alias_rooms_finite split: sum.split)

lemma setup_chat_finite:
  assumes "setup_chat w opts mxid token d = (Finished (Inr al), d')"
  shows "finite (dom al)"
  using assms unfolding setup_chat_def Let_def
  by (elim andthen_ok) (auto simp: value_phase_def aliasSkeleton_finite)

lemma entries_map:
  assumes "finite (dom al)"
  shows "distinct (map fst (entries al)) \<and> map_of (entries al) = al"
proof
  show "distinct (map fst (entries al))" by (simp add: entries_def comp_def)
  show "map_of (entries al) = al"
  proof
    fix k
    have "map_of (map (\<lambda>k. (k, the (al k))) ks) k = (if k \<in> set ks then Some (the (al k)) else None)" for ks
      by (induction ks) auto
    with assms show "map_of (entries al) k = al k" by (auto simp: entries_def domIff)
  qed
qed

lemma entries_printable:
  assumes "finite (dom al)" and "\<And>k v. al k = Some v \<Longrightarrow> printable k \<and> printable v"
  shows "list_all (\<lambda>(k, v). printable k \<and> printable v) (entries al)"
proof -
  have "printable k \<and> printable (the (al k))" if "k \<in> dom al" for k
    using assms(2) [of k] that by auto
  with assms(1) show ?thesis by (simp add: entries_def list_all_iff)
qed

section \<open>Starting on what the wizard left\<close>

lemma NewMatrix_options:
  assumes "NewMatrix client open_db table key opts = Inr m"
  shows "mo_Token (mt_opts m) = mo_Token opts" "mo_UserID (mt_opts m) = mo_UserID opts"
    "mo_Homeserver (mt_opts m) = mo_Homeserver opts" "mo_Encrypt (mt_opts m) = mo_Encrypt opts"
proof -
  have "mt_opts m = normalise_options opts" by (rule NewMatrix_made(6) [OF assms])
  then show "mo_Token (mt_opts m) = mo_Token opts" "mo_UserID (mt_opts m) = mo_UserID opts"
    "mo_Homeserver (mt_opts m) = mo_Homeserver opts" "mo_Encrypt (mt_opts m) = mo_Encrypt opts"
    by (simp_all add: normalise_options_def Let_def)
qed

text \<open>A daemon whose configuration loads, is valid, selects Matrix and finds its token.\<close>

lemma boot_matrix:
  assumes "Load (w_decode w) (ReadFile (w_os w)) path = (cfg, None)" and "Validate cfg = None"
    and "cfg_Kind cfg = ''matrix''" and "MatrixToken (w_os w) cfg = Inr token"
  shows "boot w [] path \<noteq> Inl (ConfigErr err)
    \<and> (boot w [] path = Inr (cfg', tr, st, sv) \<longrightarrow> cfg' = cfg
         \<and> (\<exists>m. tr = OpenedMatrix m \<and> mo_Token (mt_opts m) = token
              \<and> mo_UserID (mt_opts m) = xc_UserID (cfg_Matrix cfg)
              \<and> mo_Homeserver (mt_opts m) = xc_Homeserver (cfg_Matrix cfg)
              \<and> mo_Encrypt (mt_opts m) = xc_Encrypt (cfg_Matrix cfg)))"
proof -
  obtain opts where o: "mo_Token opts = token" "mo_UserID opts = xc_UserID (cfg_Matrix cfg)"
    "mo_Homeserver opts = xc_Homeserver (cfg_Matrix cfg)" "mo_Encrypt opts = xc_Encrypt (cfg_Matrix cfg)"
    "newTransport w cfg = (case NewMatrix (w_client w) (w_session_db w) (w_sync_table w) (w_key w) opts of
        Inl err \<Rightarrow> Inl (GoErr err) | Inr m \<Rightarrow> Inr (OpenedMatrix m))"
  proof -
    let ?opts = "\<lparr>mo_Homeserver = xc_Homeserver (cfg_Matrix cfg), mo_UserID = xc_UserID (cfg_Matrix cfg),
      mo_DeviceID = xc_DeviceID (cfg_Matrix cfg), mo_Token = token, mo_Encrypt = xc_Encrypt (cfg_Matrix cfg),
      mo_SessionDB = MatrixSessionDBPath (w_os w) cfg, mo_PickleKeyFile = PickleKeyPath (w_os w) cfg,
      mo_MinBackoff = 0, mo_MaxBackoff = 0\<rparr>"
    show ?thesis by (rule that [of ?opts]) (simp_all add: newTransport_def assms(3,4))
  qed
  show ?thesis
  proof (cases "NewMatrix (w_client w) (w_session_db w) (w_sync_table w) (w_key w) opts")
    case (Inl e)
    then show ?thesis using assms(1,2) o(5) by (simp add: boot_def)
  next
    case (Inr m)
    then have tr: "newTransport w cfg = Inr (OpenedMatrix m)" using o(5) by simp
    have "boot w [] path \<noteq> Inl (ConfigErr err)"
      using assms(1,2) tr by (auto simp: boot_def split: sum.split option.split prod.split)
    moreover have "cfg' = cfg \<and> tr = OpenedMatrix m" if "boot w [] path = Inr (cfg', tr, st, sv)"
      using that assms(1,2) tr by (auto simp: boot_def split: sum.splits option.splits prod.splits)
    ultimately show ?thesis using NewMatrix_options [OF Inr] o(1-4) by auto
  qed
qed

section \<open>What the wizard wrote\<close>

text \<open>What the wizard's files mean to the daemon. Take docker commands that leave the token file
  alone, a token path that is none of the other files the wizard writes, no token file yet,
  names and paths that can be printed, and a decoder that reads TOML.\<close>

lemma setup_starts_daemon:
  assumes "setup_Run w sys opts0 d = (Finished (Inr (written, mxid, token, al)), d')"
    and "tok = so_TokenPath (setDefaults sys opts0)" and "tok \<noteq> []" and "dk_files d tok = None"
    and "docker_keeps (sw_docker w) tok" and "tok \<notin> wizard_files (setDefaults sys opts0)"
    and "env_word token" and "token \<noteq> []" and "Getenv sys TokenEnv = []" and "written \<noteq> []" and "mxid \<noteq> []"
    and "printable mxid" and "printable tok" and "\<And>k v. al k = Some v \<Longrightarrow> printable k \<and> printable v"
    and "w_os dw = sees d' sys" and "decodes_toml (w_decode dw)"
  shows "boot dw [] written \<noteq> Inl (ConfigErr err)
    \<and> (boot dw [] written = Inr (cfg, tr, st, sv) \<longrightarrow>
         map_of (cfg_Aliases cfg) = al
         \<and> (\<exists>m. tr = OpenedMatrix m \<and> mo_Token (mt_opts m) = token \<and> mo_UserID (mt_opts m) = mxid
              \<and> mo_Homeserver (mt_opts m) = homeserverURL \<and> mo_Encrypt (mt_opts m)))"
proof -
  from assms(1) have fin: "finite (dom al)" by (elim setup_Run_cases setup_chat_finite)
  note al = entries_map [OF fin] entries_printable [OF fin assms(14)]
  have x: "xc_TokenFile (cfg_Matrix (Default\<lparr>cfg_Matrix := (cfg_Matrix Default)\<lparr>xc_TokenFile := tok\<rparr>\<rparr>)) = tok" by simp
  have cfile: "content_at d' written = Some (renderConfig homeserverURL mxid tok (entries al))"
    by (rule setup_leaves_working_files [OF assms(1,2,3,5,6,7,8,9) x, THEN conjunct1])
  have rf: "ReadFile (w_os dw) written = Inr (renderConfig homeserverURL mxid tok (entries al))"
    using cfile by (auto simp: assms(15) sees_def content_at_def)
  have hp: "printable homeserverURL" by (rule printable_ascii) (simp add: homeserverURL_def)
  from load_rendered [where RF = "ReadFile (w_os dw)", OF assms(16) hp assms(12,13) al(2) conjunct1 [OF al(1)]
      assms(10) rf]
  obtain c where c: "Load (w_decode dw) (ReadFile (w_os dw)) written = (c, None)" "cfg_Kind c = ''matrix''"
    "cfg_Matrix c = \<lparr>xc_Homeserver = homeserverURL, xc_UserID = mxid, xc_DeviceID = [], xc_TokenFile = tok,
       xc_Encrypt = True, xc_SessionDB = [], xc_PickleKeyFile = []\<rparr>"
    "map_of (cfg_Aliases c) = map_of (entries al)" "cfg_Daemon c = cfg_Daemon Default" by blast
  have v: "Validate c = None"
    using rendered_valid [OF c(1,2,5)] assms(11) by (simp add: c(3) homeserverURL_def)
  have "MatrixToken (w_os dw) c = Inr token"
    using setup_leaves_working_files [OF assms(1,2,3,5,6,7,8,9), of c] assms(4)
    unfolding assms(15) by (auto simp: c(3))
  from boot_matrix [OF c(1) v c(2) this] c(3,4) al(1) show ?thesis by auto
qed

end
