(* ===== verification/Flags.thy ===== *)
theory Flags
  imports GoStd
begin

text \<open>
  Go's \<open>flag\<close> package, as the two commands use it: a flag set of string and Boolean flags, the
  parser with its rules (\<open>-name value\<close>, \<open>-name=value\<close>, one dash or two, \<open>--\<close>, a Boolean flag
  takes no second argument), its errors, and what \<open>flag.ExitOnError\<close> makes of them.
\<close>

section \<open>Definitions\<close>

datatype flag_value =
    BoolFlag bool
  | StringFlag gostring

type_synonym flag_set = "gostring \<rightharpoonup> flag_value"

datatype flag_error =
    ErrHelp
  | BadSyntax gostring
  | NotDefined gostring
  | BadBool gostring gostring
  | NeedsArgument gostring

definition ParseBool :: "gostring \<Rightarrow> bool option" where
  "ParseBool s =
     (if s \<in> {''1'', ''t'', ''T'', ''TRUE'', ''true'', ''True''} then Some True
      else if s \<in> {''0'', ''f'', ''F'', ''FALSE'', ''false'', ''False''} then Some False
      else None)"

text \<open>A name with its value, if it has one: cut at the first \<open>=\<close> after the first character.\<close>

fun cut_value :: "gostring \<Rightarrow> gostring \<times> gostring option" where
  "cut_value [] = ([], None)"
| "cut_value (c # cs) =
     (c # takeWhile (\<lambda>x. x \<noteq> CHR ''='') cs,
      case dropWhile (\<lambda>x. x \<noteq> CHR ''='') cs of [] \<Rightarrow> None | _ # v \<Rightarrow> Some v)"

text \<open>One step of the parser: it stops with the arguments left, sees a flag, or fails.\<close>

datatype parsed =
    Stop "gostring list"
  | Seen flag_set "gostring list"
  | Failed flag_error

definition set_flag :: "gostring \<Rightarrow> gostring option \<Rightarrow> flag_set \<Rightarrow> gostring list \<Rightarrow> parsed" where
  "set_flag name value fs args =
     (case fs name of
        None \<Rightarrow> Failed (if name = ''help'' \<or> name = ''h'' then ErrHelp else NotDefined name)
      | Some (BoolFlag _) \<Rightarrow>
          (case value of
             None \<Rightarrow> Seen (fs(name \<mapsto> BoolFlag True)) args
           | Some v \<Rightarrow>
               (case ParseBool v of
                  None \<Rightarrow> Failed (BadBool v name)
                | Some b \<Rightarrow> Seen (fs(name \<mapsto> BoolFlag b)) args))
      | Some (StringFlag _) \<Rightarrow>
          (case value of
             Some v \<Rightarrow> Seen (fs(name \<mapsto> StringFlag v)) args
           | None \<Rightarrow>
               (case args of
                  [] \<Rightarrow> Failed (NeedsArgument name)
                | v # rest \<Rightarrow> Seen (fs(name \<mapsto> StringFlag v)) rest)))"

definition parseOne :: "flag_set \<Rightarrow> gostring list \<Rightarrow> parsed" where
  "parseOne fs args =
     (case args of
        [] \<Rightarrow> Stop []
      | s # rest \<Rightarrow>
          if length s < 2 \<or> hd s \<noteq> CHR ''-'' then Stop args
          else if s = ''--'' then Stop rest
          else
            (let name = (if s ! 1 = CHR ''-'' then drop 2 s else drop 1 s) in
             if name = [] \<or> hd name = CHR ''-'' \<or> hd name = CHR ''='' then Failed (BadSyntax s)
             else (case cut_value name of (name, value) \<Rightarrow> set_flag name value fs rest)))"

lemma set_flag_shorter: "set_flag n v fs args = Seen gs rest \<Longrightarrow> length rest \<le> length args"
  by (auto simp: set_flag_def split: option.splits flag_value.splits list.splits)

lemma parseOne_shorter: "parseOne fs args = Seen gs rest \<Longrightarrow> length rest < length args"
  by (auto simp: parseOne_def Let_def split: list.splits if_splits prod.splits dest!: set_flag_shorter)

function parse_flags :: "flag_set \<Rightarrow> gostring list \<Rightarrow> flag_error + (flag_set \<times> gostring list)" where
  "parse_flags fs args =
     (case parseOne fs args of
        Stop rest \<Rightarrow> Inr (fs, rest)
      | Failed err \<Rightarrow> Inl err
      | Seen gs rest \<Rightarrow> parse_flags gs rest)"
  by pat_completeness auto
termination
  by (relation "measure (\<lambda>(fs, args). length args)") (auto dest: parseOne_shorter)

declare parse_flags.simps [simp del]

text \<open>With \<open>ExitOnError\<close> a failure ends the process: asking for help is not one.\<close>

definition exit_on_error :: "flag_error \<Rightarrow> nat" where
  "exit_on_error err = (if err = ErrHelp then 0 else 2)"

definition flag_string :: "flag_set \<Rightarrow> gostring \<Rightarrow> gostring" where
  "flag_string fs n = (case fs n of Some (StringFlag s) \<Rightarrow> s | _ \<Rightarrow> [])"

definition flag_bool :: "flag_set \<Rightarrow> gostring \<Rightarrow> bool" where
  "flag_bool fs n = (case fs n of Some (BoolFlag b) \<Rightarrow> b | _ \<Rightarrow> False)"

section \<open>Writing flags and reading them back\<close>

text \<open>The ways to write a flag with a value: joined by \<open>=\<close>, or, for a string, as the next
  argument; one dash or two.\<close>

datatype style = Joined | Next | Joined2 | Next2

fun render_flag :: "style \<Rightarrow> gostring \<Rightarrow> flag_value \<Rightarrow> gostring list" where
  "render_flag Joined n (StringFlag v) = [CHR ''-'' # n @ CHR ''='' # v]"
| "render_flag Joined2 n (StringFlag v) = [CHR ''-'' # CHR ''-'' # n @ CHR ''='' # v]"
| "render_flag Next n (StringFlag v) = [CHR ''-'' # n, v]"
| "render_flag Next2 n (StringFlag v) = [CHR ''-'' # CHR ''-'' # n, v]"
| "render_flag Joined n (BoolFlag b) = [CHR ''-'' # n @ CHR ''='' # (if b then ''true'' else ''false'')]"
| "render_flag Joined2 n (BoolFlag b) =
     [CHR ''-'' # CHR ''-'' # n @ CHR ''='' # (if b then ''true'' else ''false'')]"
| "render_flag Next n (BoolFlag b) = (if b then [CHR ''-'' # n] else [CHR ''-'' # n @ ''=false''])"
| "render_flag Next2 n (BoolFlag b) =
     (if b then [CHR ''-'' # CHR ''-'' # n] else [CHR ''-'' # CHR ''-'' # n @ ''=false''])"

definition render_flags :: "(style \<times> gostring \<times> flag_value) list \<Rightarrow> gostring list" where
  "render_flags settings = concat (map (\<lambda>(st, n, v). render_flag st n v) settings)"

text \<open>A name as a flag can have it, and a value of the flag's kind.\<close>

definition flag_name :: "gostring \<Rightarrow> bool" where
  "flag_name n \<longleftrightarrow> n \<noteq> [] \<and> hd n \<noteq> CHR ''-'' \<and> CHR ''='' \<notin> set n"

fun same_kind :: "flag_value option \<Rightarrow> flag_value \<Rightarrow> bool" where
  "same_kind (Some (BoolFlag _)) (BoolFlag _) \<longleftrightarrow> True"
| "same_kind (Some (StringFlag _)) (StringFlag _) \<longleftrightarrow> True"
| "same_kind _ _ \<longleftrightarrow> False"

definition apply_settings :: "(style \<times> gostring \<times> flag_value) list \<Rightarrow> flag_set \<Rightarrow> flag_set" where
  "apply_settings settings fs = fold (\<lambda>(st, n, v) fs. fs(n \<mapsto> v)) settings fs"

lemma settings_Cons:
  "render_flags ((st, n, v) # settings) = render_flag st n v @ render_flags settings"
  "apply_settings ((st, n, v) # settings) fs = apply_settings settings (fs(n \<mapsto> v))"
  by (simp_all add: render_flags_def apply_settings_def)

lemma cut_value_name: "flag_name n \<Longrightarrow> cut_value n = (n, None)"
proof (cases n)
  case (Cons c cs)
  assume "flag_name n"
  with Cons have "\<forall>x\<in>set cs. x \<noteq> CHR ''=''" by (auto simp: flag_name_def)
  then have "takeWhile (\<lambda>x. x \<noteq> CHR ''='') cs = cs" "dropWhile (\<lambda>x. x \<noteq> CHR ''='') cs = []" by auto
  then show ?thesis unfolding Cons cut_value.simps by (simp only: list.case)
qed (simp add: flag_name_def)

lemma cut_value_joined: "flag_name n \<Longrightarrow> cut_value (n @ CHR ''='' # v) = (n, Some v)"
proof (cases n)
  case (Cons c cs)
  assume "flag_name n"
  with Cons have "\<forall>x\<in>set cs. x \<noteq> CHR ''=''" by (auto simp: flag_name_def)
  then have "takeWhile (\<lambda>x. x \<noteq> CHR ''='') (cs @ CHR ''='' # v) = cs"
    "dropWhile (\<lambda>x. x \<noteq> CHR ''='') (cs @ CHR ''='' # v) = CHR ''='' # v"
    by (simp_all add: takeWhile_append dropWhile_append)
  with Cons show ?thesis by simp
qed (simp add: flag_name_def)

lemma parse_one:
  assumes "flag_name n" and "cut_value m = (n, v)" and "m \<noteq> []" and "hd m = hd n"
  shows "parseOne fs ((CHR ''-'' # m) # rest) = set_flag n v fs rest"
    "parseOne fs ((CHR ''-'' # CHR ''-'' # m) # rest) = set_flag n v fs rest"
proof -
  obtain c cs where m: "m = c # cs" using assms(3) by (cases m) auto
  with assms have "c \<noteq> CHR ''-''" "c \<noteq> CHR ''=''" by (auto simp: flag_name_def hd_in_set)
  then show "parseOne fs ((CHR ''-'' # m) # rest) = set_flag n v fs rest"
    "parseOne fs ((CHR ''-'' # CHR ''-'' # m) # rest) = set_flag n v fs rest"
    using assms(2) by (auto simp: parseOne_def m)
qed

lemma parse_setting:
  assumes "flag_name n" and "same_kind (fs n) v"
  shows "parse_flags fs (render_flag st n v @ rest) = parse_flags (fs(n \<mapsto> v)) rest"
proof -
  have n: "n \<noteq> []" "hd (n @ ys) = hd n" for ys using assms(1) by (auto simp: flag_name_def)
  note one = parse_one [OF assms(1) cut_value_name [OF assms(1)] n(1) refl]
    parse_one [OF assms(1) cut_value_joined [OF assms(1)] _ n(2)]
  have bools: "ParseBool ''true'' = Some True" "ParseBool ''false'' = Some False"
    by (simp_all add: ParseBool_def)
  show ?thesis
    using assms(2)
    by (cases st; cases v; cases "fs n")
      (auto simp: parse_flags.simps [of fs "_ # _"] one set_flag_def bools split: flag_value.splits)
qed

lemma same_kind_upd: "same_kind (fs n) v \<Longrightarrow> same_kind (fs m) w \<Longrightarrow> same_kind ((fs(n \<mapsto> v)) m) w"
  by (cases v; cases w; cases "fs n"; cases "fs m") (auto split: if_splits elim!: same_kind.elims)

text \<open>Flags mean what they say. However they are written, with one dash or two, values joined or
  as arguments of their own, whatever bytes the values have, in any order and any number of
  times, the parser sets exactly the flags given, the last setting of each winning, and hands
  on what follows them untouched: from the first argument that is no flag, or after \<open>--\<close>.\<close>

lemma flags_roundtrip:
  assumes "list_all (\<lambda>(st, n, v). flag_name n \<and> same_kind (fs n) v) settings"
  shows "parse_flags fs (render_flags settings @ ''--'' # rest) = Inr (apply_settings settings fs, rest)
    \<and> (rest = [] \<or> length (hd rest) < 2 \<or> hd (hd rest) \<noteq> CHR ''-'' \<longrightarrow>
         parse_flags fs (render_flags settings @ rest) = Inr (apply_settings settings fs, rest))"
  using assms
proof (induction settings arbitrary: fs)
  case Nil
  show ?case
    by (cases rest) (auto simp: render_flags_def apply_settings_def parse_flags.simps [of fs] parseOne_def)
next
  case (Cons s settings)
  obtain st n v where s: "s = (st, n, v)" by (cases s)
  with Cons.prems have n: "flag_name n" "same_kind (fs n) v" by simp_all
  have "list_all (\<lambda>(st, m, w). flag_name m \<and> same_kind ((fs(n \<mapsto> v)) m) w) settings"
    by (rule list.pred_mono_strong [OF conjunct2 [OF Cons.prems [unfolded list.pred_inject(2)]]])
      (auto simp del: fun_upd_apply intro: same_kind_upd [of fs n v, OF n(2)])
  from Cons.IH [OF this] show ?case
    by (simp add: s settings_Cons parse_setting [of n fs v, OF n] del: fun_upd_apply)
qed

lemma parse_rendered:
  "list_all (\<lambda>(st, n, v). flag_name n \<and> same_kind (fs n) v) settings \<Longrightarrow>
     parse_flags fs (render_flags settings) = Inr (apply_settings settings fs, [])"
  using flags_roundtrip [of fs settings "[]"] by simp

definition odd_settings :: "(style \<times> gostring \<times> flag_value) list" where
  "odd_settings = [(Next, ''config'', StringFlag ''-x''), (Joined2, ''socket'', StringFlag ''/s=1''),
     (Joined, ''v'', BoolFlag False), (Next, ''v'', BoolFlag True)]"

definition odd_flags :: flag_set where
  "odd_flags = [''config'' \<mapsto> StringFlag ''c'', ''socket'' \<mapsto> StringFlag [], ''v'' \<mapsto> BoolFlag False]"

lemma odd_flags_parsed:
  "parse_flags odd_flags [''-config'', ''-x'', ''--socket=/s=1'', ''-v=false'', ''-v'', ''setup'', ''-z'']
     = Inr ([''config'' \<mapsto> StringFlag ''-x'', ''socket'' \<mapsto> StringFlag ''/s=1'', ''v'' \<mapsto> BoolFlag True], [''setup'', ''-z''])"
proof -
  have ok: "list_all (\<lambda>(st, n, v). flag_name n \<and> same_kind (odd_flags n) v) odd_settings"
    by (simp add: odd_settings_def odd_flags_def flag_name_def)
  have "render_flags odd_settings @ [''setup'', ''-z''] =
      [''-config'', ''-x'', ''--socket=/s=1'', ''-v=false'', ''-v'', ''setup'', ''-z'']"
    by (simp add: render_flags_def odd_settings_def)
  moreover have "apply_settings odd_settings odd_flags =
      [''config'' \<mapsto> StringFlag ''-x'', ''socket'' \<mapsto> StringFlag ''/s=1'', ''v'' \<mapsto> BoolFlag True]"
    by (rule ext) (simp add: apply_settings_def odd_settings_def odd_flags_def)
  ultimately show ?thesis using flags_roundtrip [OF ok, of "[''setup'', ''-z'']"] by simp
qed

end
