(* ===== verification/CommandLine.thy ===== *)
theory CommandLine
  imports Handover Flags
begin

text \<open>
  The two commands as the user calls them: \<open>main\<close> and the flags of \<open>run\<close> in
  \<open>cmd/quietdmd/main.go\<close>, \<open>runSetup\<close> in \<open>cmd/quietdmd/setup.go\<close> and the summary the wizard
  prints last. The result of a command is what the process returns to the shell and the lines it
  ends with on standard output (for the wizard, after its progress lines), or that it crashed; no
  result: it still runs. Usage texts and log lines go to standard error and are not modelled.
\<close>

section \<open>The daemon\<close>

datatype 'e ended =
    Exited nat
  | Crashed
  | Returned "'e option" "gostring list"

definition run_flags :: "os \<Rightarrow> flag_set" where
  "run_flags sys =
     [''config'' \<mapsto> StringFlag (DefaultConfigPath sys), ''socket'' \<mapsto> StringFlag [],
      ''print-socket'' \<mapsto> BoolFlag False, ''v'' \<mapsto> BoolFlag False, ''version'' \<mapsto> BoolFlag False]"

text \<open>The configuration with the socket override: what \<open>-print-socket\<close> looks at, and what \<open>boot\<close>
  starts from.\<close>

definition load_config :: "world \<Rightarrow> gostring \<Rightarrow> gostring \<Rightarrow> config_error + config" where
  "load_config w socket path =
     (case Load (w_decode w) (ReadFile (w_os w)) path of
        (cfg, Some err) \<Rightarrow> Inl err
      | (cfg, None) \<Rightarrow>
          Inr (if socket \<noteq> [] then cfg\<lparr>cfg_Daemon := (cfg_Daemon cfg)\<lparr>dc_Socket := socket\<rparr>\<rparr> else cfg))"

definition run_main ::
  "world \<Rightarrow> gostring \<Rightarrow> gostring list \<Rightarrow> (server \<Rightarrow> server) \<Rightarrow> run_event list
     \<Rightarrow> boot_error ended option" where
  "run_main w version args served es =
     (case parse_flags (run_flags (w_os w)) args of
        Inl err \<Rightarrow> Some (Exited (exit_on_error err))
      | Inr (fs, _) \<Rightarrow>
          if flag_bool fs ''version'' then Some (Returned None [''quietdmd '' @ version])
          else
            (let socket = flag_string fs ''socket''; path = flag_string fs ''config'' in
             case load_config w socket path of
               Inl err \<Rightarrow> Some (Returned (Some (ConfigErr err)) [])
             | Inr cfg \<Rightarrow>
                 if flag_bool fs ''print-socket''
                 then Some (Returned None [SocketPath (w_os w) cfg])
                 else map_option (\<lambda>r. case r of
                        Inl err \<Rightarrow> Returned (Some err) []
                      | Inr (err, sv) \<Rightarrow> Returned (map_option GoErr err) [])
                      (run w socket path served es)))"

section \<open>The wizard\<close>

definition setup_flags :: "os \<Rightarrow> flag_set" where
  "setup_flags sys =
     [''docker-dir'' \<mapsto> StringFlag [], ''config'' \<mapsto> StringFlag (DefaultConfigPath sys),
      ''token-file'' \<mapsto> StringFlag [], ''server-name'' \<mapsto> StringFlag ''quietdm.local'',
      ''force'' \<mapsto> BoolFlag False]"

definition options_of :: "flag_set \<Rightarrow> setup_options" where
  "options_of fs =
     \<lparr>so_DockerDir = flag_string fs ''docker-dir'', so_ServerName = flag_string fs ''server-name'',
      so_ConfigPath = flag_string fs ''config'', so_TokenPath = flag_string fs ''token-file'',
      so_Force = flag_bool fs ''force''\<rparr>"

text \<open>The command line the summary tells the user to run next.\<close>

definition next_command :: "gostring \<Rightarrow> gostring" where
  "next_command configPath = ''  quietdmd -config '' @ configPath @ '' -v''"

definition printSummary :: "setup_options \<Rightarrow> gostring \<Rightarrow> nat \<Rightarrow> gostring list" where
  "printSummary opts configPath aliasCount =
     [[], encode_runes [0x5B8C, 0x6210, 0x3002],
      ''  '' @ encode_runes [0x8A2D, 0x5B9A, 0x6A94, 0xFF1A] @ configPath,
      ''  token '' @ encode_runes [0x6A94, 0xFF1A] @ so_TokenPath opts]
     @ (if aliasCount > 0
        then [''  '' @ encode_runes [0x81EA, 0x52D5, 0x627E, 0x5230] @ '' '' @ itoa (int aliasCount) @ '' ''
              @ encode_runes [0x500B, 0x5C0D, 0x8A71, 0xFF0C, 0x5DF2, 0x9810, 0x5148, 0x586B, 0x9032]
              @ '' [aliases]'']
        else [])
     @ [encode_runes [0x63A5, 0x4E0B, 0x4F86, 0xFF1A], next_command configPath,
        ''  '' @ encode_runes [0x6216, 0x7167] @ '' contrib/systemd/quietdmd.service ''
          @ encode_runes [0x8A2D, 0x6210, 0x9577, 0x671F, 0x8DD1, 0x7684, 0x670D, 0x52D9, 0x3002],
        ''  nvim '' @ encode_runes [0x90A3, 0x908A, 0x8A18, 0x5F97, 0x81EA, 0x5DF1, 0x5728] @ '' setup{} ''
          @ encode_runes [0x88E1, 0x9078, 0x4E00, 0x500B] @ '' panic_key ''
          @ encode_runes [0x2014, 0x2014, 0x20, 0x9019, 0x500B, 0x6C92, 0x8FA6, 0x6CD5, 0x5E6B, 0x4F60,
              0x6C7A, 0x5B9A, 0x3002]]"

definition runSetup ::
  "setup_world \<Rightarrow> os \<Rightarrow> gostring list \<Rightarrow> disk \<Rightarrow> boot_error ended option \<times> disk" where
  "runSetup w sys args d =
     (case parse_flags (setup_flags sys) args of
        Inl err \<Rightarrow> (Some (Exited (exit_on_error err)), d)
      | Inr (fs, _) \<Rightarrow>
          (case setup_Run w sys (options_of fs) d of
             (StillWaits, d) \<Rightarrow> (None, d)
           | (Panicked, d) \<Rightarrow> (Some Crashed, d)
           | (Finished (Inl err), d) \<Rightarrow> (Some (Returned (Some (GoErr err)) []), d)
           | (Finished (Inr (written, mxid, token, aliases)), d) \<Rightarrow>
               (Some (Returned None (printSummary (setDefaults sys (options_of fs)) written
                  (length (entries aliases)))), d)))"

section \<open>\<open>main\<close>\<close>

text \<open>\<open>errors.Is(err, context.Canceled)\<close>: the configuration's errors that wrap another.\<close>

fun error_root :: "boot_error \<Rightarrow> goerr option" where
  "error_root (GoErr err) = Some (err_root err)"
| "error_root (ConfigErr (ReadConfig err)) = Some (err_root err)"
| "error_root (ConfigErr (ParseConfig err)) = Some (err_root err)"
| "error_root (ConfigErr (ReadTokenFile err)) = Some (err_root err)"
| "error_root (ConfigErr err) = None"

text \<open>The Go runtime ends a process that panicked with status 2.\<close>

fun status :: "boot_error ended \<Rightarrow> nat" where
  "status (Exited n) = n"
| "status Crashed = 2"
| "status (Returned None out) = 0"
| "status (Returned (Some err) out) = (if error_root err = Some Canceled then 0 else 1)"

definition main ::
  "world \<Rightarrow> setup_world \<Rightarrow> gostring \<Rightarrow> gostring list \<Rightarrow> (server \<Rightarrow> server) \<Rightarrow> run_event list \<Rightarrow> disk
     \<Rightarrow> boot_error ended option \<times> disk" where
  "main w sw version args served es d =
     (if args \<noteq> [] \<and> hd args = ''setup'' then runSetup sw (w_os w) (tl args) d
      else (run_main w version args served es, d))"

section \<open>Lemmas\<close>

lemma boot_load:
  "boot w socket path =
     (case load_config w socket path of
        Inl err \<Rightarrow> Inl (ConfigErr err)
      | Inr cfg \<Rightarrow>
          (case Validate cfg of
             Some err \<Rightarrow> Inl (ConfigErr err)
           | None \<Rightarrow>
               (case newTransport w cfg of
                  Inl err \<Rightarrow> Inl err
                | Inr tr \<Rightarrow>
                    (case newStore (w_db w) (w_os w) cfg of
                       Inl err \<Rightarrow> Inl (GoErr err)
                     | Inr st \<Rightarrow>
                         (case Listen (w_sock w) (NewServer (SocketPath (w_os w) cfg) (w_dir w) (w_file w)) of
                            (Some err, _) \<Rightarrow> Inl (GoErr err)
                          | (None, sv) \<Rightarrow> Inr (cfg, tr, st, sv))))))"
  by (auto simp: boot_def load_config_def Let_def split: prod.split option.split)

lemma Listen_path: "Listen e s = (None, s') \<Longrightarrow> sv_path s' = sv_path s"
proof (elim Listen_ok)
  fix s1 s2
  assume "ensureDir e s = (None, s1)" and c: "clearStale e s1 = (None, s2)"
    and s': "s' = s2\<lparr>sv_file := SockFile True 0x180, sv_ln := Some True\<rparr>"
  then have "sv_path s1 = sv_path s" by (elim ensureDir_cases) simp_all
  moreover from c have "sv_path s2 = sv_path s1" by (rule clearStale_cases) simp_all
  ultimately show ?thesis by (simp add: s')
qed

lemma boot_path:
  assumes "boot w socket path = Inr (cfg, tr, st, sv)"
  shows "load_config w socket path = Inr cfg \<and> sv_path sv = SocketPath (w_os w) cfg"
proof -
  from assms have "load_config w socket path = Inr cfg"
    "Listen (w_sock w) (NewServer (SocketPath (w_os w) cfg) (w_dir w) (w_file w)) = (None, sv)"
    by (auto simp: boot_load split: sum.splits option.splits prod.splits)
  then show ?thesis by (simp add: Listen_path NewServer_def)
qed

text \<open>The daemon from its flags on: nothing for \<open>-version\<close> and \<open>-print-socket\<close> asked, it is \<open>run\<close>.\<close>

lemma run_main_parsed:
  assumes "parse_flags (run_flags (w_os w)) args = Inr (fs, rest)" and "\<not> flag_bool fs ''version''"
  shows "run_main w version args served es =
     (case load_config w (flag_string fs ''socket'') (flag_string fs ''config'') of
        Inl err \<Rightarrow> Some (Returned (Some (ConfigErr err)) [])
      | Inr cfg \<Rightarrow>
          if flag_bool fs ''print-socket'' then Some (Returned None [SocketPath (w_os w) cfg])
          else map_option (\<lambda>r. case r of
                 Inl err \<Rightarrow> Returned (Some err) []
               | Inr (err, sv) \<Rightarrow> Returned (map_option GoErr err) [])
               (run w (flag_string fs ''socket'') (flag_string fs ''config'') served es))"
  by (simp add: run_main_def assms Let_def)

lemma load_fails_boot: "load_config w socket path = Inl err \<Longrightarrow> boot w socket path = Inl (ConfigErr err)"
  by (simp add: boot_load)

text \<open>How the daemon can have ended.\<close>

lemma run_main_cases:
  assumes "run_main w version args served es = Some res"
  obtains (unparsed) err where "parse_flags (run_flags (w_os w)) args = Inl err"
      "res = Exited (exit_on_error err)"
  | (printed) line where "res = Returned None [line]"
  | (refused) fs rest err where "parse_flags (run_flags (w_os w)) args = Inr (fs, rest)"
      "boot w (flag_string fs ''socket'') (flag_string fs ''config'') = Inl err" "res = Returned (Some err) []"
  | (ended) fs rest cfg tr st sv err where "parse_flags (run_flags (w_os w)) args = Inr (fs, rest)"
      "boot w (flag_string fs ''socket'') (flag_string fs ''config'') = Inr (cfg, tr, st, sv)"
      "run_wait es = Some err" "res = Returned (map_option GoErr err) []"
proof (cases "parse_flags (run_flags (w_os w)) args")
  case (Inl err)
  with assms show ?thesis by (intro unparsed) (auto simp: run_main_def)
next
  case (Inr r)
  then obtain fs rest where p: "parse_flags (run_flags (w_os w)) args = Inr (fs, rest)" by (cases r) auto
  show ?thesis
  proof (cases "flag_bool fs ''version''")
    case True
    with assms p show ?thesis by (intro printed) (auto simp: run_main_def)
  next
    case False
    note r = assms [unfolded run_main_parsed [OF p False]]
    show ?thesis
    proof (cases "load_config w (flag_string fs ''socket'') (flag_string fs ''config'')")
      case (Inl err)
      with r show ?thesis by (intro refused [OF p load_fails_boot [OF Inl]]) simp
    next
      case (Inr cfg)
      with r show ?thesis
        by (cases "boot w (flag_string fs ''socket'') (flag_string fs ''config'')")
          (auto simp: run_def intro: printed refused [OF p] ended [OF p] split: if_splits)
    qed
  qed
qed

text \<open>The exit status of the two commands.\<close>

lemma exit_on_error_status: "status (Exited (exit_on_error err)) = (if err = ErrHelp then 0 else 2)"
  by (simp add: exit_on_error_def)

lemma error_status: "status (Returned err out) \<in> {0, 1}" "status (Returned err out) \<noteq> 2"
  by (cases err; simp)+

lemma runSetup_status:
  assumes "runSetup sw sys args d = (Some res, d')"
  shows "status res \<in> {0, 1, 2}
    \<and> (status res = 2 \<longleftrightarrow> (\<exists>err. err \<noteq> ErrHelp \<and> parse_flags (setup_flags sys) args = Inl err)
         \<or> (\<exists>fs rest. parse_flags (setup_flags sys) args = Inr (fs, rest)
              \<and> setup_Run sw sys (options_of fs) d = (Panicked, d')))
    \<and> (\<forall>err. parse_flags (setup_flags sys) args = Inl err \<longrightarrow> d' = d)
    \<and> (status res = 1 \<longleftrightarrow> (\<exists>fs rest err. parse_flags (setup_flags sys) args = Inr (fs, rest)
         \<and> setup_Run sw sys (options_of fs) d = (Finished (Inl err), d') \<and> err_root err \<noteq> Canceled))"
proof (cases "parse_flags (setup_flags sys) args")
  case (Inl err)
  with assms show ?thesis by (auto simp: runSetup_def exit_on_error_def split: if_splits)
next
  case (Inr r)
  obtain fs rest where p: "parse_flags (setup_flags sys) args = Inr (fs, rest)" using Inr by (cases r) simp
  obtain x d1 where run: "setup_Run sw sys (options_of fs) d = (x, d1)" by fastforce
  note s = assms [unfolded runSetup_def p sum.case prod.case run]
  have "d' = d1 \<and> (case x of StillWaits \<Rightarrow> False | Panicked \<Rightarrow> res = Crashed
      | Finished (Inl err) \<Rightarrow> res = Returned (Some (GoErr err)) []
      | Finished (Inr y) \<Rightarrow> (\<exists>out. res = Returned None out))"
    using s by (auto split: outcome.splits sum.splits prod.splits)
  with p run show ?thesis by (cases x; cases res; auto split: sum.splits if_splits)
qed

lemma run_main_status:
  assumes "run_main w version args served es = Some res"
  shows "status res \<in> {0, 1, 2}
    \<and> (status res = 2 \<longleftrightarrow> (\<exists>err. err \<noteq> ErrHelp \<and> parse_flags (run_flags (w_os w)) args = Inl err))
    \<and> (status res = 1 \<longrightarrow>
         (\<exists>fs rest err. parse_flags (run_flags (w_os w)) args = Inr (fs, rest) \<and> error_root err \<noteq> Some Canceled
            \<and> boot w (flag_string fs ''socket'') (flag_string fs ''config'') = Inl err)
       \<or> (\<exists>err. err_root err \<noteq> Canceled \<and> (ServeReturns (Some err) \<in> set es \<or> RunReturns (Some err) \<in> set es)))"
  using assms
proof (cases rule: run_main_cases)
  case (unparsed err)
  then show ?thesis by (auto simp: exit_on_error_def)
next
  case (printed line)
  have "parse_flags (run_flags (w_os w)) args \<noteq> Inl err" for err
    using assms printed by (auto simp: run_main_def)
  with printed show ?thesis by auto
next
  case (refused fs rest err)
  then show ?thesis by auto
next
  case (ended fs rest cfg tr st sv err)
  with run_wait_failure [of es] show ?thesis by (cases err) auto
qed

lemma run_main_signalled:
  assumes "run_main w version args served (Signalled # es) = Some res"
    and "parse_flags (run_flags (w_os w)) args = Inr (fs, rest)"
    and "boot w (flag_string fs ''socket'') (flag_string fs ''config'') = Inr b"
  shows "status res = 0"
  using assms(1) by (cases rule: run_main_cases) (use assms(2,3) in auto)

section \<open>Properties\<close>

text \<open>\<open>-print-socket\<close> tells the truth. Take two command lines whose flags differ in
  \<open>-print-socket\<close> only, neither asking for the version, and a daemon that comes up with the
  one: the other prints exactly the path that daemon listens on, and starts nothing. And
  where the configuration cannot be read, the two report the same error.\<close>

theorem print_socket_matches:
  assumes "parse_flags (run_flags (w_os w)) args = Inr (fs, rest)" and "\<not> flag_bool fs ''print-socket''"
    and "parse_flags (run_flags (w_os w)) args' = Inr (fs(''print-socket'' \<mapsto> BoolFlag True), rest')"
    and "\<not> flag_bool fs ''version''"
  shows "(boot w (flag_string fs ''socket'') (flag_string fs ''config'') = Inr (cfg, tr, st, sv) \<longrightarrow>
       run_main w version args' served es = Some (Returned None [sv_path sv]))
    \<and> (load_config w (flag_string fs ''socket'') (flag_string fs ''config'') = Inl err \<longrightarrow>
       run_main w version args' served es = Some (Returned (Some (ConfigErr err)) [])
       \<and> run_main w version args served es = Some (Returned (Some (ConfigErr err)) []))"
proof -
  let ?fs = "fs(''print-socket'' \<mapsto> BoolFlag True)"
  have f: "flag_string ?fs ''socket'' = flag_string fs ''socket''" "flag_bool ?fs ''print-socket''"
    "flag_string ?fs ''config'' = flag_string fs ''config''" "flag_bool ?fs ''version'' = flag_bool fs ''version''"
    by (simp_all add: flag_string_def flag_bool_def)
  with assms(4) have "\<not> flag_bool ?fs ''version''" by simp
  from run_main_parsed [OF assms(3) this] run_main_parsed [OF assms(1,4)] show ?thesis
    by (auto simp: f dest!: boot_path)
qed

lemma plain_flags:
  "parse_flags (run_flags sys) [''-socket'', ''/run/s'', ''-config=c''] =
     Inr ((run_flags sys)(''socket'' \<mapsto> StringFlag ''/run/s'', ''config'' \<mapsto> StringFlag ''c''), [])"
  using parse_rendered [of "run_flags sys" "[(Next, ''socket'', StringFlag ''/run/s''), (Joined, ''config'', StringFlag ''c'')]"]
  by (simp add: render_flags_def apply_settings_def run_flags_def flag_name_def)

theorem print_socket_matches_witness:
  "run_main plain_world ''dev'' [''-socket'', ''/run/s'', ''-config=c'', ''-print-socket''] (add_client 1) []
     = Some (Returned None [''/run/s''])"
proof -
  let ?fs = "(run_flags (w_os plain_world))(''socket'' \<mapsto> StringFlag ''/run/s'', ''config'' \<mapsto> StringFlag ''c'')"
  have "parse_flags (run_flags (w_os plain_world)) [''-socket'', ''/run/s'', ''-config=c'', ''-print-socket''] =
      Inr (?fs(''print-socket'' \<mapsto> BoolFlag True), [])"
    using parse_rendered [of "run_flags (w_os plain_world)" "[(Next, ''socket'', StringFlag ''/run/s''),
        (Joined, ''config'', StringFlag ''c''), (Next, ''print-socket'', BoolFlag True)]"]
    by (simp add: render_flags_def apply_settings_def run_flags_def flag_name_def)
  moreover have "\<not> flag_bool ?fs ''print-socket''" "\<not> flag_bool ?fs ''version''"
    "flag_string ?fs ''socket'' = ''/run/s''" "flag_string ?fs ''config'' = ''c''"
    by (simp_all add: flag_bool_def flag_string_def run_flags_def)
  moreover obtain cfg m st sv where "boot plain_world ''/run/s'' ''c'' = Inr (cfg, OpenedMatrix m, OpenedSQLite st, sv)"
    "sv_path sv = ''/run/s''" using plain_world_boots by blast
  ultimately show ?thesis
    using print_socket_matches [of plain_world "[''-socket'', ''/run/s'', ''-config=c'']" ?fs "[]"
        "[''-socket'', ''/run/s'', ''-config=c'', ''-print-socket'']" "[]" cfg "OpenedMatrix m" "OpenedSQLite st" sv]
      plain_flags [of "w_os plain_world"] by simp
qed

text \<open>C39: what the exit status means. It is 0, 1 or 2. The wizard's is 2 exactly when its flags
  could not be parsed (asking for help is not that), and then it has changed nothing, or it
  crashed; and it crashes only on a \<open>homeserver.yaml\<close> without a document. The wizard's is 1
  exactly when it failed with anything but a cancellation. The daemon's is 2 exactly when its
  flags could not be parsed; it is 1 only when the daemon did not come up or its server or
  session reported an error, again no cancellation; and a daemon that came up and is told to
  stop exits with 0.\<close>

theorem exit_status:
  assumes "main w sw version args served es d = (Some res, d')"
  shows "status res \<in> {0, 1, 2}
    \<and> (\<forall>given. args = ''setup'' # given \<longrightarrow>
         (status res = 2 \<longleftrightarrow> (\<exists>err. err \<noteq> ErrHelp \<and> parse_flags (setup_flags (w_os w)) given = Inl err)
            \<or> (\<exists>fs rest. parse_flags (setup_flags (w_os w)) given = Inr (fs, rest)
                 \<and> setup_Run sw (w_os w) (options_of fs) d = (Panicked, d')))
       \<and> (\<forall>err. parse_flags (setup_flags (w_os w)) given = Inl err \<longrightarrow> d' = d)
       \<and> (\<forall>fs rest. parse_flags (setup_flags (w_os w)) given = Inr (fs, rest) \<and> status res = 2 \<longrightarrow>
            (\<exists>f doc. dk_files d' (homeserver_yaml (so_DockerDir (setDefaults (w_os w) (options_of fs)))) = Some f
               \<and> sw_unmarshal sw (f_content f) = Inr doc \<and> y_content doc = []))
       \<and> (status res = 1 \<longleftrightarrow> (\<exists>fs rest err. parse_flags (setup_flags (w_os w)) given = Inr (fs, rest)
            \<and> setup_Run sw (w_os w) (options_of fs) d = (Finished (Inl err), d') \<and> err_root err \<noteq> Canceled)))
    \<and> ((\<forall>given. args \<noteq> ''setup'' # given) \<longrightarrow> d' = d
       \<and> (status res = 2 \<longleftrightarrow> (\<exists>err. err \<noteq> ErrHelp \<and> parse_flags (run_flags (w_os w)) args = Inl err))
       \<and> (status res = 1 \<longrightarrow>
            (\<exists>fs rest err. parse_flags (run_flags (w_os w)) args = Inr (fs, rest) \<and> error_root err \<noteq> Some Canceled
               \<and> boot w (flag_string fs ''socket'') (flag_string fs ''config'') = Inl err)
          \<or> (\<exists>err. err_root err \<noteq> Canceled \<and> (ServeReturns (Some err) \<in> set es \<or> RunReturns (Some err) \<in> set es)))
       \<and> (parse_flags (run_flags (w_os w)) args = Inr (fs, rest) \<and> es \<noteq> [] \<and> hd es = Signalled
          \<and> boot w (flag_string fs ''socket'') (flag_string fs ''config'') = Inr b \<longrightarrow> status res = 0))"
proof (cases "\<exists>given. args = ''setup'' # given")
  case True
  then obtain given where args: "args = ''setup'' # given" by blast
  with assms have "runSetup sw (w_os w) given d = (Some res, d')" by (simp add: main_def)
  note st = runSetup_status [OF this]
  have "\<exists>f doc. dk_files d' (homeserver_yaml (so_DockerDir (setDefaults (w_os w) (options_of fs)))) = Some f
      \<and> sw_unmarshal sw (f_content f) = Inr doc \<and> y_content doc = []"
    if "parse_flags (setup_flags (w_os w)) given = Inr (fs, rest)" "status res = 2" for fs rest
    using st that by (intro setup_Run_panics [of sw "w_os w" "options_of fs" d]) auto
  with st args show ?thesis by auto
next
  case False
  then have "\<not> (args \<noteq> [] \<and> hd args = ''setup'')" by (auto simp: neq_Nil_conv)
  with assms have r: "run_main w version args served es = Some res" "d' = d" by (auto simp: main_def)
  have "status res = 0" if "parse_flags (run_flags (w_os w)) args = Inr (fs, rest)" "es \<noteq> []" "hd es = Signalled"
    "boot w (flag_string fs ''socket'') (flag_string fs ''config'') = Inr b"
    using that r(1) run_main_signalled [of w version args served "tl es" res fs rest b] by (cases es) auto
  with run_main_status [OF r(1)] r(2) False show ?thesis by blast
qed

theorem exit_status_witness:
  "status (Exited (exit_on_error (NotDefined ''forced''))) = 2
   \<and> fst (main plain_world quiet_world ''dev'' [''setup'', ''-forced''] (add_client 1) [] quiet_disk) = Some (Exited 2)
   \<and> snd (main plain_world quiet_world ''dev'' [''setup'', ''-forced''] (add_client 1) [] quiet_disk) = quiet_disk"
proof -
  have p: "parse_flags (setup_flags (w_os plain_world)) [''-forced''] = Inl (NotDefined ''forced'')"
  proof -
    have "parseOne (setup_flags (w_os plain_world)) [''-forced''] = Failed (NotDefined ''forced'')"
      using parse_one(1) [of "''forced''" "''forced''" None "setup_flags (w_os plain_world)" "[]"]
      by (simp add: flag_name_def set_flag_def setup_flags_def)
    then show ?thesis by (subst parse_flags.simps) simp
  qed
  obtain d' where m: "main plain_world quiet_world ''dev'' [''setup'', ''-forced''] (add_client 1) [] quiet_disk
      = (Some (Exited (exit_on_error (NotDefined ''forced''))), d')"
    using p by (simp add: main_def runSetup_def)
  from exit_status [OF m] m p show ?thesis by (simp add: exit_on_error_def)
qed


function shell_words :: "gostring \<Rightarrow> gostring list" where
  "shell_words [] = []"
| "shell_words (c # s) =
     (if c = CHR '' '' then shell_words s
      else takeWhile ((\<noteq>) CHR '' '') (c # s) # shell_words (dropWhile ((\<noteq>) CHR '' '') s))"
  by pat_completeness auto
termination
  by (relation "measure length") (auto simp: le_imp_less_Suc length_dropWhile_le)





text \<open>The path is printed as it is: with a blank in it the shell reads two words.\<close>

lemma summary_path_unquoted:
  "shell_words (next_command ''/a b'') = [''quietdmd'', ''-config'', ''/a'', ''b'', ''-v'']"
  by (simp add: next_command_def)





end
