(* ===== verification/Spec2Isabelle.thy ===== *)
theory Spec2Isabelle
  imports Pipeline Delivery Serial Interleaving StateDB CommandLine
begin

text \<open>
  A verification development of \<open>quietdm.nvim\<close>'s Go program: the daemon \<open>quietdmd\<close>, which
  carries direct messages between a Matrix homeserver and Neovim frontends, and its set-up
  wizard \<open>quietdmd setup\<close>. Names of definitions are those of the Go source where HOL allows
  it; a name that would clash has a prefix (\<open>mem_\<close>, \<open>sq_\<close>, \<open>mock_\<close>, \<open>matrix_\<close>, \<open>cfg_\<close>, ...).

  The program. A transport (\<open>internal/transport\<close>: a scripted mock, or a Matrix client)
  delivers events through an event sink to the session (\<open>internal/session\<close>), which
  sanitises their text (\<open>internal/sanitize\<close>), keeps them in a store (\<open>internal/store\<close>: in
  memory or SQLite) and broadcasts them through the hub (\<open>internal/ipc\<close>) to the frontends
  past their hello. Frontends send one JSON command per line; the hub answers each through
  the session. \<open>cmd/quietdmd/main.go\<close> wires these from the configuration
  (\<open>internal/config\<close>). The wizard (\<open>internal/setup\<close>) brings up a homeserver and a bridge
  in Docker, makes an account and leaves the files the daemon starts from.

  Theories, in the order of the code.
  \<^item> \<open>Prelude\<close>, \<open>GoStrings\<close>, \<open>GoStd\<close>, \<open>GoErrors\<close>, \<open>Json\<close>, \<open>JsonRoundTrip\<close>, \<open>Files\<close>: what the
    program uses of Go. Strings are lists of 8-bit characters with UTF-8 decoding written
    out, errors are chains of wraps, \<open>encoding/json\<close> is a printer and a full reader, the
    file system is a map with a schedule of failures.
  \<^item> \<open>Model\<close>, \<open>Sanitize\<close>: \<open>model.go\<close> and \<open>sanitize.go\<close>. Sanitised text is clean, capped at
    a rune, free when asked for of what Unicode's tables call emoji (two squares excepted), and a
    fixed point.
  \<^item> \<open>StoreSpec\<close>, \<open>StoreMemory\<close>, \<open>StoreSqlite\<close>, \<open>StoreProps\<close>: the \<open>Store\<close> interface as a record of
    operations with its abstract contract, a bounded log per room with a read marker
    (locales \<open>store_contract\<close> and \<open>reliable_store\<close>, both interpreted on the code's stores);
    \<open>memory.go\<close>; \<open>sqlite.go\<close> with every statement as a function on the two tables and every
    driver failure. The SQL refines the contract and the two stores cannot be told apart.
  \<^item> \<open>Transport\<close>, \<open>Session\<close>, \<open>SessionProps\<close>: \<open>transport.go\<close> and \<open>session.go\<close>. What is broadcast
    is true of the store; rooms are never lost or renamed; what a read mark does.
  \<^item> \<open>Proto\<close>, \<open>ProtoProps\<close>, \<open>Schema\<close>, \<open>Server\<close>, \<open>ServerProps\<close>, \<open>Hub\<close>: \<open>proto.go\<close> and the clients of
    \<open>server.go\<close>: framing, the types of the events as JSON values, the hello guard, the one reply
    to a command and what becomes of it, the slow-client rule. \<open>Hub\<close>
    states the server's \<open>Handler\<close> as the locale \<open>ipc_handler\<close>; the session over any store with
    the contract is one (a \<open>sublocale\<close>), so over SQLite too: no line of a frontend changes a
    history.
  \<^item> \<open>Listener\<close>: the socket of \<open>server.go\<close>, from \<open>Listen\<close> to \<open>Close\<close>.
  \<^item> \<open>Sink\<close>: \<open>sink.go\<close> as a step relation of senders, receiver and closer; no send hits the
    closed channel, and closing can always be finished.
  \<^item> \<open>Mock\<close>, \<open>Matrix\<close>, \<open>MatrixProps\<close>: \<open>mock.go\<close>, \<open>matrix.go\<close>, \<open>matrix_session.go\<close>: the script, the
    reconnect loop with its backoff on 64-bit durations, the connection flag, what becomes
    of an event, the key file of the crypto store.
  \<^item> \<open>Config\<close>, \<open>Boot\<close>, \<open>Startup\<close>: \<open>config.go\<close>, \<open>paths.go\<close>, \<open>token.go\<close> and \<open>main.go\<close>: loading and
    validation, the private token, the store and the session's options, start-up to the
    listening socket, and what ends the daemon and what it leaves.
  \<^item> \<open>Daemon\<close>: the goroutines of the running daemon as an interleaving step relation over
    session, store and clients, with the invariant of every reachable state. \<open>Lifetimes\<close>: starts
    and runs of the daemon one after the other on one database. Seen from outside the
    histories are exactly the bounded log of what was received; with failures, the end of
    what was there and what arrived.
  \<^item> \<open>Pipeline\<close>: the transport's goroutine, the sink and the daemon in one step relation, from the
    transport's script to the histories: nothing is lost, invented or reordered, and what was
    delivered can always be taken. \<open>Delivery\<close>: from the histories' messages to the lines a frontend
    reads: a connection past its hello is shown every message received that fits a line, but for
    those its drop counter counts. \<open>Serial\<close>: the store with its read markers is what the messages
    received and the read marks commanded make of it, one after the other. \<open>Interleaving\<close>: the
    session with each call of the store a step of its own: history and live messages meet without
    a gap; a count can be broadcast too late.
  \<^item> \<open>StateDB\<close>: how \<open>sqlite.go\<close> makes and opens its file, on the disk of \<open>Files\<close>: the
    driver only ever meets the file prepared for it.
  \<^item> \<open>EnvFile\<close>, \<open>Yaml\<close>, \<open>Stack\<close>, \<open>SetupFiles\<close>, \<open>Wizard\<close>, \<open>WizardProps\<close>, \<open>Setup\<close>: the wizard's
    environment file (\<open>synapse.go\<close>), YAML patching (\<open>yamlpatch.go\<close>), services (\<open>synapse.go\<close>,
    \<open>bridge.go\<close>, \<open>dockercmd.go\<close>), files for the daemon (\<open>writeconfig.go\<close> and its template),
    account and bridge conversation (\<open>setup.go\<close>, \<open>chat.go\<close>), and \<open>Run\<close> as a whole: the
    password is made once, patches keep what they do not set, no configuration is
    overwritten unasked, and a finished set-up leaves a token the daemon accepts.
  \<^item> \<open>Toml\<close>, \<open>Handover\<close>: from the wizard to the daemon. A reader for the part of TOML the wizard
    writes says what is relied on of the decoder package; the rendered configuration loads
    into what it was rendered from, and a daemon started on a finished set-up that wrote its
    own token file, with printable names, does not refuse its configuration or its token.
  \<^item> \<open>Flags\<close>, \<open>CommandLine\<close>: Go's \<open>flag\<close> package and the two commands (\<open>main.go\<close>,
    \<open>cmd/quietdmd/setup.go\<close>, \<open>printSummary\<close>) from their arguments to the exit status: what the
    status means, what \<open>-print-socket\<close> prints, and that the command the wizard prints last
    starts the daemon.

  What lies outside is an argument: the mautrix client, Docker, the TOML and YAML parsers,
  the SQL driver's failures, the operating system's answers, clocks and random bytes. A
  property assumes of them only what it names, and its witness runs it on concrete ones.

  Bounds. \<open>clientQueue\<close> is 64 lines, \<open>MaxLine\<close> 64 KiB, as in the code. Loops over data recur on
  the data. Loops over the outside recur on the list of its answers: running out of answers
  is the value \<open>None\<close>, still waiting. The one loop with fuel is \<open>wait_loop\<close>: 62 polls are
  proved enough for its timeout of 60 seconds when each takes its second of waiting. The
  backoff doubles on 64-bit words; integers of JSON and of durations are \<open>int\<close>.

  Not modelled. The Lua frontend, usage texts, log and progress lines, write deadlines, the
  stores' \<open>Close\<close> (it only closes a handle), the embedding of the compose file, SQLite's journal
  file, and the umask on files the wizard writes. Garbage collection, memory and the
  scheduler's fairness are outside the model: interleavings are arbitrary.

  Where to go on: the mock's replies to \<open>Send\<close> as senders of the pipeline, so that an
  acknowledged message is followed from one frontend to all; what the read marks of several frontends
  promise when their calls interleave.
\<close>

end
